(* ===== verification/Prelude.thy ===== *)
theory Prelude
  imports Main "HOL-Library.Word" "HOL-Library.Monad_Syntax"
begin

text \<open>
  What every component of the development shares: the error codes of \<^verbatim>\<open>errno.h\<close> that the
  program returns, the result type of a call that may fail, machine-integer helpers, the
  collections of simplification rules the component proofs draw on, generic facts on lists, and
  the interface of an inductive invariant of a transition system.
\<close>

section \<open>Collections of facts\<close>

named_theorems text_simps \<open>rewriting of C string operations\<close>
named_theorems wire_simps \<open>rewriting of byte-level encoders and decoders\<close>
named_theorems res_simps \<open>inversion of the error monad\<close>

section \<open>Error codes and results\<close>

datatype errno =
    EINVAL | ENOMEM | E2BIG | EOVERFLOW | EADDRINUSE | ERANGE | EAFNOSUPPORT
  | EPROTONOSUPPORT | ENOSPC | EMSGSIZE | EIO | ENOTSUP | ENAMETOOLONG | ECANCELED
  | EAGAIN | EINTR | ECONNRESET | EPIPE | ETIMEDOUT | ENOENT | EEXIST
  | EOther nat

text \<open>
  A function that returns \<^verbatim>\<open>0\<close> or \<^verbatim>\<open>-errno\<close> (or a positive \<^verbatim>\<open>errno\<close> in the worker
  code) and writes its result through a pointer is a value of type \<open>'a result\<close>: \<open>Inl e\<close> is
  the error return, \<open>Inr v\<close> the return of 0 with \<open>v\<close> written.
\<close>

type_synonym 'a result = "errno + 'a"

definition bind_res :: "'a result \<Rightarrow> ('a \<Rightarrow> 'b result) \<Rightarrow> 'b result" where
  "bind_res m f = (case m of Inl e \<Rightarrow> Inl e | Inr v \<Rightarrow> f v)"

lemma bind_res_simps [simp]:
  "bind_res (Inl e) f = Inl e"
  "bind_res (Inr v) f = f v"
  by (simp_all add: bind_res_def)

lemma bind_res_Inr [res_simps]:
  "bind_res m f = Inr w \<longleftrightarrow> (\<exists>v. m = Inr v \<and> f v = Inr w)"
  by (cases m) auto

lemma bind_res_Inl [res_simps]:
  "bind_res m f = Inl e \<longleftrightarrow> m = Inl e \<or> (\<exists>v. m = Inr v \<and> f v = Inl e)"
  by (cases m) auto

lemma bind_res_cong [fundef_cong]:
  assumes "m = m'" and "\<And>v. m' = Inr v \<Longrightarrow> f v = f' v"
  shows "bind_res m f = bind_res m' f'"
  using assms by (cases m') auto

definition guard_res :: "bool \<Rightarrow> errno \<Rightarrow> unit result" where
  "guard_res b e = (if b then Inr () else Inl e)"

lemma guard_res_iff [res_simps]:
  "guard_res b e = Inr u \<longleftrightarrow> b"
  "guard_res b e = Inl e' \<longleftrightarrow> \<not> b \<and> e' = e"
  by (auto simp: guard_res_def)

lemma guard_res_simps [simp]:
  "guard_res True e = Inr ()"
  "guard_res False e = Inl e"
  by (simp_all add: guard_res_def)

section \<open>Machine integers\<close>

text \<open>
  The program is modelled for the LP64 data model of 64-bit Linux: \<^verbatim>\<open>int\<close> has 32 bits,
  \<^verbatim>\<open>long\<close>, \<^verbatim>\<open>size_t\<close> and pointers have 64.
\<close>

type_synonym byte = "8 word"

definition INT_MAX :: int where "INT_MAX = 2147483647"
definition LONG_MAX :: int where "LONG_MAX = 9223372036854775807"
definition ULONG_MAX :: int where "ULONG_MAX = 18446744073709551615"
definition SIZE_MAX :: int where "SIZE_MAX = 18446744073709551615"

text \<open>
  Signed overflow is undefined in C. A signed multiplication or addition of \<^verbatim>\<open>int\<close>s is
  therefore partial: \<open>None\<close> is undefined behaviour.
\<close>

definition in_int :: "int \<Rightarrow> bool" where
  "in_int x \<longleftrightarrow> - 2147483648 \<le> x \<and> x \<le> INT_MAX"

definition int_result :: "int \<Rightarrow> int option" where
  "int_result x = (if in_int x then Some x else None)"

lemma unat_byte_less: "unat (b :: byte) < 256"
  using unsigned_less [of b] by simp

lemma unat_byte_le: "unat (b :: byte) \<le> 255"
  using unat_byte_less [of b] by linarith

lemma unat_u16_less: "unat (v :: 16 word) < 65536"
  using unsigned_less [of v] by simp

lemma unat_ucast_mod:
  "unat (ucast (w :: 'a::len word) :: 'b::len word) = unat w mod 2 ^ LENGTH('b)"
  by (simp add: unsigned_ucast_eq take_bit_eq_mod)

section \<open>Lists\<close>

lemma dropWhile_takeWhile_length:
  "length (dropWhile P xs) \<le> length xs"
  by (rule length_dropWhile_le)

lemma takeWhile_all: "(\<forall>x \<in> set xs. P x) \<Longrightarrow> takeWhile P xs = xs"
  by (simp add: takeWhile_eq_all_conv)

lemma dropWhile_all: "(\<forall>x \<in> set xs. P x) \<Longrightarrow> dropWhile P xs = []"
  by simp

lemma dropWhile_hd: "xs \<noteq> [] \<Longrightarrow> \<not> P (hd xs) \<Longrightarrow> dropWhile P xs = xs"
  by (cases xs) simp_all

lemma set_takeWhile_P: "x \<in> set (takeWhile P xs) \<Longrightarrow> P x"
  by (auto dest: set_takeWhileD)

lemma in_set_tlD: "x \<in> set (tl xs) \<Longrightarrow> x \<in> set xs"
  by (cases xs) auto

section \<open>Linked lists\<close>

text \<open>
  The addresses \<open>as\<close> in the order in which following \<open>nx\<close> from \<open>p\<close> visits them; \<open>nx a\<close> is \<open>None\<close> when
  nothing lives at \<open>a\<close>, and the next pointer otherwise.
\<close>

fun linked :: "('a \<Rightarrow> 'a option option) \<Rightarrow> 'a option \<Rightarrow> 'a list \<Rightarrow> bool" where
  "linked nx p [] \<longleftrightarrow> p = None"
| "linked nx p (a # as) \<longleftrightarrow> p = Some a \<and> (case nx a of None \<Rightarrow> False | Some q \<Rightarrow> linked nx q as)"

lemma linked_Cons: "linked nx p (a # as) \<longleftrightarrow> (\<exists>q. p = Some a \<and> nx a = Some q \<and> linked nx q as)"
  by (auto split: option.splits)

lemma linked_frame: "(\<And>a. a \<in> set as \<Longrightarrow> nx' a = nx a) \<Longrightarrow> linked nx' p as = linked nx p as"
  by (induction as arbitrary: p) (auto split: option.split)

lemma linked_live: "linked nx p as \<Longrightarrow> a \<in> set as \<Longrightarrow> nx a \<noteq> None"
  by (induction as arbitrary: p) (auto split: option.splits)

section \<open>Transition systems\<close>

text \<open>
  The reachable states of a component with initial states \<open>init\<close> and steps \<open>step\<close>, and the
  interface through which an invariant of it is used: whoever provides that \<open>inv\<close> holds
  initially and is kept by each step gets it at every reachable state.
\<close>

inductive reach :: "('s \<Rightarrow> bool) \<Rightarrow> ('s \<Rightarrow> 's \<Rightarrow> bool) \<Rightarrow> 's \<Rightarrow> bool"
  for init :: "'s \<Rightarrow> bool" and step :: "'s \<Rightarrow> 's \<Rightarrow> bool" where
  reach_init: "init s \<Longrightarrow> reach init step s"
| reach_step: "reach init step s \<Longrightarrow> step s t \<Longrightarrow> reach init step t"

lemma reach_mono:
  assumes "reach init step s" and "\<And>s. init s \<Longrightarrow> init' s"
  shows "reach init' step s"
  using assms(1) by (induction rule: reach.induct) (auto intro: reach.intros assms(2))

lemma reach_rtranclp: "reach init step s \<Longrightarrow> step\<^sup>*\<^sup>* s t \<Longrightarrow> reach init step t"
  by (rotate_tac, induction rule: rtranclp_induct) (auto intro: reach_step)

locale inductive_invariant =
  fixes init :: "'s \<Rightarrow> bool"
    and step :: "'s \<Rightarrow> 's \<Rightarrow> bool"
    and inv :: "'s \<Rightarrow> bool"
  assumes inv_init: "init s \<Longrightarrow> inv s"
    and inv_step: "inv s \<Longrightarrow> step s t \<Longrightarrow> inv t"
begin

lemma inv_reach: "reach init step s \<Longrightarrow> inv s"
  by (induction rule: reach.induct) (auto intro: inv_init inv_step)

lemma inv_steps: "step\<^sup>*\<^sup>* s t \<Longrightarrow> inv s \<Longrightarrow> inv t"
  by (induction rule: rtranclp_induct) (auto intro: inv_step)

end

text \<open>
  A system made of components: \<open>view i\<close> is what component \<open>i\<close> sees of a state of the whole, for
  the components \<open>parts s\<close> there are. When every step of the whole is, seen from any component, a
  step of that component or no step at all, the views of reachable states are reachable.
\<close>

locale component_view = inductive_invariant init step inv
  for init :: "'s \<Rightarrow> bool" and step :: "'s \<Rightarrow> 's \<Rightarrow> bool" and inv :: "'s \<Rightarrow> bool" +
  fixes parts :: "'s \<Rightarrow> 'i set"
    and view :: "'i \<Rightarrow> 's \<Rightarrow> 'c"
    and cinit :: "'c \<Rightarrow> bool"
    and cstep :: "'c \<Rightarrow> 'c \<Rightarrow> bool"
  assumes view_init: "init s \<Longrightarrow> i \<in> parts s \<Longrightarrow> cinit (view i s)"
    and parts_step: "inv s \<Longrightarrow> step s t \<Longrightarrow> parts t = parts s"
    and view_step: "inv s \<Longrightarrow> step s t \<Longrightarrow> i \<in> parts s \<Longrightarrow> view i t = view i s \<or> cstep (view i s) (view i t)"
begin

lemma view_reach: "reach init step s \<Longrightarrow> i \<in> parts s \<Longrightarrow> reach cinit cstep (view i s)"
proof (induction rule: reach.induct)
  case (reach_init s)
  then show ?case by (intro reach.intros view_init)
next
  case (reach_step s t)
  have inv: "inv s" using reach_step.hyps(1) by (rule inv_reach)
  with reach_step have "reach cinit cstep (view i s)" using parts_step by blast
  with view_step [OF inv reach_step.hyps(2)] reach_step.prems parts_step [OF inv reach_step.hyps(2)] show ?case
    by (metis reach.reach_step)
qed

end

section \<open>Event loops\<close>

text \<open>
  What callbacks ask of the event loop they run in: \<^verbatim>\<open>event_base_loopbreak\<close> ends it after the callback that is running,
  \<^verbatim>\<open>event_base_loopexit\<close> after the callbacks that are due.
\<close>

record event_loop =
  el_break :: bool
  el_exit :: bool

end
