(* ===== verification/C_Strings.thy ===== *)
theory C_Strings
  imports Prelude
begin

text \<open>
  The part of the C library that the text-handling code calls, on strings without their
  terminating NUL: character classes, \<^verbatim>\<open>strtok_r\<close>, \<^verbatim>\<open>strtoul\<close> and \<^verbatim>\<open>strtol\<close> in
  base 10, and the conversions \<^verbatim>\<open>%u\<close>, \<^verbatim>\<open>%d\<close> and bounded printing of \<^verbatim>\<open>snprintf\<close>.
  The lemmas give the round trip between printing and reading a number and the shape of the
  tokens.
\<close>

section \<open>Characters\<close>

abbreviation NUL :: char where "NUL \<equiv> CHR 0x00"
abbreviation TAB :: char where "TAB \<equiv> CHR 0x09"
abbreviation LF :: char where "LF \<equiv> CHR 0x0A"
abbreviation CR :: char where "CR \<equiv> CHR 0x0D"
abbreviation BSL :: char where "BSL \<equiv> CHR 0x5C"
abbreviation QUOT :: char where "QUOT \<equiv> CHR 0x22"

definition code :: "char \<Rightarrow> nat" where
  "code c = of_char c"

text \<open>\<^verbatim>\<open>isspace\<close>, \<^verbatim>\<open>isdigit\<close> and \<^verbatim>\<open>isalnum\<close> in the C locale, on unsigned bytes.\<close>

definition isspace :: "char \<Rightarrow> bool" where
  "isspace c \<longleftrightarrow> c \<in> {CHR '' '', TAB, LF, CHR 0x0B, CHR 0x0C, CR}"

definition isdigit :: "char \<Rightarrow> bool" where
  "isdigit c \<longleftrightarrow> 48 \<le> code c \<and> code c \<le> 57"

definition isalnum :: "char \<Rightarrow> bool" where
  "isalnum c \<longleftrightarrow> isdigit c \<or> 65 \<le> code c \<and> code c \<le> 90 \<or> 97 \<le> code c \<and> code c \<le> 122"

definition digit_value :: "char \<Rightarrow> int" where
  "digit_value c = int (code c) - 48"

text \<open>The string a C function sees in a buffer: everything before the first NUL.\<close>

definition cstr :: "string \<Rightarrow> string" where
  "cstr buf = takeWhile (\<lambda>c. c \<noteq> NUL) buf"

lemma cstr_no_NUL [simp]: "NUL \<notin> set (cstr s)"
  by (auto simp: cstr_def dest: set_takeWhileD)

lemma cstr_id: "NUL \<notin> set s \<Longrightarrow> cstr s = s"
  unfolding cstr_def by (rule takeWhile_all) auto

lemma length_cstr: "length (cstr s) \<le> length s"
  by (simp add: cstr_def length_takeWhile_le)

section \<open>Tokens\<close>

text \<open>
  One call of \<^verbatim>\<open>strtok_r\<close>: the next token and what the save pointer leaves, or \<open>None\<close> for
  the null pointer when only delimiters are left.
\<close>

definition strtok_r :: "char list \<Rightarrow> string \<Rightarrow> (string \<times> string) option" where
  "strtok_r delims s =
     (case dropWhile (\<lambda>c. c \<in> set delims) s of
        [] \<Rightarrow> None
      | s' \<Rightarrow> Some (takeWhile (\<lambda>c. c \<notin> set delims) s',
                   drop 1 (dropWhile (\<lambda>c. c \<notin> set delims) s')))"

lemma strtok_r_None: "strtok_r ds s = None \<longleftrightarrow> set s \<subseteq> set ds"
proof -
  have "strtok_r ds s = None \<longleftrightarrow> dropWhile (\<lambda>c. c \<in> set ds) s = []"
    by (simp add: strtok_r_def del: dropWhile_eq_Nil_conv split: list.splits)
  also have "\<dots> \<longleftrightarrow> set s \<subseteq> set ds" by (auto simp: dropWhile_eq_Nil_conv)
  finally show ?thesis .
qed

lemma strtok_r_shorter: "strtok_r ds s = Some (t, r) \<Longrightarrow> length r < length s"
proof -
  assume "strtok_r ds s = Some (t, r)"
  then obtain c s' where s': "dropWhile (\<lambda>c. c \<in> set ds) s = c # s'"
    and r: "r = drop 1 (dropWhile (\<lambda>c. c \<notin> set ds) (c # s'))"
    by (auto simp: strtok_r_def split: list.splits)
  have "length r < length (c # s')"
    unfolding r using length_dropWhile_le [of "\<lambda>c. c \<notin> set ds" "c # s'"]
    by (simp only: length_drop) (cases "dropWhile (\<lambda>c. c \<notin> set ds) (c # s')"; simp)
  also have "\<dots> \<le> length s"
    by (metis s' length_dropWhile_le)
  finally show ?thesis .
qed

lemma strtok_r_token: 
  assumes "strtok_r ds s = Some (t, r)"
  shows "t \<noteq> [] \<and> set t \<inter> set ds = {} \<and> set t \<subseteq> set s \<and> set r \<subseteq> set s"
proof -
  from assms obtain c s' where s': "dropWhile (\<lambda>c. c \<in> set ds) s = c # s'"
    and t: "t = takeWhile (\<lambda>c. c \<notin> set ds) (c # s')"
    and r: "r = drop 1 (dropWhile (\<lambda>c. c \<notin> set ds) (c # s'))"
    by (auto simp: strtok_r_def split: list.splits)
  have c: "c \<notin> set ds" 
    by (metis s' dropWhile_eq_Cons_conv)
  have sub: "set (c # s') \<subseteq> set s"
    by (metis s' set_dropWhileD subsetI)
  have "set r \<subseteq> set (c # s')"
    unfolding r by (meson in_set_dropD set_dropWhileD subsetI)
  moreover have "set t \<subseteq> set (c # s')"
    unfolding t by (meson set_takeWhileD subsetI)
  moreover have "set t \<inter> set ds = {}"
    unfolding t by (auto dest: set_takeWhileD)
  ultimately show ?thesis using c sub t by auto
qed

section \<open>Decimal numbers\<close>

text \<open>
  The digits \<^verbatim>\<open>strtoul\<close> and \<^verbatim>\<open>strtol\<close> read: the value of the longest run of decimal
  digits, unbounded, and the unread rest.
\<close>

fun read_digits :: "int \<Rightarrow> string \<Rightarrow> int \<times> string" where
  "read_digits acc [] = (acc, [])"
| "read_digits acc (c # s) =
     (if isdigit c then read_digits (10 * acc + digit_value c) s else (acc, c # s))"

definition read_sign :: "string \<Rightarrow> bool \<times> string" where
  "read_sign s = (case s of
       c # r \<Rightarrow> if c = CHR ''-'' then (True, r) else if c = CHR ''+'' then (False, r) else (False, s)
     | [] \<Rightarrow> (False, s))"

text \<open>
  The result of \<^verbatim>\<open>strtoul(s, &end, 10)\<close>: the value, the string \<^verbatim>\<open>end\<close> points to, and
  whether \<^verbatim>\<open>errno\<close> was set to \<^verbatim>\<open>ERANGE\<close>. Without digits the value is 0 and \<^verbatim>\<open>end\<close> is
  \<^verbatim>\<open>s\<close>. A minus sign negates in the unsigned type, as the C standard says.
\<close>

definition strtoul10 :: "string \<Rightarrow> int \<times> string \<times> bool" where
  "strtoul10 s =
     (let (neg, r) = read_sign (dropWhile isspace s) in
      if r = [] \<or> \<not> isdigit (hd r) then (0, s, False)
      else let (v, e) = read_digits 0 r in
           if v > ULONG_MAX then (ULONG_MAX, e, True)
           else ((if neg \<and> v \<noteq> 0 then ULONG_MAX + 1 - v else v), e, False))"

definition strtol10 :: "string \<Rightarrow> int \<times> string \<times> bool" where
  "strtol10 s =
     (let (neg, r) = read_sign (dropWhile isspace s) in
      if r = [] \<or> \<not> isdigit (hd r) then (0, s, False)
      else let (v, e) = read_digits 0 r;
               x = (if neg then - v else v) in
           if x > LONG_MAX then (LONG_MAX, e, True)
           else if x < - LONG_MAX - 1 then (- LONG_MAX - 1, e, True)
           else (x, e, False))"

text \<open>\<^verbatim>\<open>%u\<close> and \<^verbatim>\<open>%d\<close>.\<close>

definition digit_char :: "nat \<Rightarrow> char" where
  "digit_char d = char_of (48 + d)"

fun show_nat :: "nat \<Rightarrow> string" where
  "show_nat n = (if n < 10 then [digit_char n] else show_nat (n div 10) @ [digit_char (n mod 10)])"

declare show_nat.simps [simp del]

definition show_int :: "int \<Rightarrow> string" where
  "show_int i = (if i < 0 then CHR ''-'' # show_nat (nat (- i)) else show_nat (nat i))"

text \<open>
  \<^verbatim>\<open>snprintf(buf, n, ...)\<close> with \<open>n > 0\<close> stores the first \<open>n - 1\<close> characters; its value is
  the length of the untruncated text.
\<close>

definition snprintf_buf :: "nat \<Rightarrow> string \<Rightarrow> string" where
  "snprintf_buf n s = take (n - 1) s"

lemma length_snprintf_buf: "0 < n \<Longrightarrow> length (snprintf_buf n s) < n"
  by (simp add: snprintf_buf_def)

lemma snprintf_buf_fits: "length s < n \<Longrightarrow> snprintf_buf n s = s"
  by (simp add: snprintf_buf_def)

subsection \<open>Printing and reading back\<close>

lemma code_digit_char: "d < 10 \<Longrightarrow> code (digit_char d) = 48 + d"
  by (simp add: code_def digit_char_def of_char_of take_bit_eq_mod)

lemma isdigit_digit_char [simp]: "d < 10 \<Longrightarrow> isdigit (digit_char d)"
  by (simp add: isdigit_def code_digit_char)

lemma digit_value_digit_char [simp]: "d < 10 \<Longrightarrow> digit_value (digit_char d) = int d"
  by (simp add: digit_value_def code_digit_char)

lemma isdigit_not_space: "isdigit c \<Longrightarrow> \<not> isspace c"
  by (auto simp: isdigit_def isspace_def code_def)

lemma isdigit_not_sign: "isdigit c \<Longrightarrow> c \<noteq> CHR ''-'' \<and> c \<noteq> CHR ''+''"
  by (auto simp: isdigit_def code_def)

lemma show_nat_digits: "\<forall>c \<in> set (show_nat n). isdigit c"
proof (induction n rule: show_nat.induct)
  case (1 n)
  then show ?case by (subst show_nat.simps) auto
qed

lemma show_nat_ne [simp]: "show_nat n \<noteq> []"
  by (subst show_nat.simps) simp

lemma read_digits_append:
  "\<forall>c \<in> set ds. isdigit c \<Longrightarrow> read_digits acc (ds @ r) = read_digits (fst (read_digits acc ds)) r"
  by (induction acc ds rule: read_digits.induct) auto

lemma read_digits_stop: "r = [] \<or> \<not> isdigit (hd r) \<Longrightarrow> read_digits acc r = (acc, r)"
  by (cases r) auto

lemma read_digits_show_nat:
  "read_digits 0 (show_nat n) = (int n, [])"
proof (induction n rule: show_nat.induct)
  case (1 n)
  show ?case
  proof (cases "n < 10")
    case True
    then show ?thesis by (simp add: show_nat.simps [of n])
  next
    case False
    with "1.IH" show ?thesis
      by (simp add: show_nat.simps [of n] read_digits_append show_nat_digits zdiv_int zmod_int)
  qed
qed

lemma length_show_nat: "n < 10 ^ Suc k \<Longrightarrow> length (show_nat n) \<le> Suc k"
proof (induction k arbitrary: n)
  case (Suc k)
  have "n div 10 < 10 ^ Suc k" using Suc.prems by (simp add: less_mult_imp_div_less)
  from Suc.IH [OF this] show ?case by (subst show_nat.simps) simp
qed (simp add: show_nat.simps)

lemma read_prefix_show_nat:
  "dropWhile isspace (show_nat n) = show_nat n"
  "read_sign (show_nat n) = (False, show_nat n)"
  "isdigit (hd (show_nat n))"
proof -
  obtain c s where cs: "show_nat n = c # s" by (cases "show_nat n") auto
  have c: "isdigit c" using show_nat_digits [of n] cs by simp
  then show "dropWhile isspace (show_nat n) = show_nat n"
    and "read_sign (show_nat n) = (False, show_nat n)" and "isdigit (hd (show_nat n))"
    using isdigit_not_sign [OF c] isdigit_not_space [OF c] by (simp_all add: cs read_sign_def)
qed

lemma strtoul10_show_nat: "int n \<le> ULONG_MAX \<Longrightarrow> strtoul10 (show_nat n) = (int n, [], False)"
  by (simp add: strtoul10_def read_prefix_show_nat read_digits_show_nat)

lemma strtoul10_show_nat_overflow:
  "ULONG_MAX < int n \<Longrightarrow> strtoul10 (show_nat n) = (ULONG_MAX, [], True)"
  by (simp add: strtoul10_def read_prefix_show_nat read_digits_show_nat)

lemma strtol10_show_nat: "int n \<le> LONG_MAX \<Longrightarrow> strtol10 (show_nat n) = (int n, [], False)"
  by (simp add: strtol10_def read_prefix_show_nat read_digits_show_nat LONG_MAX_def)

lemma digit_value_nonneg: "isdigit c \<Longrightarrow> 0 \<le> digit_value c"
  by (simp add: isdigit_def digit_value_def)

lemma read_digits_nonneg: "0 \<le> acc \<Longrightarrow> 0 \<le> fst (read_digits acc s)"
  by (induction acc s rule: read_digits.induct) (auto simp: digit_value_nonneg)

lemma strtoul10_nonneg: "strtoul10 s = (v, e, r) \<Longrightarrow> 0 \<le> v"
  using read_digits_nonneg [of 0 "snd (read_sign (dropWhile isspace s))"]
  by (auto simp: strtoul10_def ULONG_MAX_def Let_def split: prod.splits if_splits)

end
