(* ===== verification/Sockaddr.thy ===== *)
theory Sockaddr
  imports Prelude
begin

text \<open>
  Socket addresses as the bytes the program copies and compares. A \<^verbatim>\<open>struct
  sockaddr_storage\<close> is 128 bytes in the layout of 64-bit little-endian Linux: the family in
  host order at offset 0, the port in network order at offset 2, an IPv4 address at offset 4, an
  IPv6 address at offset 8. Big-endian 16-bit fields are shared by the address code, the PROXY
  header, the TLS parser and the raw packets.
\<close>

section \<open>Big-endian fields\<close>

definition be16 :: "16 word \<Rightarrow> byte list" where
  "be16 v = [ucast (drop_bit 8 v), ucast v]"

definition of_be16 :: "byte list \<Rightarrow> 16 word" where
  "of_be16 bs = push_bit 8 (ucast (bs ! 0)) + ucast (bs ! 1)"

lemma length_be16 [simp]: "length (be16 v) = 2"
  by (simp add: be16_def)

lemma unat_be16_hi: "unat (ucast (drop_bit 8 (v :: 16 word)) :: byte) = unat v div 256"
proof -
  have "unat v div 256 < 256" using unat_u16_less [of v] by linarith
  moreover have "unat (drop_bit 8 v) = unat v div 256"
    by (simp add: drop_bit_eq_div unat_div_distrib)
  ultimately show ?thesis
    by (simp only: unat_ucast_mod) simp
qed

lemma unat_be16_lo: "unat (ucast (v :: 16 word) :: byte) = unat v mod 256"
  by (simp add: unat_ucast_mod)

lemma unat_of_be16:
  "unat (of_be16 [a, b]) = 256 * unat a + unat b"
proof -
  have a: "unat a < 256" and b: "unat b < 256" by (rule unat_byte_less)+
  have "unat (push_bit 8 (ucast a :: 16 word)) = 256 * unat a"
    using a by (simp add: push_bit_eq_mult unat_word_ariths unat_ucast_mod)
  with a b show ?thesis
    by (simp add: of_be16_def unat_word_ariths unat_ucast_mod)
qed

lemma of_be16_be16 [simp, wire_simps]: "of_be16 (be16 v) = v"
proof -
  have "unat (of_be16 (be16 v)) = unat v"
    unfolding be16_def unat_of_be16 unat_be16_hi unfolding unat_be16_lo by simp
  then show ?thesis by (simp add: word_unat_eq_iff)
qed

lemma be16_of_be16: "be16 (of_be16 [a, b]) = [a, b]"
proof -
  have b: "unat b < 256" by (rule unat_byte_less)
  have "unat (ucast (drop_bit 8 (of_be16 [a, b])) :: byte) = unat a"
    unfolding unat_be16_hi unat_of_be16 using b by simp
  moreover have "unat (ucast (of_be16 [a, b]) :: byte) = unat b"
    unfolding unat_be16_lo unat_of_be16 using b by (simp add: mult.commute)
  ultimately show ?thesis by (simp add: be16_def word_unat_eq_iff)
qed

section \<open>Addresses\<close>

type_synonym sockaddr = "byte list"

definition AF_UNIX :: nat where "AF_UNIX = 1"
definition AF_INET :: nat where "AF_INET = 2"
definition AF_INET6 :: nat where "AF_INET6 = 10"

lemmas af_defs = AF_UNIX_def AF_INET_def AF_INET6_def

definition SIZEOF_SS :: nat where "SIZEOF_SS = 128"
definition SIZEOF_SIN :: nat where "SIZEOF_SIN = 16"
definition SIZEOF_SIN6 :: nat where "SIZEOF_SIN6 = 28"

definition SIZEOF_SUN :: nat where "SIZEOF_SUN = 110"
definition SIZEOF_SUN_PATH :: nat where "SIZEOF_SUN_PATH = 108"

lemmas sizeof_defs = SIZEOF_SS_def SIZEOF_SIN_def SIZEOF_SIN6_def

definition ss_family :: "sockaddr \<Rightarrow> nat" where
  "ss_family sa = unat (sa ! 0) + 256 * unat (sa ! 1)"

definition sin_port :: "sockaddr \<Rightarrow> byte list" where
  "sin_port sa = take 2 (drop 2 sa)"

definition sin_addr :: "sockaddr \<Rightarrow> byte list" where
  "sin_addr sa = take 4 (drop 4 sa)"

definition sin6_port :: "sockaddr \<Rightarrow> byte list" where
  "sin6_port sa = take 2 (drop 2 sa)"

definition sin6_addr :: "sockaddr \<Rightarrow> byte list" where
  "sin6_addr sa = take 16 (drop 8 sa)"

text \<open>\<^verbatim>\<open>memset(ss, 0, sizeof(*ss))\<close> followed by the assignments to the fields.\<close>

definition family_bytes :: "nat \<Rightarrow> byte list" where
  "family_bytes f = [word_of_nat f, 0]"

definition mk_sin :: "16 word \<Rightarrow> byte list \<Rightarrow> sockaddr" where
  "mk_sin port addr = family_bytes AF_INET @ be16 port @ addr @ replicate 120 0"

definition mk_sin6 :: "16 word \<Rightarrow> byte list \<Rightarrow> sockaddr" where
  "mk_sin6 port addr = family_bytes AF_INET6 @ be16 port @ replicate 4 0 @ addr @ replicate 104 0"

definition mk_sun :: "string \<Rightarrow> sockaddr" where
  "mk_sun path = family_bytes AF_UNIX @ map of_char path @ replicate (SIZEOF_SUN_PATH - length path) 0"

lemma mk_sin_fields [simp]:
  assumes "length addr = 4"
  shows "length (mk_sin port addr) = SIZEOF_SS" "ss_family (mk_sin port addr) = AF_INET"
    "sin_port (mk_sin port addr) = be16 port" "sin_addr (mk_sin port addr) = addr"
  using assms
  by (simp_all add: mk_sin_def family_bytes_def sizeof_defs ss_family_def af_defs
      sin_port_def sin_addr_def be16_def)

lemma mk_sin6_fields [simp]:
  assumes "length addr = 16"
  shows "length (mk_sin6 port addr) = SIZEOF_SS" "ss_family (mk_sin6 port addr) = AF_INET6"
    "sin6_port (mk_sin6 port addr) = be16 port" "sin6_addr (mk_sin6 port addr) = addr"
  using assms
  by (simp_all add: mk_sin6_def family_bytes_def sizeof_defs ss_family_def af_defs
      sin6_port_def sin6_addr_def be16_def)

lemma sin_field_lengths:
  "SIZEOF_SIN \<le> length sa \<Longrightarrow> length (sin_addr sa) = 4"
  "SIZEOF_SIN \<le> length sa \<Longrightarrow> length (sin_port sa) = 2"
  by (simp_all add: sin_addr_def sin_port_def sizeof_defs)

lemma sin6_field_lengths:
  "SIZEOF_SIN6 \<le> length sa \<Longrightarrow> length (sin6_addr sa) = 16"
  "SIZEOF_SIN6 \<le> length sa \<Longrightarrow> length (sin6_port sa) = 2"
  by (simp_all add: sin6_addr_def sin6_port_def sizeof_defs)

end
