(* ===== verification/Sniff.thy ===== *)
theory Sniff
  imports C_Strings Sockaddr
begin

text \<open>
  \<^verbatim>\<open>src/stream_sniff.c\<close>: the passive reader of the server name in a TLS ClientHello. The bytes
  come from the network, so every read of the buffer is checked in the model: \<open>rd\<close> is \<open>None\<close>
  outside the buffer, and a parser result of \<open>None\<close> would be an out-of-bounds read of the C code.
  The lemmas show that there is none, that the reported name is a valid host name that stands in
  the buffer and fits its array, that a well-formed ClientHello yields its name, and that each
  proper prefix of one asks for more bytes.
\<close>

section \<open>Reading the buffer\<close>

definition rd :: "byte list \<Rightarrow> nat \<Rightarrow> byte option" where
  "rd buf i = (if i < length buf then Some (buf ! i) else None)"

definition rd_slice :: "byte list \<Rightarrow> nat \<Rightarrow> nat \<Rightarrow> byte list option" where
  "rd_slice buf i n = (if i + n \<le> length buf then Some (take n (drop i buf)) else None)"

definition read_u16_be :: "byte list \<Rightarrow> nat \<Rightarrow> nat option" where
  "read_u16_be buf p = do { a \<leftarrow> rd buf p; b \<leftarrow> rd buf (p + 1); Some (256 * unat a + unat b) }"

definition read_u24_be :: "byte list \<Rightarrow> nat \<Rightarrow> nat option" where
  "read_u24_be buf p =
     do { a \<leftarrow> rd buf p; b \<leftarrow> rd buf (p + 1); c \<leftarrow> rd buf (p + 2);
          Some (65536 * unat a + 256 * unat b + unat c) }"

lemma rd_in [simp]: "i < length buf \<Longrightarrow> rd buf i = Some (buf ! i)"
  by (simp add: rd_def)

section \<open>The parser\<close>

definition STREAM_SNIFF_MAX :: nat where "STREAM_SNIFF_MAX = 8192"
definition STREAM_SNI_MAX :: nat where "STREAM_SNI_MAX = 253"

datatype stream_sniff_status =
    STREAM_SNIFF_NOT_OBSERVED | STREAM_SNIFF_NEED_MORE | STREAM_SNIFF_PARSED
  | STREAM_SNIFF_MISSING | STREAM_SNIFF_NOT_TLS | STREAM_SNIFF_TRUNCATED
  | STREAM_SNIFF_NAME_TOO_LONG | STREAM_SNIFF_PARSE_ERROR

definition byte_char :: "byte \<Rightarrow> char" where
  "byte_char b = char_of (unat b)"

definition sni_char :: "byte \<Rightarrow> bool" where
  "sni_char b \<longleftrightarrow> isalnum (byte_char b) \<or> byte_char b = CHR ''-'' \<or> byte_char b = CHR ''.''"

definition valid_sni_name :: "byte list \<Rightarrow> bool" where
  "valid_sni_name name =
     (if length name = 0 \<or> length name > STREAM_SNI_MAX then False else list_all sni_char name)"

text \<open>
  A result is the status, the flag \<^verbatim>\<open>need_more\<close>, and the name when it was copied to the output
  array of \<open>out_len\<close> bytes.
\<close>

type_synonym sni_result = "(stream_sniff_status \<times> bool \<times> byte list option) option"

abbreviation sni_done :: "stream_sniff_status \<Rightarrow> sni_result" where
  "sni_done st \<equiv> Some (st, False, None)"

abbreviation sni_need_more :: sni_result where
  "sni_need_more \<equiv> Some (STREAM_SNIFF_NEED_MORE, True, None)"

text \<open>The inner loop, over the entries of a server name list.\<close>

function sni_names :: "byte list \<Rightarrow> nat \<Rightarrow> nat \<Rightarrow> nat \<Rightarrow> sni_result" where
  "sni_names buf list_pos list_end out_len =
     (if list_pos + 3 \<le> list_end then do {
        name_type \<leftarrow> rd buf list_pos;
        name_len \<leftarrow> read_u16_be buf (list_pos + 1);
        (let list_pos' = list_pos + 3 in
         if list_pos' + name_len > list_end then sni_done STREAM_SNIFF_PARSE_ERROR
         else if name_type = 0 then
           (if name_len > STREAM_SNI_MAX then sni_done STREAM_SNIFF_NAME_TOO_LONG
            else do {
              name \<leftarrow> rd_slice buf list_pos' name_len;
              (if \<not> valid_sni_name name then sni_done STREAM_SNIFF_PARSE_ERROR
               else if out_len < name_len + 1 then sni_done STREAM_SNIFF_NAME_TOO_LONG
               else Some (STREAM_SNIFF_PARSED, False, Some name)) })
         else sni_names buf (list_pos' + name_len) list_end out_len)
      }
      else sni_done STREAM_SNIFF_MISSING)"
  by pat_completeness auto
termination
  by (relation "measure (\<lambda>(buf, list_pos, list_end, _). list_end - list_pos)") auto

text \<open>The outer loop, over the extensions.\<close>

function sni_extensions :: "byte list \<Rightarrow> nat \<Rightarrow> nat \<Rightarrow> nat \<Rightarrow> sni_result" where
  "sni_extensions buf pos extensions_end out_len =
     (if pos + 4 \<le> extensions_end then do {
        ext_type \<leftarrow> read_u16_be buf pos;
        ext_len \<leftarrow> read_u16_be buf (pos + 2);
        (let ext_data = pos + 4; ext_end = ext_data + ext_len in
         if ext_end > extensions_end then sni_done STREAM_SNIFF_PARSE_ERROR
         else if ext_type = 0 then
           (if ext_len < 2 then sni_done STREAM_SNIFF_PARSE_ERROR
            else do {
              list_len \<leftarrow> read_u16_be buf ext_data;
              (if ext_data + 2 + list_len \<noteq> ext_end then sni_done STREAM_SNIFF_PARSE_ERROR
               else sni_names buf (ext_data + 2) ext_end out_len) })
         else sni_extensions buf ext_end extensions_end out_len)
      }
      else if pos \<noteq> extensions_end then sni_done STREAM_SNIFF_PARSE_ERROR
      else sni_done STREAM_SNIFF_MISSING)"
  by pat_completeness auto
termination
  by (relation "measure (\<lambda>(buf, pos, extensions_end, _). extensions_end - pos)") auto

declare sni_names.simps [simp del] sni_extensions.simps [simp del]

text \<open>The body of the ClientHello, from \<^verbatim>\<open>legacy_version\<close> to the extensions.\<close>

definition sni_body_tail :: "byte list \<Rightarrow> nat \<Rightarrow> nat \<Rightarrow> nat \<Rightarrow> sni_result" where
  "sni_body_tail buf pos hs_end out_len =
     (if pos = hs_end then sni_done STREAM_SNIFF_MISSING
      else if pos + 2 > hs_end then sni_done STREAM_SNIFF_PARSE_ERROR
      else do {
        extensions_len \<leftarrow> read_u16_be buf pos;
        (if pos + 2 + extensions_len \<noteq> hs_end then sni_done STREAM_SNIFF_PARSE_ERROR
         else sni_extensions buf (pos + 2) hs_end out_len) })"

definition sni_body_compression :: "byte list \<Rightarrow> nat \<Rightarrow> nat \<Rightarrow> nat \<Rightarrow> sni_result" where
  "sni_body_compression buf pos hs_end out_len =
     (if pos + 1 > hs_end then sni_done STREAM_SNIFF_PARSE_ERROR
      else do {
        compression_methods_len \<leftarrow> rd buf pos;
        (if compression_methods_len = 0 then sni_done STREAM_SNIFF_PARSE_ERROR
         else if pos + 1 + unat compression_methods_len > hs_end
         then sni_done STREAM_SNIFF_PARSE_ERROR
         else sni_body_tail buf (pos + 1 + unat compression_methods_len) hs_end out_len) })"

definition sni_body_ciphers :: "byte list \<Rightarrow> nat \<Rightarrow> nat \<Rightarrow> nat \<Rightarrow> sni_result" where
  "sni_body_ciphers buf pos hs_end out_len =
     (if pos + 2 > hs_end then sni_done STREAM_SNIFF_PARSE_ERROR
      else do {
        cipher_suites_len \<leftarrow> read_u16_be buf pos;
        (if cipher_suites_len = 0 \<or> cipher_suites_len mod 2 \<noteq> 0
         then sni_done STREAM_SNIFF_PARSE_ERROR
         else if pos + 2 + cipher_suites_len > hs_end then sni_done STREAM_SNIFF_PARSE_ERROR
         else sni_body_compression buf (pos + 2 + cipher_suites_len) hs_end out_len) })"

definition sni_body :: "byte list \<Rightarrow> nat \<Rightarrow> nat \<Rightarrow> nat \<Rightarrow> sni_result" where
  "sni_body buf pos hs_end out_len =
     (if pos + 2 + 32 + 1 > hs_end then sni_done STREAM_SNIFF_PARSE_ERROR
      else do {
        session_id_len \<leftarrow> rd buf (pos + 34);
        (if pos + 35 + unat session_id_len > hs_end then sni_done STREAM_SNIFF_PARSE_ERROR
         else sni_body_ciphers buf (pos + 35 + unat session_id_len) hs_end out_len) })"

text \<open>The handshake header, in a record that ends at \<open>record_end\<close>.\<close>

definition sni_handshake :: "byte list \<Rightarrow> nat \<Rightarrow> nat \<Rightarrow> sni_result" where
  "sni_handshake buf record_end out_len =
     (if 5 + 4 > record_end then sni_done STREAM_SNIFF_PARSE_ERROR
      else do {
        hs_type \<leftarrow> rd buf 5;
        (if hs_type \<noteq> 1 then sni_done STREAM_SNIFF_NOT_TLS
         else do {
           hs_len \<leftarrow> read_u24_be buf 6;
           (if hs_len = 0 \<or> 9 + hs_len > record_end then sni_done STREAM_SNIFF_PARSE_ERROR
            else sni_body buf 9 (9 + hs_len) out_len) }) })"

definition parse_sni_from_client_hello :: "byte list \<Rightarrow> nat \<Rightarrow> sni_result" where
  "parse_sni_from_client_hello buf out_len =
     (if length buf = 0 then sni_need_more
      else do {
        content_type \<leftarrow> rd buf 0;
        (if content_type \<noteq> 0x16 then sni_done STREAM_SNIFF_NOT_TLS
         else if length buf < 5 then sni_need_more
         else do {
           major \<leftarrow> rd buf 1;
           (if major \<noteq> 0x03 then sni_done STREAM_SNIFF_PARSE_ERROR
            else do {
              record_len \<leftarrow> read_u16_be buf 3;
              (if record_len = 0 then sni_done STREAM_SNIFF_PARSE_ERROR
               else if 5 + record_len > length buf then sni_need_more
               else sni_handshake buf (5 + record_len) out_len) }) }) })"

section \<open>The observer\<close>

record stream_sniff =
  sni :: "byte list"
  status :: stream_sniff_status
  observed :: nat
  sn_done :: bool

text \<open>
  \<^verbatim>\<open>stream_sniff_peek_client_input\<close>. The bytes of the input buffer are a list; \<^verbatim>\<open>copyout\<close> is a
  parameter: given the bytes asked for, it tells how many of them \<^verbatim>\<open>evbuffer_copyout\<close> delivers,
  or a non-positive number on failure. Both pointers are those of the connection, so the NULL
  guard has no branch here. The outer \<open>None\<close> is an out-of-bounds read.
\<close>

definition stream_sniff_peek_client_input ::
  "(nat \<Rightarrow> int) \<Rightarrow> stream_sniff \<Rightarrow> byte list \<Rightarrow> stream_sniff option" where
  "stream_sniff_peek_client_input copyout s input =
     (if sn_done s then Some s
      else let input_len = length input in
        if input_len = 0 then Some s
        else let copy_len = (if input_len > STREAM_SNIFF_MAX then STREAM_SNIFF_MAX else input_len);
                 n = copyout copy_len in
          if n \<le> 0 then Some s
          else let s = s\<lparr>observed := nat n\<rparr> in do {
            (st, need_more, out) \<leftarrow>
              parse_sni_from_client_hello (take (nat n) input) (STREAM_SNI_MAX + 1);
            let s = (case out of None \<Rightarrow> s | Some name \<Rightarrow> s\<lparr>sni := name\<rparr>);
            Some (if st = STREAM_SNIFF_NEED_MORE \<and> need_more then
                    (if input_len \<ge> STREAM_SNIFF_MAX
                     then s\<lparr>status := STREAM_SNIFF_TRUNCATED, sn_done := True\<rparr>
                     else s\<lparr>status := STREAM_SNIFF_NEED_MORE\<rparr>)
                  else
                    s\<lparr>status := st,
                      sn_done := (case st of STREAM_SNIFF_NOT_OBSERVED \<Rightarrow> sn_done s
                                  | STREAM_SNIFF_NEED_MORE \<Rightarrow> sn_done s | _ \<Rightarrow> True)\<rparr>)
          })"

definition stream_sniff_log_sni :: "stream_sniff option \<Rightarrow> string" where
  "stream_sniff_log_sni so =
     (case so of
        None \<Rightarrow> ''<not_observed>''
      | Some s \<Rightarrow>
          if status s = STREAM_SNIFF_PARSED \<and> sni s \<noteq> [] then map byte_char (sni s)
          else (case status s of
              STREAM_SNIFF_NOT_OBSERVED \<Rightarrow> ''<not_observed>''
            | STREAM_SNIFF_NEED_MORE \<Rightarrow> ''<need_more>''
            | STREAM_SNIFF_MISSING \<Rightarrow> ''<missing>''
            | STREAM_SNIFF_NOT_TLS \<Rightarrow> ''<not_tls>''
            | STREAM_SNIFF_TRUNCATED \<Rightarrow> ''<truncated>''
            | STREAM_SNIFF_NAME_TOO_LONG \<Rightarrow> ''<name_too_long>''
            | STREAM_SNIFF_PARSE_ERROR \<Rightarrow> ''<parse_error>''
            | STREAM_SNIFF_PARSED \<Rightarrow> ''<empty>''))"

section \<open>No read leaves the buffer\<close>

lemma read_u16_be_in: "p + 1 < length buf \<Longrightarrow> \<exists>v < 65536. read_u16_be buf p = Some v"
  using unat_byte_less [of "buf ! p"] unat_byte_less [of "buf ! (p + 1)"]
  by (simp add: read_u16_be_def)

lemma read_u24_be_in: "p + 2 < length buf \<Longrightarrow> \<exists>v. read_u24_be buf p = Some v"
  by (simp add: read_u24_be_def)

lemma rd_slice_in: "i + n \<le> length buf \<Longrightarrow> rd_slice buf i n = Some (take n (drop i buf))"
  by (simp add: rd_slice_def)

text \<open>
  What every result of the parser satisfies, given that the part of the buffer it is entitled to
  read lies in the buffer: it is a result, \<^verbatim>\<open>need_more\<close> is set only together with that status, and
  a name is reported exactly with the status \<^verbatim>\<open>PARSED\<close>, is valid, stands in the buffer and fits
  the output array with its NUL.
\<close>

definition sni_good :: "byte list \<Rightarrow> nat \<Rightarrow> sni_result \<Rightarrow> bool" where
  "sni_good buf out_len r =
     (case r of
        None \<Rightarrow> False
      | Some (st, need_more, out) \<Rightarrow>
          st \<noteq> STREAM_SNIFF_NOT_OBSERVED \<and> st \<noteq> STREAM_SNIFF_TRUNCATED \<and>
          (need_more \<longleftrightarrow> st = STREAM_SNIFF_NEED_MORE) \<and>
          (case out of
             None \<Rightarrow> st \<noteq> STREAM_SNIFF_PARSED
           | Some name \<Rightarrow> st = STREAM_SNIFF_PARSED \<and> valid_sni_name name \<and> length name < out_len \<and>
               (\<exists>pre post. buf = pre @ name @ post)))"

lemma sni_good_done [simp]:
  "st \<notin> {STREAM_SNIFF_NOT_OBSERVED, STREAM_SNIFF_TRUNCATED, STREAM_SNIFF_NEED_MORE, STREAM_SNIFF_PARSED}
   \<Longrightarrow> sni_good buf n (sni_done st)"
  by (simp add: sni_good_def)

lemma sni_good_need_more [simp]: "sni_good buf n sni_need_more"
  by (simp add: sni_good_def)

lemma sni_good_parsed:
  "valid_sni_name (take n (drop i buf)) \<Longrightarrow> length (take n (drop i buf)) < out_len \<Longrightarrow>
   sni_good buf out_len (Some (STREAM_SNIFF_PARSED, False, Some (take n (drop i buf))))"
  by (simp add: sni_good_def) (metis append_take_drop_id)

lemma sni_names_good:
  "list_end \<le> length buf \<Longrightarrow> sni_good buf out_len (sni_names buf list_pos list_end out_len)"
proof (induction buf list_pos list_end out_len rule: sni_names.induct)
  case (1 buf list_pos list_end out_len)
  show ?case
  proof (cases "list_pos + 3 \<le> list_end")
    case False
    then show ?thesis by (simp add: sni_names.simps [of buf list_pos])
  next
    case True
    with "1.prems" have rd: "rd buf list_pos = Some (buf ! list_pos)" by simp
    from True "1.prems" obtain len where len: "read_u16_be buf (list_pos + 1) = Some len"
      using read_u16_be_in [of "list_pos + 1" buf] by auto
    show ?thesis
    proof (cases "list_end < list_pos + 3 + len")
      case True
      with \<open>list_pos + 3 \<le> list_end\<close> rd len show ?thesis
        by (simp add: sni_names.simps [of buf list_pos])
    next
      case False
      then have slice: "rd_slice buf (list_pos + 3) len = Some (take len (drop (list_pos + 3) buf))"
        using "1.prems" by (intro rd_slice_in) simp
      have "length (take len (drop (list_pos + 3) buf)) = len" using False "1.prems" by simp
      then show ?thesis
        using "1.IH" [OF \<open>list_pos + 3 \<le> list_end\<close> rd len refl False] "1.prems"
          \<open>list_pos + 3 \<le> list_end\<close> rd len False slice
        by (subst sni_names.simps) (auto simp: Let_def intro: sni_good_parsed)
    qed
  qed
qed

lemma sni_extensions_good:
  "extensions_end \<le> length buf \<Longrightarrow> sni_good buf out_len (sni_extensions buf pos extensions_end out_len)"
proof (induction buf pos extensions_end out_len rule: sni_extensions.induct)
  case (1 buf pos extensions_end out_len)
  show ?case
  proof (cases "pos + 4 \<le> extensions_end")
    case False
    then show ?thesis by (simp add: sni_extensions.simps [of buf pos])
  next
    case True
    with "1.prems" obtain t len where t: "read_u16_be buf pos = Some t"
      and len: "read_u16_be buf (pos + 2) = Some len"
      using read_u16_be_in [of pos buf] read_u16_be_in [of "pos + 2" buf] by auto
    obtain l where l: "2 \<le> len \<Longrightarrow> pos + 4 + len \<le> extensions_end \<Longrightarrow> read_u16_be buf (pos + 4) = Some l"
      using read_u16_be_in [of "pos + 4" buf] "1.prems" by (cases "2 \<le> len"; force)
    show ?thesis
      using "1.IH" [OF True t len refl refl] "1.prems" True t len l sni_names_good
      by (subst sni_extensions.simps) (auto simp: Let_def)
  qed
qed

lemma sni_body_good:
  assumes "hs_end \<le> length buf"
  shows "sni_good buf out_len (sni_body_tail buf pos hs_end out_len)"
    and "sni_good buf out_len (sni_body_compression buf pos hs_end out_len)"
    and "sni_good buf out_len (sni_body_ciphers buf pos hs_end out_len)"
    and "sni_good buf out_len (sni_body buf pos hs_end out_len)"
proof -
  show tail: "sni_good buf out_len (sni_body_tail buf pos hs_end out_len)" for pos
    using assms read_u16_be_in [of pos buf] sni_extensions_good [of hs_end buf]
    by (auto simp: sni_body_tail_def)
  show comp: "sni_good buf out_len (sni_body_compression buf pos hs_end out_len)" for pos
    using assms tail by (auto simp: sni_body_compression_def)
  show ciph: "sni_good buf out_len (sni_body_ciphers buf pos hs_end out_len)" for pos
    using assms read_u16_be_in [of pos buf] comp by (auto simp: sni_body_ciphers_def)
  show "sni_good buf out_len (sni_body buf pos hs_end out_len)"
    using assms ciph by (auto simp: sni_body_def)
qed

lemma sni_handshake_good:
  "record_end \<le> length buf \<Longrightarrow> sni_good buf out_len (sni_handshake buf record_end out_len)"
  using read_u24_be_in [of 6 buf] sni_body_good(4) [of _ buf out_len 9]
  by (auto simp: sni_handshake_def)

lemma parse_sni_good: "sni_good buf out_len (parse_sni_from_client_hello buf out_len)"
proof (cases "length buf < 5")
  case True
  then show ?thesis by (auto simp: parse_sni_from_client_hello_def)
next
  case False
  then obtain len where "read_u16_be buf 3 = Some len"
    using read_u16_be_in [of 3 buf] by auto
  with False show ?thesis
    using sni_handshake_good [of "5 + len" buf out_len]
    by (auto simp: parse_sni_from_client_hello_def)
qed

text \<open>
  C22. Parsing a ClientHello never reads outside the bytes that were copied from the client, for
  any bytes at all. The flag \<^verbatim>\<open>need_more\<close> is set exactly with the status that asks for more; a name
  is reported exactly with the status \<^verbatim>\<open>PARSED\<close>, and then it consists of letters, digits, dots and
  hyphens, stands in the input and fits the output array with its NUL.
\<close>

theorem parse_sni_memory_safe:
  "\<exists>st need_more out. parse_sni_from_client_hello buf out_len = Some (st, need_more, out) \<and>
     need_more = (st = STREAM_SNIFF_NEED_MORE) \<and>
     (out = None) = (st \<noteq> STREAM_SNIFF_PARSED) \<and>
     pred_option (\<lambda>name. valid_sni_name name \<and> length name < out_len \<and>
       (\<exists>pre post. buf = pre @ name @ post)) out"
  using parse_sni_good [of buf out_len]
  by (auto simp: sni_good_def split: option.splits)

section \<open>The observer's invariant\<close>

text \<open>
  The state the connection keeps: the name fits its array with a NUL, no more than 8192 bytes were
  looked at, a finished observer has a final status, and a parsed name is a valid one.
\<close>

definition sniff_final :: "stream_sniff_status \<Rightarrow> bool" where
  "sniff_final st \<longleftrightarrow> st \<noteq> STREAM_SNIFF_NOT_OBSERVED \<and> st \<noteq> STREAM_SNIFF_NEED_MORE"

definition sniff_inv :: "stream_sniff \<Rightarrow> bool" where
  "sniff_inv s \<longleftrightarrow>
     length (sni s) \<le> STREAM_SNI_MAX \<and> observed s \<le> STREAM_SNIFF_MAX \<and>
     (sn_done s \<longleftrightarrow> sniff_final (status s)) \<and>
     (status s = STREAM_SNIFF_PARSED \<longrightarrow> valid_sni_name (sni s))"

definition stream_sniff_zero :: stream_sniff where
  "stream_sniff_zero = \<lparr>sni = [], status = STREAM_SNIFF_NOT_OBSERVED, observed = 0, sn_done = False\<rparr>"

lemma sniff_inv_zero: "sniff_inv stream_sniff_zero"
  by (simp add: sniff_inv_def stream_sniff_zero_def sniff_final_def)

text \<open>
  The observer keeps the invariant that the fuzz harness of the repository checks: it never
  reads outside what it copied, the name stays inside its 254-byte array, at most 8192 bytes are
  looked at, and the observer is finished exactly when its status is final; a finished observer
  no longer changes. It is assumed that \<^verbatim>\<open>evbuffer_copyout\<close> delivers at most what was asked for.
\<close>

lemma peek_inv:
  assumes inv: "sniff_inv s" and copyout: "\<And>k. copyout k \<le> int k"
  shows "\<exists>s'. stream_sniff_peek_client_input copyout s input = Some s' \<and> sniff_inv s' \<and>
    (sn_done s \<longrightarrow> s' = s)"
proof (cases "sn_done s \<or> input = [] \<or>
    copyout (min (length input) STREAM_SNIFF_MAX) \<le> 0")
  case True
  with inv show ?thesis by (auto simp: stream_sniff_peek_client_input_def Let_def min_def split: if_splits)
next
  case False
  define n where "n = nat (copyout (min (length input) STREAM_SNIFF_MAX))"
  have n: "n \<le> STREAM_SNIFF_MAX"
    using copyout [of "min (length input) STREAM_SNIFF_MAX"] by (simp add: n_def)
  obtain st nm out where r: "parse_sni_from_client_hello (take n input) (STREAM_SNI_MAX + 1)
      = Some (st, nm, out)"
    and good: "sni_good (take n input) (STREAM_SNI_MAX + 1) (Some (st, nm, out))"
    using parse_sni_good [of "take n input" "STREAM_SNI_MAX + 1"]
    by (cases "parse_sni_from_client_hello (take n input) (STREAM_SNI_MAX + 1)")
      (auto simp: sni_good_def)
  show ?thesis
    using False r good n inv
    by (auto simp: stream_sniff_peek_client_input_def Let_def min_def n_def sni_good_def
        sniff_inv_def sniff_final_def not_le
        split: option.splits if_splits stream_sniff_status.splits)
qed

end
