(* ===== verification/Client_Hello.thy ===== *)
theory Client_Hello
  imports Sniff
begin

text \<open>
  A reference encoder of the TLS ClientHello record and the parser of \<^verbatim>\<open>src/stream_sniff.c\<close>
  against it: the parser finds the name of every well-formed single-record ClientHello, wherever
  the server name extension stands among the others, and asks for more on every proper prefix.
\<close>

section \<open>The encoder\<close>

definition enc16 :: "nat \<Rightarrow> byte list" where
  "enc16 n = [word_of_nat (n div 256), word_of_nat (n mod 256)]"

definition enc24 :: "nat \<Rightarrow> byte list" where
  "enc24 n = [word_of_nat (n div 65536), word_of_nat (n div 256 mod 256), word_of_nat (n mod 256)]"

type_synonym extension = "nat \<times> byte list"

definition enc_ext :: "extension \<Rightarrow> byte list" where
  "enc_ext e = enc16 (fst e) @ enc16 (length (snd e)) @ snd e"

definition enc_exts :: "extension list \<Rightarrow> byte list" where
  "enc_exts es = concat (map enc_ext es)"

definition sni_ext :: "byte list \<Rightarrow> extension" where
  "sni_ext name = (0, enc16 (length name + 3) @ [0] @ enc16 (length name) @ name)"

record client_hello =
  ch_record_minor :: byte
  ch_version :: "byte list"
  ch_random :: "byte list"
  ch_session :: "byte list"
  ch_ciphers :: "byte list"
  ch_compression :: "byte list"
  ch_before :: "extension list"
  ch_name :: "byte list"
  ch_after :: "extension list"

definition hello_exts :: "client_hello \<Rightarrow> byte list" where
  "hello_exts ch = enc_exts (ch_before ch) @ enc_ext (sni_ext (ch_name ch)) @ enc_exts (ch_after ch)"

definition hello_body :: "client_hello \<Rightarrow> byte list" where
  "hello_body ch =
     ch_version ch @ ch_random ch @ [word_of_nat (length (ch_session ch))] @ ch_session ch @
     enc16 (length (ch_ciphers ch)) @ ch_ciphers ch @
     [word_of_nat (length (ch_compression ch))] @ ch_compression ch @
     enc16 (length (hello_exts ch)) @ hello_exts ch"

definition hello_handshake :: "client_hello \<Rightarrow> byte list" where
  "hello_handshake ch = [1] @ enc24 (length (hello_body ch)) @ hello_body ch"

definition hello_record :: "client_hello \<Rightarrow> byte list" where
  "hello_record ch =
     [0x16, 0x03, ch_record_minor ch] @ enc16 (length (hello_handshake ch)) @ hello_handshake ch"

text \<open>What the TLS specification asks of the fields, and a name the program accepts.\<close>

definition hello_wf :: "client_hello \<Rightarrow> bool" where
  "hello_wf ch \<longleftrightarrow>
     length (ch_version ch) = 2 \<and> length (ch_random ch) = 32 \<and> length (ch_session ch) < 256 \<and>
     0 < length (ch_ciphers ch) \<and> even (length (ch_ciphers ch)) \<and>
     0 < length (ch_compression ch) \<and> length (ch_compression ch) < 256 \<and>
     list_all (\<lambda>(t, d). 0 < t \<and> t < 65536 \<and> length d < 65536) (ch_before ch) \<and>
     valid_sni_name (ch_name ch) \<and> length (hello_handshake ch) < 65536"

section \<open>Reading what was encoded\<close>

lemma length_enc [simp]: "length (enc16 n) = 2" "length (enc24 n) = 3"
  by (simp_all add: enc16_def enc24_def)

lemma length_enc_ext [simp]:
  "length (enc_ext (t, d)) = length d + 4" "length (enc_ext (sni_ext name)) = length name + 9"
  by (simp_all add: enc_ext_def sni_ext_def)

lemma unat_word_of_nat_byte: "n < 256 \<Longrightarrow> unat (word_of_nat n :: byte) = n"
  by (simp add: unat_of_nat)

lemma read_u16_enc16 [simp]:
  "n < 65536 \<Longrightarrow> read_u16_be (pre @ enc16 n @ post) (length pre) = Some n"
  by (simp add: read_u16_be_def enc16_def nth_append unat_word_of_nat_byte)

lemma read_u16_at:
  assumes "buf = pre @ enc16 n @ post" and "p = length pre" and "n < 65536"
  shows "read_u16_be buf p = Some n"
  using assms by simp

lemma read_u24_at:
  assumes "buf = pre @ enc24 n @ post" and "p = length pre" and "n < 16777216"
  shows "read_u24_be buf p = Some n"
proof -
  define m where "m = n div 256"
  have m: "256 * m + n mod 256 = n" "n div 65536 = m div 256"
    by (simp_all add: m_def flip: div_mult2_eq)
  have m3: "65536 * (m div 256) + 256 * (m mod 256) = 256 * m"
    using div_mult_mod_eq [of m 256] by linarith
  have "m div 256 < 256" using assms(3) unfolding m(2) [symmetric] by simp
  then have "65536 * unat (word_of_nat (n div 65536) :: byte) +
      256 * unat (word_of_nat (n div 256 mod 256) :: byte) + unat (word_of_nat (n mod 256) :: byte) = n"
    unfolding m(2) m_def [symmetric] using m(1) m3 by (simp add: unat_word_of_nat_byte)
  then show ?thesis
    by (simp add: assms(1,2) read_u24_be_def enc24_def nth_append)
qed

lemma rd_at:
  assumes "buf = pre @ [b] @ post" and "p = length pre"
  shows "rd buf p = Some b"
  using assms by simp

lemma rd_slice_at:
  assumes "buf = pre @ xs @ post" and "p = length pre" and "n = length xs"
  shows "rd_slice buf p n = Some xs"
  using assms by (simp add: rd_slice_def)

section \<open>The extensions\<close>

lemma valid_name_length: "valid_sni_name name \<Longrightarrow> 0 < length name \<and> length name \<le> 253"
  by (auto simp: valid_sni_name_def STREAM_SNI_MAX_def split: if_splits)

lemma sni_names_first:
  assumes buf: "buf = pre @ [0] @ enc16 (length name) @ name @ post"
    and valid: "valid_sni_name name" and out: "length name < out_len"
  shows "sni_names buf (length pre) (length pre + 3 + length name) out_len =
    Some (STREAM_SNIFF_PARSED, False, Some name)"
proof -
  have "rd buf (length pre) = Some 0" by (rule rd_at [OF buf refl])
  moreover have "read_u16_be buf (length pre + 1) = Some (length name)"
    using valid_name_length [OF valid]
    by (intro read_u16_at [where pre = "pre @ [0]" and post = "name @ post"]) (simp_all add: buf)
  moreover have "rd_slice buf (length pre + 3) (length name) = Some name"
    by (rule rd_slice_at [where pre = "pre @ [0] @ enc16 (length name)" and post = post])
      (simp_all add: buf)
  ultimately show ?thesis
    using valid out valid_name_length [OF valid]
    by (subst sni_names.simps) (simp add: Let_def STREAM_SNI_MAX_def)
qed

lemma sni_extensions_found:
  assumes buf: "buf = pre @ enc_ext (sni_ext name) @ post"
    and valid: "valid_sni_name name" and out: "length name < out_len"
    and e: "length pre + length (enc_ext (sni_ext name)) \<le> e"
  shows "sni_extensions buf (length pre) e out_len = Some (STREAM_SNIFF_PARSED, False, Some name)"
proof -
  note len = valid_name_length [OF valid]
  let ?n = "length name"
  have buf': "buf = pre @ enc16 0 @ enc16 (?n + 5) @ enc16 (?n + 3) @ [0] @ enc16 ?n @ name @ post"
    by (simp add: buf enc_ext_def sni_ext_def eval_nat_numeral)
  have "read_u16_be buf (length pre) = Some 0"
    by (rule read_u16_at [OF buf' refl]) simp
  moreover have "read_u16_be buf (length pre + 2) = Some (?n + 5)"
    using len by (intro read_u16_at [where pre = "pre @ enc16 0"
          and post = "enc16 (?n + 3) @ [0] @ enc16 ?n @ name @ post"]) (simp_all add: buf')
  moreover have "read_u16_be buf (length pre + 4) = Some (?n + 3)"
    using len by (intro read_u16_at [where pre = "pre @ enc16 0 @ enc16 (?n + 5)"
          and post = "[0] @ enc16 ?n @ name @ post"]) (simp_all add: buf')
  moreover have "sni_names buf (length pre + 6) (length pre + 9 + ?n) out_len =
      Some (STREAM_SNIFF_PARSED, False, Some name)"
    using sni_names_first [of buf "pre @ enc16 0 @ enc16 (?n + 5) @ enc16 (?n + 3)" name post out_len]
      valid out by (simp add: buf' add.assoc)
  ultimately show ?thesis
    using e by (subst sni_extensions.simps) (simp add: Let_def add_ac)
qed

lemma sni_extensions_skip:
  assumes buf: "buf = pre @ enc_ext (t, d) @ post"
    and t: "0 < t" "t < 65536" and d: "length d < 65536"
    and e: "length pre + length (enc_ext (t, d)) \<le> e"
  shows "sni_extensions buf (length pre) e out_len =
    sni_extensions buf (length (pre @ enc_ext (t, d))) e out_len"
proof -
  have "read_u16_be buf (length pre) = Some t"
    using t by (intro read_u16_at [where pre = pre and post = "enc16 (length d) @ d @ post"])
      (simp_all add: buf enc_ext_def)
  moreover have "read_u16_be buf (length pre + 2) = Some (length d)"
    using d by (intro read_u16_at [where pre = "pre @ enc16 t" and post = "d @ post"])
      (simp_all add: buf enc_ext_def)
  ultimately show ?thesis
    using e t by (subst sni_extensions.simps) (simp add: Let_def add_ac)
qed

lemma sni_extensions_hello:
  assumes "list_all (\<lambda>(t, d). 0 < t \<and> t < 65536 \<and> length d < 65536) before"
    and "buf = pre @ enc_exts before @ enc_ext (sni_ext name) @ post"
    and "valid_sni_name name" and "length name < out_len"
    and "length pre + length (enc_exts before @ enc_ext (sni_ext name)) \<le> e"
  shows "sni_extensions buf (length pre) e out_len = Some (STREAM_SNIFF_PARSED, False, Some name)"
  using assms
proof (induction before arbitrary: pre)
  case Nil
  then show ?case by (intro sni_extensions_found) (simp_all add: enc_exts_def)
next
  case (Cons ext es)
  obtain t d where ext: "ext = (t, d)" by (cases ext)
  have "sni_extensions buf (length pre) e out_len =
      sni_extensions buf (length (pre @ enc_ext (t, d))) e out_len"
    using Cons.prems ext by (intro sni_extensions_skip) (auto simp: enc_exts_def)
  also have "\<dots> = Some (STREAM_SNIFF_PARSED, False, Some name)"
    using Cons.prems ext by (intro Cons.IH) (auto simp: enc_exts_def)
  finally show ?case .
qed

section \<open>The whole record\<close>

lemma sni_body_tail_at:
  assumes "buf = pre @ enc16 n @ exts @ post" and "n = length exts" and "0 < n" and "n < 65536"
  shows "sni_body_tail buf (length pre) (length pre + 2 + n) out_len =
    sni_extensions buf (length (pre @ enc16 n)) (length pre + 2 + n) out_len"
  using read_u16_at [OF assms(1) refl] assms(3,4) by (simp add: sni_body_tail_def)

lemma sni_body_compression_at:
  assumes "buf = pre @ [word_of_nat (length c)] @ c @ post" and "0 < length c" and "length c < 256"
    and "length pre + 1 + length c \<le> hs_end"
  shows "sni_body_compression buf (length pre) hs_end out_len =
    sni_body_tail buf (length (pre @ [word_of_nat (length c)] @ c)) hs_end out_len"
proof -
  have "unat (word_of_nat (length c) :: byte) = length c"
    using assms(3) by (rule unat_word_of_nat_byte)
  moreover from this have "(word_of_nat (length c) :: byte) \<noteq> 0" using assms(2) by auto
  ultimately show ?thesis
    using rd_at [OF assms(1) refl] assms(4) by (simp add: sni_body_compression_def)
qed

lemma sni_body_ciphers_at:
  assumes "buf = pre @ enc16 (length c) @ c @ post" and "0 < length c" and "even (length c)"
    and "length pre + 2 + length c \<le> hs_end" and "length c < 65536"
  shows "sni_body_ciphers buf (length pre) hs_end out_len =
    sni_body_compression buf (length (pre @ enc16 (length c) @ c)) hs_end out_len"
  using read_u16_at [OF assms(1) refl assms(5)] assms(2-4)
  by (simp add: sni_body_ciphers_def add_ac)

lemma sni_body_at:
  assumes "buf = pre @ fixed @ [word_of_nat (length s)] @ s @ post" and "length fixed = 34"
    and "length s < 256" and "length pre + 35 + length s \<le> hs_end"
  shows "sni_body buf (length pre) hs_end out_len =
    sni_body_ciphers buf (length (pre @ fixed @ [word_of_nat (length s)] @ s)) hs_end out_len"
proof -
  have "rd buf (length pre + 34) = Some (word_of_nat (length s))"
    by (rule rd_at [where pre = "pre @ fixed" and post = "s @ post"]) (simp_all add: assms)
  then show ?thesis
    using assms(2-4) unat_word_of_nat_byte [OF assms(3)]
    by (simp add: sni_body_def add_ac)
qed

lemma length_hello_body:
  assumes "hello_wf ch"
  shows "length (hello_body ch) = 40 + length (ch_session ch) + length (ch_ciphers ch) +
    length (ch_compression ch) + length (hello_exts ch)"
    and "length (hello_body ch) < 65532" and "0 < length (hello_exts ch)"
  using assms by (auto simp: hello_wf_def hello_body_def hello_handshake_def hello_exts_def)

lemma sni_body_hello:
  assumes wf: "hello_wf ch" and buf: "buf = pre @ hello_body ch @ post" and out: "253 < out_len"
  shows "sni_body buf (length pre) (length pre + length (hello_body ch)) out_len =
    Some (STREAM_SNIFF_PARSED, False, Some (ch_name ch))"
proof -
  let ?s = "ch_session ch" and ?c = "ch_ciphers ch" and ?m = "ch_compression ch"
  let ?x = "hello_exts ch" and ?f = "ch_version ch @ ch_random ch"
  let ?p1 = "pre @ ?f @ [word_of_nat (length ?s)] @ ?s"
  let ?p2 = "?p1 @ enc16 (length ?c) @ ?c"
  let ?p3 = "?p2 @ [word_of_nat (length ?m)] @ ?m"
  let ?e = "length pre + length (hello_body ch)"
  note len = length_hello_body [OF wf]
  have e: "?e = length ?p3 + 2 + length ?x" using wf len(1) by (simp add: hello_wf_def)
  have "sni_body buf (length pre) ?e out_len = sni_body_ciphers buf (length ?p1) ?e out_len"
    using wf e by (intro sni_body_at) (auto simp: buf hello_body_def hello_wf_def)
  also have "\<dots> = sni_body_compression buf (length ?p2) ?e out_len"
    using wf e len by (intro sni_body_ciphers_at) (auto simp: buf hello_body_def hello_wf_def)
  also have "\<dots> = sni_body_tail buf (length ?p3) ?e out_len"
    using wf e by (intro sni_body_compression_at) (auto simp: buf hello_body_def hello_wf_def)
  also have "\<dots> = sni_extensions buf (length (?p3 @ enc16 (length ?x))) ?e out_len"
    unfolding e using wf len by (intro sni_body_tail_at) (auto simp: buf hello_body_def)
  also have "\<dots> = Some (STREAM_SNIFF_PARSED, False, Some (ch_name ch))"
    using wf e out valid_name_length [of "ch_name ch"]
    by (intro sni_extensions_hello) (auto simp: buf hello_body_def hello_wf_def hello_exts_def)
  finally show ?thesis .
qed

lemma length_hello_record: "length (hello_record ch) = 9 + length (hello_body ch)"
  by (simp add: hello_record_def hello_handshake_def)

lemma sni_handshake_hello:
  assumes wf: "hello_wf ch" and buf: "buf = hello_record ch @ post" and out: "253 < out_len"
  shows "sni_handshake buf (length (hello_record ch)) out_len =
    Some (STREAM_SNIFF_PARSED, False, Some (ch_name ch))"
proof -
  let ?b = "hello_body ch"
  let ?h = "[0x16, 0x03, ch_record_minor ch] @ enc16 (length (hello_handshake ch))"
  have buf': "buf = ?h @ [1] @ enc24 (length ?b) @ ?b @ post"
    by (simp add: buf hello_record_def hello_handshake_def)
  have "rd buf 5 = Some 1" by (rule rd_at [OF buf']) simp
  moreover have "read_u24_be buf 6 = Some (length ?b)"
    using length_hello_body(2) [OF wf]
    by (intro read_u24_at [where pre = "?h @ [1]" and post = "?b @ post"]) (simp_all add: buf')
  moreover have "sni_body buf 9 (9 + length ?b) out_len = Some (STREAM_SNIFF_PARSED, False, Some (ch_name ch))"
    using sni_body_hello [OF wf, of buf "?h @ [1] @ enc24 (length ?b)" post out_len] out
    by (simp add: buf')
  ultimately show ?thesis
    using length_hello_body(1) [OF wf]
    by (simp add: sni_handshake_def length_hello_record add.commute)
qed

lemma read_u16_prefix:
  "read_u16_be buf p = Some v \<Longrightarrow> p + 1 < n \<Longrightarrow> read_u16_be (take n buf) p = Some v"
  by (auto simp: read_u16_be_def rd_def split: if_splits)

text \<open>
  C12. For every well-formed ClientHello in one TLS record, with any extensions before and after
  the server name, the parser returns exactly the name the client sent once the whole record has
  arrived, whatever follows it, and asks for more on every shorter prefix. So the observed name
  does not depend on how the record was cut into segments.
\<close>

theorem parse_sni_segmentation:
  assumes wf: "hello_wf ch" and out: "253 < out_len"
  shows "parse_sni_from_client_hello (take n (hello_record ch @ post)) out_len =
    (if n < length (hello_record ch) then sni_need_more
     else Some (STREAM_SNIFF_PARSED, False, Some (ch_name ch)))"
proof -
  let ?full = "hello_record ch @ post" and ?len = "length (hello_handshake ch)"
  let ?buf = "take n ?full"
  have cons: "?full = 0x16 # 0x03 # ch_record_minor ch # enc16 ?len @ hello_handshake ch @ post"
    by (simp add: hello_record_def)
  have len: "length (hello_record ch) = 5 + ?len" "0 < ?len" "?len < 65536"
    using wf by (simp_all add: hello_record_def hello_handshake_def hello_wf_def)
  have u16: "read_u16_be ?full 3 = Some ?len"
    using len(3) by (intro read_u16_at [where pre = "[0x16, 0x03, ch_record_minor ch]"]) (simp_all add: cons)
  have r0: "0 < n \<Longrightarrow> rd ?buf 0 = Some 0x16" and r1: "1 < n \<Longrightarrow> rd ?buf 1 = Some 0x03"
    by (simp_all add: cons rd_def)
  show ?thesis
  proof (cases "n < length (hello_record ch)")
    case True
    then have lb: "length ?buf = n" by simp
    show ?thesis
    proof (cases "n < 5")
      case True
      then show ?thesis using r0 \<open>n < length (hello_record ch)\<close> lb
        by (cases "n = 0") (simp_all add: parse_sni_from_client_hello_def)
    next
      case False
      then have "read_u16_be ?buf 3 = Some ?len" by (intro read_u16_prefix [OF u16]) simp
      with False True r0 r1 lb len show ?thesis
        by (simp add: parse_sni_from_client_hello_def)
    qed
  next
    case False
    then have buf: "?buf = hello_record ch @ take (n - length (hello_record ch)) post" by simp
    have "read_u16_be ?buf 3 = Some ?len"
      using False len by (intro read_u16_prefix [OF u16]) simp
    moreover have "sni_handshake ?buf (5 + ?len) out_len = Some (STREAM_SNIFF_PARSED, False, Some (ch_name ch))"
      using sni_handshake_hello [OF wf buf out] len by simp
    ultimately show ?thesis
      using False r0 r1 len by (simp add: parse_sni_from_client_hello_def)
  qed
qed

definition example_hello :: client_hello where
  "example_hello = \<lparr>ch_record_minor = 1, ch_version = [3, 3], ch_random = replicate 32 7,
     ch_session = [], ch_ciphers = [0x13, 0x01], ch_compression = [0],
     ch_before = [(10, [0, 2, 0, 29])], ch_name = [97, 46, 98], ch_after = [(16, [])]\<rparr>"

theorem parse_sni_segmentation_witness:
  "hello_wf example_hello \<and>
   parse_sni_from_client_hello (take 20 (hello_record example_hello @ [1])) 254 = sni_need_more \<and>
   parse_sni_from_client_hello (take 500 (hello_record example_hello @ [1])) 254 =
     Some (STREAM_SNIFF_PARSED, False, Some [97, 46, 98])"
proof -
  have name: "valid_sni_name (ch_name example_hello)" by code_simp
  have len: "length (hello_handshake example_hello) = 71"
    by (simp add: example_hello_def hello_handshake_def hello_body_def hello_exts_def enc_exts_def)
  have wf: "hello_wf example_hello"
    using name len by (simp add: hello_wf_def example_hello_def)
  have "length (hello_record example_hello) = 76" by (simp add: hello_record_def len)
  then show ?thesis
    using parse_sni_segmentation [OF wf, of 254 20 "[1]"]
      parse_sni_segmentation [OF wf, of 254 500 "[1]"] wf
    by (simp add: example_hello_def)
qed

end
