(* ===== verification/Builtins.thy ===== *)
theory Builtins
  imports C_Strings
begin

text \<open>
  \<^verbatim>\<open>src/x_builtins.c\<close>: the built-in upstreams, their names, and what each answers. The
  interface \<open>name_codec\<close> states what a parser and a printer of an enumeration promise each
  other; it is interpreted here for the names of the built-ins and in the route component for
  the modes of \<^verbatim>\<open>broadcast_reply\<close>.
\<close>

section \<open>Names of enumerations\<close>

locale name_codec =
  fixes parse :: "string \<Rightarrow> 'a result"
    and name :: "'a \<Rightarrow> string"
    and named :: "'a \<Rightarrow> bool"
  assumes parse_name: "named x \<Longrightarrow> parse (name x) = Inr x"
    and name_parse: "parse s = Inr x \<Longrightarrow> named x \<and> name x = s"
    and parse_error: "parse s = Inl e \<Longrightarrow> e = EINVAL"
begin

lemma parse_iff: "parse s = Inr x \<longleftrightarrow> named x \<and> s = name x"
  using parse_name name_parse by blast

lemma name_inj: "named x \<Longrightarrow> named y \<Longrightarrow> name x = name y \<Longrightarrow> x = y"
  by (metis parse_name sum.inject(2))

lemma parse_rejects: "parse s = Inl EINVAL \<longleftrightarrow> (\<forall>x. named x \<longrightarrow> name x \<noteq> s)"
  by (metis parse_iff parse_error sum.exhaust sum.distinct(1))

end

section \<open>The built-in upstreams\<close>

datatype x_builtin_upstream =
    X_BUILTIN_NONE | X_BUILTIN_CLIENT_ADDR | X_BUILTIN_DISCARD | X_BUILTIN_HANG
  | X_BUILTIN_HTTP_OK | X_BUILTIN_LOG_CONN | X_BUILTIN_CLOSE

datatype x_builtin_action =
    X_BUILTIN_ACTION_CLOSE | X_BUILTIN_ACTION_DISCARD | X_BUILTIN_ACTION_HANG
  | X_BUILTIN_ACTION_HTTP_RESP

record x_builtin_request =
  req_builtin :: x_builtin_upstream
  req_client_addr :: "string option"

record x_builtin_response =
  res_action :: x_builtin_action
  res_data :: string
  res_data_len :: nat

definition x_builtin_parse :: "string \<Rightarrow> x_builtin_upstream result" where
  "x_builtin_parse s =
     (if s = ''client_addr'' then Inr X_BUILTIN_CLIENT_ADDR
      else if s = ''discard'' then Inr X_BUILTIN_DISCARD
      else if s = ''hang'' then Inr X_BUILTIN_HANG
      else if s = ''http_ok'' then Inr X_BUILTIN_HTTP_OK
      else if s = ''log_conn'' then Inr X_BUILTIN_LOG_CONN
      else if s = ''close'' then Inr X_BUILTIN_CLOSE
      else Inl EINVAL)"

fun x_builtin_name :: "x_builtin_upstream \<Rightarrow> string" where
  "x_builtin_name X_BUILTIN_CLIENT_ADDR = ''client_addr''"
| "x_builtin_name X_BUILTIN_DISCARD = ''discard''"
| "x_builtin_name X_BUILTIN_HANG = ''hang''"
| "x_builtin_name X_BUILTIN_HTTP_OK = ''http_ok''"
| "x_builtin_name X_BUILTIN_LOG_CONN = ''log_conn''"
| "x_builtin_name X_BUILTIN_CLOSE = ''close''"
| "x_builtin_name X_BUILTIN_NONE = ''none''"

interpretation builtin_names: name_codec x_builtin_parse x_builtin_name "\<lambda>b. b \<noteq> X_BUILTIN_NONE"
proof unfold_locales
  fix b assume "b \<noteq> X_BUILTIN_NONE"
  then show "x_builtin_parse (x_builtin_name b) = Inr b"
    by (cases b) (simp_all add: x_builtin_parse_def)
next
  fix s b assume "x_builtin_parse s = Inr b"
  then show "b \<noteq> X_BUILTIN_NONE \<and> x_builtin_name b = s"
    by (auto simp: x_builtin_parse_def split: if_splits)
next
  fix s e assume "x_builtin_parse s = Inl e"
  then show "e = EINVAL" by (auto simp: x_builtin_parse_def split: if_splits)
qed

section \<open>Answers\<close>

definition crlf :: string where "crlf = [CR, LF]"

definition http_ok :: string where
  "http_ok = ''HTTP/1.1 200 OK'' @ crlf @ ''Content-Length: 2'' @ crlf @
     ''Connection: close'' @ crlf @ crlf @ ''OK''"

definition SIZEOF_RES_DATA :: nat where "SIZEOF_RES_DATA = 256"

text \<open>
  The response after \<^verbatim>\<open>memset(res, 0, sizeof(*res))\<close>: the first action, no data. The data
  of the response are its first \<^verbatim>\<open>data_len\<close> bytes.
\<close>

definition x_builtin_response_zero :: x_builtin_response where
  "x_builtin_response_zero =
     \<lparr>res_action = X_BUILTIN_ACTION_CLOSE, res_data = [], res_data_len = 0\<rparr>"

fun x_builtin_handle :: "x_builtin_request \<Rightarrow> x_builtin_response result" where
  "x_builtin_handle req =
     (let res = x_builtin_response_zero in
      case req_builtin req of
        X_BUILTIN_CLIENT_ADDR \<Rightarrow>
          (case req_client_addr req of
             None \<Rightarrow> Inl EINVAL
           | Some a \<Rightarrow>
               let text = a @ [LF]; n = length text in
               if n \<ge> SIZEOF_RES_DATA then Inl ENOSPC
               else Inr (res\<lparr>res_data := snprintf_buf SIZEOF_RES_DATA text, res_data_len := n,
                             res_action := X_BUILTIN_ACTION_CLOSE\<rparr>))
      | X_BUILTIN_HTTP_OK \<Rightarrow>
          Inr (res\<lparr>res_data := http_ok, res_data_len := length http_ok,
                   res_action := X_BUILTIN_ACTION_HTTP_RESP\<rparr>)
      | X_BUILTIN_DISCARD \<Rightarrow> Inr (res\<lparr>res_action := X_BUILTIN_ACTION_DISCARD\<rparr>)
      | X_BUILTIN_LOG_CONN \<Rightarrow> Inr (res\<lparr>res_data_len := 0, res_action := X_BUILTIN_ACTION_CLOSE\<rparr>)
      | X_BUILTIN_CLOSE \<Rightarrow> Inr (res\<lparr>res_data_len := 0, res_action := X_BUILTIN_ACTION_CLOSE\<rparr>)
      | X_BUILTIN_HANG \<Rightarrow> Inr (res\<lparr>res_action := X_BUILTIN_ACTION_HANG\<rparr>)
      | X_BUILTIN_NONE \<Rightarrow> Inl EINVAL)"

declare x_builtin_handle.simps [simp del]

text \<open>Every answer fits the 256-byte buffer of the response and its length is its data's.\<close>

lemma x_builtin_handle_bounded:
  assumes "x_builtin_handle req = Inr res"
  shows "res_data_len res = length (res_data res) \<and> res_data_len res < SIZEOF_RES_DATA"
  using assms
  by (auto simp: x_builtin_handle.simps Let_def x_builtin_response_zero_def http_ok_def crlf_def
      SIZEOF_RES_DATA_def snprintf_buf_def split: x_builtin_upstream.splits option.splits if_splits)

lemma x_builtin_handle_total:
  assumes "b \<noteq> X_BUILTIN_NONE" and "length a < 255"
  shows "\<exists>res. x_builtin_handle \<lparr>req_builtin = b, req_client_addr = Some a\<rparr> = Inr res"
  using assms by (cases b) (auto simp: x_builtin_handle.simps SIZEOF_RES_DATA_def)

lemma x_builtin_handle_http_resp:
  assumes "x_builtin_handle req = Inr res"
  shows "res_action res = X_BUILTIN_ACTION_HTTP_RESP \<longleftrightarrow> req_builtin req = X_BUILTIN_HTTP_OK"
  using assms
  by (auto simp: x_builtin_handle.simps Let_def x_builtin_response_zero_def
      split: x_builtin_upstream.splits option.splits if_splits)

end
