(* ===== verification/Endpoint.thy ===== *)
theory Endpoint
  imports Builtins Sockaddr
begin

text \<open>
  \<^verbatim>\<open>src/endpoint.h\<close> and \<^verbatim>\<open>src/endpoint.c\<close>: the two ends of a route, their text form,
  their socket address, and which of them are streams, datagrams and listenable.
\<close>

section \<open>Data\<close>

datatype endpoint_proto =
    PROTO_TCP | PROTO_UDP | PROTO_UNIX_STREAM | PROTO_UNIX_DGRAM | PROTO_FILE | PROTO_BUILTIN

datatype endpoint_kind =
    ENDPOINT_INET | ENDPOINT_INET6 | ENDPOINT_UNIX | ENDPOINT_UNIX_DGRAM | ENDPOINT_BUILTIN
  | ENDPOINT_FILE

record endpoint =
  ep_kind :: endpoint_kind
  ep_host :: string
  ep_port :: "16 word"
  ep_proto :: endpoint_proto
  ep_path :: string
  ep_builtin :: x_builtin_upstream

text \<open>
  The sizes of the two character arrays, \<^verbatim>\<open>host[256]\<close> and \<^verbatim>\<open>path[108]\<close>. An endpoint after
  \<^verbatim>\<open>memset(ep, 0, sizeof(*ep))\<close> has the first constructor of each enumeration.
\<close>

definition SIZEOF_HOST :: nat where "SIZEOF_HOST = 256"
definition SIZEOF_PATH :: nat where "SIZEOF_PATH = 108"

definition endpoint_zero :: endpoint where
  "endpoint_zero = \<lparr>ep_kind = ENDPOINT_INET, ep_host = [], ep_port = 0, ep_proto = PROTO_TCP,
     ep_path = [], ep_builtin = X_BUILTIN_NONE\<rparr>"

text \<open>The kind that belongs to a protocol; for the two inet protocols either family.\<close>

fun kind_of_proto :: "endpoint_proto \<Rightarrow> endpoint_kind set" where
  "kind_of_proto PROTO_TCP = {ENDPOINT_INET, ENDPOINT_INET6}"
| "kind_of_proto PROTO_UDP = {ENDPOINT_INET, ENDPOINT_INET6}"
| "kind_of_proto PROTO_UNIX_STREAM = {ENDPOINT_UNIX}"
| "kind_of_proto PROTO_UNIX_DGRAM = {ENDPOINT_UNIX_DGRAM}"
| "kind_of_proto PROTO_FILE = {ENDPOINT_FILE}"
| "kind_of_proto PROTO_BUILTIN = {ENDPOINT_BUILTIN}"

text \<open>
  The type invariant of an endpoint: strings fit their arrays with their NUL, the kind belongs to
  the protocol, and the fields the kind uses are set.
\<close>

definition endpoint_wf :: "endpoint \<Rightarrow> bool" where
  "endpoint_wf ep \<longleftrightarrow>
     length (ep_host ep) < SIZEOF_HOST \<and> length (ep_path ep) < SIZEOF_PATH \<and>
     NUL \<notin> set (ep_host ep) \<and> NUL \<notin> set (ep_path ep) \<and>
     ep_kind ep \<in> kind_of_proto (ep_proto ep) \<and>
     (case ep_kind ep of
        ENDPOINT_INET \<Rightarrow> ep_host ep \<noteq> [] \<and> ep_port ep \<noteq> 0
      | ENDPOINT_INET6 \<Rightarrow> ep_host ep \<noteq> [] \<and> ep_port ep \<noteq> 0
      | ENDPOINT_BUILTIN \<Rightarrow> ep_builtin ep \<noteq> X_BUILTIN_NONE
      | _ \<Rightarrow> ep_path ep \<noteq> [])"

section \<open>Text form\<close>

text \<open>
  \<^verbatim>\<open>endpoint_to_string\<close>: \<open>ep\<close> is \<open>None\<close> for a null endpoint and \<open>buf\<close> is \<open>None\<close> for a null
  buffer, otherwise its size. The result is the string left in the buffer.
\<close>

fun endpoint_text :: "endpoint \<Rightarrow> string" where
  "endpoint_text ep =
     (case ep_kind ep of
        ENDPOINT_INET \<Rightarrow> ep_host ep @ '':'' @ show_nat (unat (ep_port ep))
      | ENDPOINT_INET6 \<Rightarrow> ''['' @ ep_host ep @ '']:'' @ show_nat (unat (ep_port ep))
      | ENDPOINT_UNIX \<Rightarrow> ''unix:'' @ ep_path ep
      | ENDPOINT_UNIX_DGRAM \<Rightarrow> ''unix-dgram:'' @ ep_path ep
      | ENDPOINT_BUILTIN \<Rightarrow> ''builtin://'' @ x_builtin_name (ep_builtin ep)
      | ENDPOINT_FILE \<Rightarrow> ''file://'' @ ep_path ep)"

declare endpoint_text.simps [simp del]

definition endpoint_to_string :: "endpoint option \<Rightarrow> nat option \<Rightarrow> string result" where
  "endpoint_to_string ep buf =
     (case buf of
        None \<Rightarrow> Inl EINVAL
      | Some buf_len \<Rightarrow>
          if buf_len = 0 then Inl EINVAL
          else case ep of
                 None \<Rightarrow> Inr (snprintf_buf buf_len ''<nil>'')
               | Some e \<Rightarrow> Inr (snprintf_buf buf_len (endpoint_text e)))"

lemma endpoint_to_string_fits:
  "endpoint_to_string ep (Some n) = Inr s \<Longrightarrow> length s < n"
  by (auto simp: endpoint_to_string_def length_snprintf_buf split: if_splits option.splits)

section \<open>Socket address\<close>

text \<open>
  \<^verbatim>\<open>inet_pton\<close> is a parameter: \<open>pton4\<close> and \<open>pton6\<close> give the 4 or 16 bytes of a numeric
  address in network order, or \<open>None\<close> when the text is none.
\<close>

definition pton_ok :: "(string \<Rightarrow> byte list option) \<Rightarrow> (string \<Rightarrow> byte list option) \<Rightarrow> bool" where
  "pton_ok pton4 pton6 \<longleftrightarrow>
     (\<forall>s a. pton4 s = Some a \<longrightarrow> length a = 4) \<and> (\<forall>s a. pton6 s = Some a \<longrightarrow> length a = 16)"

definition endpoint_to_sockaddr ::
  "(string \<Rightarrow> byte list option) \<Rightarrow> (string \<Rightarrow> byte list option) \<Rightarrow> endpoint \<Rightarrow>
   (sockaddr \<times> nat) result" where
  "endpoint_to_sockaddr pton4 pton6 ep =
     (case ep_kind ep of
        ENDPOINT_INET \<Rightarrow>
          (case pton4 (ep_host ep) of
             None \<Rightarrow> Inl EINVAL
           | Some a \<Rightarrow> Inr (mk_sin (ep_port ep) a, SIZEOF_SIN))
      | ENDPOINT_INET6 \<Rightarrow>
          (case pton6 (ep_host ep) of
             None \<Rightarrow> Inl EINVAL
           | Some a \<Rightarrow> Inr (mk_sin6 (ep_port ep) a, SIZEOF_SIN6))
      | _ \<Rightarrow> Inl EINVAL)"

lemma endpoint_to_sockaddr_wf:
  assumes "pton_ok pton4 pton6" and "endpoint_to_sockaddr pton4 pton6 ep = Inr (sa, n)"
  shows "length sa = SIZEOF_SS \<and> n \<le> SIZEOF_SS \<and>
     (ss_family sa = AF_INET \<longleftrightarrow> ep_kind ep = ENDPOINT_INET) \<and>
     (ss_family sa = AF_INET6 \<longleftrightarrow> ep_kind ep = ENDPOINT_INET6) \<and>
     sin_port sa = be16 (ep_port ep)"
  using assms
  by (auto simp: pton_ok_def endpoint_to_sockaddr_def af_defs sizeof_defs mk_sin_def mk_sin6_def
      family_bytes_def ss_family_def sin_port_def be16_def split: endpoint_kind.splits option.splits)

section \<open>Classification\<close>

text \<open>A null endpoint is \<open>None\<close>.\<close>

definition endpoint_is_stream :: "endpoint option \<Rightarrow> bool" where
  "endpoint_is_stream ep =
     (case ep of None \<Rightarrow> False
      | Some e \<Rightarrow> (case ep_proto e of PROTO_TCP \<Rightarrow> True | PROTO_UNIX_STREAM \<Rightarrow> True | _ \<Rightarrow> False))"

definition endpoint_is_datagram :: "endpoint option \<Rightarrow> bool" where
  "endpoint_is_datagram ep =
     (case ep of None \<Rightarrow> False
      | Some e \<Rightarrow> (case ep_proto e of PROTO_UDP \<Rightarrow> True | PROTO_UNIX_DGRAM \<Rightarrow> True | _ \<Rightarrow> False))"

definition endpoint_is_listenable :: "endpoint option \<Rightarrow> bool" where
  "endpoint_is_listenable ep \<longleftrightarrow> endpoint_is_stream ep \<or> endpoint_is_datagram ep"

lemmas endpoint_class_defs =
  endpoint_is_stream_def endpoint_is_datagram_def endpoint_is_listenable_def

lemma stream_not_datagram: "endpoint_is_stream ep \<Longrightarrow> \<not> endpoint_is_datagram ep"
  by (auto simp: endpoint_class_defs split: option.splits endpoint_proto.splits)

lemma stream_kinds:
  "endpoint_wf e \<Longrightarrow> endpoint_is_stream (Some e) \<Longrightarrow>
   ep_kind e \<in> {ENDPOINT_INET, ENDPOINT_INET6, ENDPOINT_UNIX}"
  by (cases "ep_proto e") (auto simp: endpoint_wf_def endpoint_class_defs)

lemma datagram_kinds:
  "endpoint_wf e \<Longrightarrow> endpoint_is_datagram (Some e) \<Longrightarrow>
   ep_kind e \<in> {ENDPOINT_INET, ENDPOINT_INET6, ENDPOINT_UNIX_DGRAM}"
  by (cases "ep_proto e") (auto simp: endpoint_wf_def endpoint_class_defs)

end
