(* ===== verification/Route.thy ===== *)
theory Route
  imports Endpoint
begin

text \<open>
  \<^verbatim>\<open>src/route.h\<close>, \<^verbatim>\<open>src/route.c\<close> and \<^verbatim>\<open>validate_route\<close> of \<^verbatim>\<open>src/route_runtime.c\<close>: a
  route and its options, the bounded text of the options that the start-up log shows, and which
  pairs of endpoints a route may join.
\<close>

section \<open>Data\<close>

definition ROUTE_DEFAULT_IDLE_TIMEOUT_SEC :: int where "ROUTE_DEFAULT_IDLE_TIMEOUT_SEC = 60"
definition ROUTE_DEFAULT_CONNECT_TIMEOUT_SEC :: int where "ROUTE_DEFAULT_CONNECT_TIMEOUT_SEC = 5"
definition STREAM_IO_CHUNK_SIZE :: nat where "STREAM_IO_CHUNK_SIZE = 128 * 1024"
definition STREAM_READ_HIGH_WATER :: nat where "STREAM_READ_HIGH_WATER = 2 * STREAM_IO_CHUNK_SIZE"
definition STREAM_WRITE_RESUME_WATER :: nat where "STREAM_WRITE_RESUME_WATER = STREAM_IO_CHUNK_SIZE"
definition CLOSE_WAIT_TIMEOUT_SEC :: int where "CLOSE_WAIT_TIMEOUT_SEC = 2"
definition UDP_MAX_PACKET :: nat where "UDP_MAX_PACKET = 65535"

lemmas timeout_defs = ROUTE_DEFAULT_IDLE_TIMEOUT_SEC_def ROUTE_DEFAULT_CONNECT_TIMEOUT_SEC_def
lemmas water_defs = STREAM_IO_CHUNK_SIZE_def STREAM_READ_HIGH_WATER_def STREAM_WRITE_RESUME_WATER_def

datatype broadcast_reply_mode =
  BROADCAST_REPLY_OFF | BROADCAST_REPLY_LISTEN | BROADCAST_REPLY_UPSTREAM

record route_options =
  proxy_v2 :: bool
  keep_alive :: bool
  sni_sniff :: bool
  idle_timeout_sec :: int
  connect_timeout_sec :: int
  bind_wait_sec :: int
  broadcast_reply :: broadcast_reply_mode

record route =
  listen :: endpoint
  upstream :: endpoint
  opts :: route_options
  line_no :: "32 word"

definition route_options_zero :: route_options where
  "route_options_zero = \<lparr>proxy_v2 = False, keep_alive = False, sni_sniff = False,
     idle_timeout_sec = 0, connect_timeout_sec = 0, bind_wait_sec = 0,
     broadcast_reply = BROADCAST_REPLY_OFF\<rparr>"

definition route_zero :: route where
  "route_zero = \<lparr>listen = endpoint_zero, upstream = endpoint_zero, opts = route_options_zero,
     line_no = 0\<rparr>"

text \<open>
  The type invariant of the options a route runs with: the two timeouts are positive \<^verbatim>\<open>int\<close>s
  and the bind wait is a non-negative one.
\<close>

definition opts_wf :: "route_options \<Rightarrow> bool" where
  "opts_wf o' \<longleftrightarrow>
     0 < idle_timeout_sec o' \<and> idle_timeout_sec o' \<le> INT_MAX \<and>
     0 < connect_timeout_sec o' \<and> connect_timeout_sec o' \<le> INT_MAX \<and>
     0 \<le> bind_wait_sec o' \<and> bind_wait_sec o' \<le> INT_MAX"

definition route_wf :: "route \<Rightarrow> bool" where
  "route_wf r \<longleftrightarrow> endpoint_wf (listen r) \<and> endpoint_wf (upstream r) \<and> opts_wf (opts r)"

section \<open>The text of the options\<close>

text \<open>
  The macro \<^verbatim>\<open>ADD_FMT\<close>. The state is whether the function has returned and what the buffer
  holds; while it has not returned, \<^verbatim>\<open>n\<close> is the length of what the buffer holds. A piece that
  does not fit is cut and ends the function.
\<close>

definition add_fmt :: "nat \<Rightarrow> string \<Rightarrow> bool \<times> string \<Rightarrow> bool \<times> string" where
  "add_fmt buflen piece st =
     (let (ret, buf) = st; n = length buf in
      if ret then st
      else if n \<ge> buflen then (True, take (buflen - 1) buf)
      else let text = (if n = 0 then [] else '', '') @ piece;
               written = length text in
           if written \<ge> buflen - n then (True, buf @ snprintf_buf (buflen - n) text)
           else (False, buf @ text))"

definition bool_text :: "bool \<Rightarrow> string" where
  "bool_text b = (if b then ''true'' else ''false'')"

definition add_when :: "bool \<Rightarrow> nat \<Rightarrow> string \<Rightarrow> bool \<times> string \<Rightarrow> bool \<times> string" where
  "add_when c buflen piece st = (if c then add_fmt buflen piece st else st)"

fun broadcast_reply_name :: "broadcast_reply_mode \<Rightarrow> string" where
  "broadcast_reply_name BROADCAST_REPLY_OFF = []"
| "broadcast_reply_name BROADCAST_REPLY_LISTEN = ''listen''"
| "broadcast_reply_name BROADCAST_REPLY_UPSTREAM = ''upstream''"

definition route_options_str :: "route_options \<Rightarrow> nat \<Rightarrow> string option" where
  "route_options_str o' buflen =
     (if buflen = 0 then None
      else
        let st = (False, []);
            st = add_when (proxy_v2 o') buflen (''proxy_v2='' @ bool_text (proxy_v2 o')) st;
            st = add_when (idle_timeout_sec o' \<noteq> ROUTE_DEFAULT_IDLE_TIMEOUT_SEC) buflen
                   (''idle_timeout='' @ show_int (idle_timeout_sec o')) st;
            st = add_when (connect_timeout_sec o' \<noteq> ROUTE_DEFAULT_CONNECT_TIMEOUT_SEC) buflen
                   (''connect_timeout='' @ show_int (connect_timeout_sec o')) st;
            st = add_when (bind_wait_sec o' \<noteq> 0) buflen
                   (''bind_wait='' @ show_int (bind_wait_sec o')) st;
            st = add_when (keep_alive o') buflen (''keep_alive='' @ bool_text (keep_alive o')) st;
            st = add_when (sni_sniff o') buflen (''sni_sniff='' @ bool_text (sni_sniff o')) st;
            st = (case broadcast_reply o' of
                    BROADCAST_REPLY_OFF \<Rightarrow> st
                  | BROADCAST_REPLY_LISTEN \<Rightarrow> add_fmt buflen ''broadcast_reply=listen'' st
                  | BROADCAST_REPLY_UPSTREAM \<Rightarrow> add_fmt buflen ''broadcast_reply=upstream'' st)
        in Some (snd st))"

text \<open>
  The reference: the pieces that are to be shown, joined by a comma and a blank, cut to what the
  buffer holds.
\<close>

definition shown_pieces :: "route_options \<Rightarrow> string list" where
  "shown_pieces o' =
     (if proxy_v2 o' then [''proxy_v2=true''] else []) @
     (if idle_timeout_sec o' \<noteq> 60 then [''idle_timeout='' @ show_int (idle_timeout_sec o')] else []) @
     (if connect_timeout_sec o' \<noteq> 5
      then [''connect_timeout='' @ show_int (connect_timeout_sec o')] else []) @
     (if bind_wait_sec o' \<noteq> 0 then [''bind_wait='' @ show_int (bind_wait_sec o')] else []) @
     (if keep_alive o' then [''keep_alive=true''] else []) @
     (if sni_sniff o' then [''sni_sniff=true''] else []) @
     (if broadcast_reply o' \<noteq> BROADCAST_REPLY_OFF
      then [''broadcast_reply='' @ broadcast_reply_name (broadcast_reply o')] else [])"

fun joined :: "string list \<Rightarrow> string" where
  "joined [] = []"
| "joined [p] = p"
| "joined (p # ps) = p @ '', '' @ joined ps"

definition append_piece :: "string \<Rightarrow> string \<Rightarrow> string" where
  "append_piece full p = (if full = [] then p else full @ '', '' @ p)"

text \<open>
  The state of the buffer tracks the unbounded text: it holds as much of it as fits, and the
  function has returned only when the text does not fit.
\<close>

definition tracks :: "nat \<Rightarrow> bool \<times> string \<Rightarrow> string \<Rightarrow> bool" where
  "tracks buflen st full \<longleftrightarrow>
     0 < buflen \<and> snd st = take (buflen - 1) full \<and> (fst st \<longleftrightarrow> buflen \<le> length full)"

lemma tracks_add_fmt:
  assumes "tracks buflen st full" and "p \<noteq> []"
  shows "tracks buflen (add_fmt buflen p st) (append_piece full p)"
proof (cases "fst st")
  case True
  with assms have "buflen \<le> length full" "full \<noteq> []" by (auto simp: tracks_def)
  with True assms show ?thesis
    by (cases st) (auto simp: tracks_def add_fmt_def append_piece_def)
next
  case False
  with assms have full: "snd st = full" "length full < buflen"
    by (auto simp: tracks_def not_le)
  then show ?thesis using False assms
    by (cases st) (auto simp: tracks_def add_fmt_def append_piece_def snprintf_buf_def Let_def take_Cons')
qed

lemma tracks_pieces:
  assumes "tracks buflen st full" and "\<forall>p \<in> set ps. p \<noteq> []"
  shows "tracks buflen (fold (add_fmt buflen) ps st) (fold (\<lambda>p f. append_piece f p) ps full)"
  using assms by (induction ps arbitrary: st full) (simp_all add: tracks_add_fmt)

lemma joined_snoc: "\<forall>p \<in> set ps. p \<noteq> [] \<Longrightarrow> joined (ps @ [p]) = append_piece (joined ps) p"
proof (induction ps rule: joined.induct)
  case (3 p q ps)
  then show ?case by (cases ps) (simp_all add: append_piece_def)
qed (simp_all add: append_piece_def)

lemma fold_append_piece:
  "\<forall>p \<in> set ps. p \<noteq> [] \<Longrightarrow> fold (\<lambda>p f. append_piece f p) ps [] = joined ps"
  by (induction ps rule: rev_induct) (simp_all add: joined_snoc)

lemma shown_pieces_ne: "\<forall>p \<in> set (shown_pieces o'). p \<noteq> []"
  by (auto simp: shown_pieces_def)

lemma fold_opt: "fold f (if c then [p] else []) s = (if c then f p s else s)"
  by simp

lemma route_options_str_fold:
  "route_options_str o' (Suc n) = Some (snd (fold (add_fmt (Suc n)) (shown_pieces o') (False, [])))"
  by (cases "broadcast_reply o'")
    (simp_all add: route_options_str_def shown_pieces_def add_when_def bool_text_def timeout_defs
      fold_opt if_distrib Let_def)

text \<open>
  \<^verbatim>\<open>route_options_str\<close> writes exactly the non-default options, in the order of the code,
  joined by a comma and a blank, cut to what a buffer of the given size holds with its NUL: the
  stepwise bounded printing never loses, duplicates or overruns anything.
\<close>

lemma route_options_str_spec:
  "route_options_str o' (Suc n) = Some (take n (joined (shown_pieces o')))"
proof -
  have "tracks (Suc n) (False, []) []" by (simp add: tracks_def)
  from tracks_pieces [OF this shown_pieces_ne]
  have "tracks (Suc n) (fold (add_fmt (Suc n)) (shown_pieces o') (False, [])) (joined (shown_pieces o'))"
    by (simp add: fold_append_piece shown_pieces_ne)
  then show ?thesis by (simp add: route_options_str_fold tracks_def)
qed

section \<open>Which routes are valid\<close>

text \<open>A null route is \<open>None\<close>; the result is the error or unit for the return of 0.\<close>

definition validate_route :: "route option \<Rightarrow> unit result" where
  "validate_route ro =
     (case ro of
        None \<Rightarrow> Inl EINVAL
      | Some r \<Rightarrow>
          if \<not> endpoint_is_listenable (Some (listen r)) then Inl EINVAL
          else if endpoint_is_stream (Some (listen r)) then
            (if endpoint_is_stream (Some (upstream r)) \<or> ep_proto (upstream r) = PROTO_FILE
                \<or> ep_proto (upstream r) = PROTO_BUILTIN
             then Inr () else Inl EINVAL)
          else if endpoint_is_datagram (Some (listen r)) then
            (if endpoint_is_datagram (Some (upstream r)) \<or> ep_proto (upstream r) = PROTO_BUILTIN
             then Inr () else Inl EINVAL)
          else Inl EINVAL)"

text \<open>The table of the documentation: the protocols that a valid route may join.\<close>

definition valid_pairs :: "(endpoint_proto \<times> endpoint_proto) set" where
  "valid_pairs =
     {PROTO_TCP, PROTO_UNIX_STREAM} \<times> {PROTO_TCP, PROTO_UNIX_STREAM, PROTO_FILE, PROTO_BUILTIN} \<union>
     {PROTO_UDP, PROTO_UNIX_DGRAM} \<times> {PROTO_UDP, PROTO_UNIX_DGRAM, PROTO_BUILTIN}"

lemma validate_route_iff:
  "validate_route (Some r) = Inr () \<longleftrightarrow> (ep_proto (listen r), ep_proto (upstream r)) \<in> valid_pairs"
  by (cases "ep_proto (listen r)"; cases "ep_proto (upstream r)")
    (simp_all add: validate_route_def valid_pairs_def endpoint_class_defs)

end
