(* ===== verification/Worker_Queue.thy ===== *)
theory Worker_Queue
  imports Route
begin

text \<open>
  The message queue of a worker (\<^verbatim>\<open>src/worker.c\<close>, \<^verbatim>\<open>src/worker.h\<close>): messages are objects on a
  heap, linked through \<^verbatim>\<open>next\<close> and reached through the head and tail pointers of the worker. The
  heap is explicit, so that reading, writing or freeing an object that is not live is an
  observable failure (\<open>None\<close>), and a log of acquisitions and releases records what happens to
  sockets and the other resources. The lemmas relate the pointers to the list of jobs they
  represent.
\<close>

section \<open>Data\<close>

type_synonym addr = nat

definition EVUTIL_INVALID_SOCKET :: int where "EVUTIL_INVALID_SOCKET = - 1"

definition socket_is_valid :: "int \<Rightarrow> bool" where
  "socket_is_valid fd \<longleftrightarrow> fd \<noteq> EVUTIL_INVALID_SOCKET"

record worker_stream_client_msg =
  sc_route :: route
  sc_fd :: int
  sc_peer_addr :: sockaddr
  sc_peer_addr_len :: nat

record worker_datagram_packet_msg =
  dp_route :: route
  dp_ctx :: addr
  dp_peer_addr :: sockaddr
  dp_peer_addr_len :: nat
  dp_data :: "addr option"
  dp_data_len :: nat

text \<open>The kind of a message and the member of the union that goes with it are one datatype.\<close>

datatype worker_payload =
    WORKER_MSG_STREAM_CLIENT worker_stream_client_msg
  | WORKER_MSG_DATAGRAM_PACKET worker_datagram_packet_msg

record worker_msg =
  next_msg :: "addr option"
  payload :: worker_payload

text \<open>
  Resources other than messages and packet data: those of a worker, by its id, sockets, and those of
  a datagram route, and those of the main program; and the log of what was acquired and released. \<^verbatim>\<open>klog_free\<close> is logged as a call.
\<close>

datatype resource =
    R_base "32 word" | R_mutex "32 word" | R_event "32 word" | R_fd int
  | R_clients_mu | R_listen_event | R_client_event addr
  | R_sigint | R_sigterm | R_inline_routes | R_routes | R_route_ctxs

datatype res_event = Acquire resource | Release resource | Klog_Free

record store =
  st_msgs :: "addr \<rightharpoonup> worker_msg"
  st_bufs :: "addr \<rightharpoonup> byte list"
  st_trace :: "res_event list"

record worker =
  w_id :: "32 word"
  w_base :: bool
  w_started :: bool
  w_stopping :: bool
  notify_recv_fd :: int
  notify_send_fd :: int
  w_notify_event :: bool
  pending_head :: "addr option"
  pending_tail :: "addr option"

section \<open>Freeing messages\<close>

definition log_res :: "res_event list \<Rightarrow> store \<Rightarrow> store" where
  "log_res es st = st\<lparr>st_trace := st_trace st @ es\<rparr>"

text \<open>\<^verbatim>\<open>free\<close>: nothing for a null pointer, a failure for memory that is not live.\<close>

definition free_data :: "addr option \<Rightarrow> store \<Rightarrow> store option" where
  "free_data p st =
     (case p of
        None \<Rightarrow> Some st
      | Some b \<Rightarrow> (case st_bufs st b of
            None \<Rightarrow> None
          | Some _ \<Rightarrow> Some (st\<lparr>st_bufs := (st_bufs st)(b := None)\<rparr>)))"

definition free_msg :: "addr \<Rightarrow> store \<Rightarrow> store option" where
  "free_msg a st =
     (case st_msgs st a of
        None \<Rightarrow> None
      | Some _ \<Rightarrow> Some (st\<lparr>st_msgs := (st_msgs st)(a := None)\<rparr>))"

definition free_processed_worker_msg :: "addr \<Rightarrow> store \<Rightarrow> store option" where
  "free_processed_worker_msg a st = do {
     m \<leftarrow> st_msgs st a;
     st \<leftarrow> (case payload m of
         WORKER_MSG_STREAM_CLIENT _ \<Rightarrow> Some st
       | WORKER_MSG_DATAGRAM_PACKET d \<Rightarrow> free_data (dp_data d) st);
     free_msg a st }"

definition free_worker_msg :: "addr \<Rightarrow> store \<Rightarrow> store option" where
  "free_worker_msg a st = do {
     m \<leftarrow> st_msgs st a;
     st \<leftarrow> (case payload m of
         WORKER_MSG_STREAM_CLIENT c \<Rightarrow>
           Some (if socket_is_valid (sc_fd c) then log_res [Release (R_fd (sc_fd c))] st else st)
       | WORKER_MSG_DATAGRAM_PACKET d \<Rightarrow> free_data (dp_data d) st);
     free_msg a st }"

section \<open>The linked list\<close>

definition set_next :: "addr \<Rightarrow> addr option \<Rightarrow> store \<Rightarrow> store option" where
  "set_next a p st =
     map_option (\<lambda>m. st\<lparr>st_msgs := (st_msgs st)(a \<mapsto> m\<lparr>next_msg := p\<rparr>)\<rparr>) (st_msgs st a)"

text \<open>The part of \<^verbatim>\<open>worker_enqueue_msg\<close> that links the message in.\<close>

definition worker_append :: "worker \<Rightarrow> addr \<Rightarrow> store \<Rightarrow> (worker \<times> store) option" where
  "worker_append w msg st = do {
     st \<leftarrow> set_next msg None st;
     (w, st) \<leftarrow> (case pending_tail w of
         Some t \<Rightarrow> map_option (Pair w) (set_next t (Some msg) st)
       | None \<Rightarrow> Some (w\<lparr>pending_head := Some msg\<rparr>, st));
     Some (w\<lparr>pending_tail := Some msg\<rparr>, st) }"

definition worker_take_pending :: "worker \<Rightarrow> addr option \<times> worker" where
  "worker_take_pending w =
     (pending_head w, w\<lparr>pending_head := None, pending_tail := None\<rparr>)"

section \<open>What the pointers represent\<close>

fun chain :: "store \<Rightarrow> addr option \<Rightarrow> addr list \<Rightarrow> bool" where
  "chain st p [] \<longleftrightarrow> p = None"
| "chain st p (a # as) \<longleftrightarrow>
     p = Some a \<and> (case st_msgs st a of None \<Rightarrow> False | Some m \<Rightarrow> chain st (next_msg m) as)"

fun data_ptr :: "worker_payload \<Rightarrow> addr option" where
  "data_ptr (WORKER_MSG_STREAM_CLIENT c) = None"
| "data_ptr (WORKER_MSG_DATAGRAM_PACKET d) = dp_data d"

definition buf_of :: "store \<Rightarrow> addr \<Rightarrow> addr option" where
  "buf_of st a = (case st_msgs st a of None \<Rightarrow> None | Some m \<Rightarrow> data_ptr (payload m))"

definition bufs_of :: "store \<Rightarrow> addr list \<Rightarrow> addr list" where
  "bufs_of st as = List.map_filter (buf_of st) as"

text \<open>
  The heap holds exactly the messages \<open>as\<close> and the data they point to, each pointed to once: nothing is
  leaked and nothing is shared.
\<close>

definition store_ok :: "store \<Rightarrow> addr list \<Rightarrow> bool" where
  "store_ok st as \<longleftrightarrow> distinct as \<and> dom (st_msgs st) = set as \<and>
     distinct (bufs_of st as) \<and> dom (st_bufs st) = set (bufs_of st as)"

definition queue_ok :: "worker \<Rightarrow> store \<Rightarrow> addr list \<Rightarrow> bool" where
  "queue_ok w st q \<longleftrightarrow> chain st (pending_head w) q \<and>
     pending_tail w = (if q = [] then None else Some (last q))"

text \<open>A job is a message with the bytes its data pointer leads to.\<close>

type_synonym job = "worker_payload \<times> byte list"

definition bytes_of :: "store \<Rightarrow> worker_payload \<Rightarrow> byte list option" where
  "bytes_of st p = (case data_ptr p of None \<Rightarrow> Some [] | Some b \<Rightarrow> st_bufs st b)"

definition job_at :: "store \<Rightarrow> addr \<Rightarrow> job option" where
  "job_at st a = do { m \<leftarrow> st_msgs st a; bs \<leftarrow> bytes_of st (payload m); Some (payload m, bs) }"

definition jobs :: "store \<Rightarrow> addr list \<Rightarrow> job list" where
  "jobs st as = map (\<lambda>a. the (job_at st a)) as"

lemma jobs_simps [simp]:
  "jobs st [] = []" "jobs st (a # as) = the (job_at st a) # jobs st as"
  "jobs st (as @ bs) = jobs st as @ jobs st bs"
  by (simp_all add: jobs_def)

lemma bufs_of_simps [simp]:
  "bufs_of st [] = []"
  "bufs_of st (a # as) = (case buf_of st a of None \<Rightarrow> bufs_of st as | Some b \<Rightarrow> b # bufs_of st as)"
  "bufs_of st (as @ bs) = bufs_of st as @ bufs_of st bs"
  by (simp_all add: bufs_of_def List.map_filter_def split: option.split)

lemma set_bufs_of: "b \<in> set (bufs_of st as) \<longleftrightarrow> (\<exists>a \<in> set as. buf_of st a = Some b)"
  by (induction as) (auto split: option.splits)


section \<open>Linking keeps what is represented\<close>

definition same_payloads :: "store \<Rightarrow> store \<Rightarrow> bool" where
  "same_payloads st st' \<longleftrightarrow> st_bufs st' = st_bufs st \<and> st_trace st' = st_trace st \<and>
     (\<lambda>a. map_option payload (st_msgs st' a)) = (\<lambda>a. map_option payload (st_msgs st a))"

lemma same_payloads_refl [simp]: "same_payloads st st"
  by (simp add: same_payloads_def)

lemma same_payloads_trans: "same_payloads a b \<Longrightarrow> same_payloads b c \<Longrightarrow> same_payloads a c"
  by (simp add: same_payloads_def)

lemma same_payloads_at:
  assumes "same_payloads st st'"
  shows "buf_of st' a = buf_of st a" "job_at st' a = job_at st a"
    "st_msgs st' a = None \<longleftrightarrow> st_msgs st a = None"
proof -
  have eq: "map_option payload (st_msgs st' a) = map_option payload (st_msgs st a)"
    using assms by (auto simp: same_payloads_def dest: fun_cong)
  have bufs: "bytes_of st' = bytes_of st"
    using assms unfolding same_payloads_def bytes_of_def by metis
  show none: "st_msgs st' a = None \<longleftrightarrow> st_msgs st a = None"
    using eq by (metis option.map_disc_iff)
  show "buf_of st' a = buf_of st a" "job_at st' a = job_at st a"
  proof (induction "st_msgs st a")
    case None
    with none show "buf_of st' a = buf_of st a" "job_at st' a = job_at st a"
      by (simp_all add: buf_of_def job_at_def)
  next
    case (Some m)
    with eq obtain m' where "st_msgs st' a = Some m'" "payload m' = payload m"
      by (metis map_option_eq_Some)
    with Some bufs show "buf_of st' a = buf_of st a" "job_at st' a = job_at st a"
      by (simp_all add: buf_of_def job_at_def flip: Some)
  qed
qed

lemma same_payloads_ok:
  assumes "same_payloads st st'"
  shows "store_ok st' as = store_ok st as" "jobs st' as = jobs st as"
proof -
  have "buf_of st' = buf_of st" and "dom (st_msgs st') = dom (st_msgs st)"
    using same_payloads_at [OF assms] by (auto simp: dom_def)
  then show "store_ok st' as = store_ok st as" "jobs st' as = jobs st as"
    using assms same_payloads_at(2) [OF assms]
    by (simp_all add: store_ok_def bufs_of_def jobs_def same_payloads_def)
qed

lemma set_next_live:
  assumes "st_msgs st a \<noteq> None"
  obtains st' where "set_next a p st = Some st'" and "same_payloads st st'"
    and "st_msgs st' a = map_option (\<lambda>m. m\<lparr>next_msg := p\<rparr>) (st_msgs st a)"
    and "\<And>b. b \<noteq> a \<Longrightarrow> st_msgs st' b = st_msgs st b"
proof -
  from assms obtain m where m: "st_msgs st a = Some m" by blast
  then show thesis
    by (intro that [of "st\<lparr>st_msgs := (st_msgs st)(a \<mapsto> m\<lparr>next_msg := p\<rparr>)\<rparr>"])
      (simp_all add: set_next_def same_payloads_def fun_eq_iff)
qed

lemma chain_frame:
  "(\<And>a. a \<in> set as \<Longrightarrow> st_msgs st' a = st_msgs st a) \<Longrightarrow> chain st' p as = chain st p as"
  by (induction as arbitrary: p) (auto split: option.split)

text \<open>Appending to a chain whose last cell is redirected to the new message.\<close>

lemma chain_append_last:
  assumes "chain st p as" "as \<noteq> []" "distinct (as @ [a])"
    and "\<And>b. b \<in> set as \<Longrightarrow> b \<noteq> last as \<Longrightarrow> st_msgs st' b = st_msgs st b"
    and "st_msgs st' (last as) = map_option (\<lambda>m. m\<lparr>next_msg := Some a\<rparr>) (st_msgs st (last as))"
    and "st_msgs st' a = Some m" "next_msg m = None"
  shows "chain st' p (as @ [a])"
  using assms
proof (induction as arbitrary: p)
  case Nil
  then show ?case by simp
next
  case (Cons b bs)
  obtain mb where mb: "st_msgs st b = Some mb" "chain st (next_msg mb) bs"
    using Cons.prems(1) by (auto split: option.splits)
  show ?case
  proof (cases "bs = []")
    case True
    with Cons.prems mb show ?thesis by auto
  next
    case False
    then have "b \<noteq> last (b # bs)" using Cons.prems(3) last_in_set [of bs] by auto
    then have "st_msgs st' b = st_msgs st b" using Cons.prems(4) [of b] by simp
    moreover have "chain st' (next_msg mb) (bs @ [a])"
      using Cons.prems mb False by (intro Cons.IH) auto
    ultimately show ?thesis using Cons.prems(1) mb by simp
  qed
qed

lemma chain_live: "chain st p as \<Longrightarrow> a \<in> set as \<Longrightarrow> st_msgs st a \<noteq> None"
  by (induction as arbitrary: p) (auto split: option.splits)

text \<open>
  The critical section of the enqueue: with \<open>b\<close> the messages already taken by the worker, \<open>q\<close> the
  queue and \<open>a\<close> the new message, the queue becomes \<open>q @ [a]\<close>.
\<close>

lemma worker_append_ok:
  assumes q: "queue_ok w st q" and b: "chain st p b" and ok: "store_ok st (b @ q @ [a])"
  obtains w' st' where "worker_append w a st = Some (w', st')"
    and "queue_ok w' st' (q @ [a])" and "chain st' p b" and "same_payloads st st'"
    and "w' = w\<lparr>pending_head := pending_head w', pending_tail := pending_tail w'\<rparr>"
proof -
  have dist: "distinct (b @ q @ [a])" and live: "\<And>x. x \<in> set (b @ q @ [a]) \<Longrightarrow> st_msgs st x \<noteq> None"
    using ok unfolding store_ok_def by blast+
  have b_neq: "x \<noteq> a" "x \<notin> set q" if "x \<in> set b" for x using dist that by auto
  obtain s1 where s1: "set_next a None st = Some s1" "same_payloads st s1"
    and s1a: "st_msgs s1 a = map_option (\<lambda>m. m\<lparr>next_msg := None\<rparr>) (st_msgs st a)"
    and s1o: "\<And>x. x \<noteq> a \<Longrightarrow> st_msgs s1 x = st_msgs st x"
    using set_next_live [of st a None] live [of a] by auto
  obtain ma where ma: "st_msgs s1 a = Some ma" "next_msg ma = None"
    using s1a live [of a] by auto
  show thesis
  proof (cases "q = []")
    case True
    have "chain s1 p b" using b b_neq s1o chain_frame [of b s1 st] by blast
    with True q s1 ma show ?thesis
      by (intro that [of "w\<lparr>pending_head := Some a, pending_tail := Some a\<rparr>" s1])
        (auto simp: worker_append_def queue_ok_def)
  next
    case False
    then have tail: "pending_tail w = Some (last q)" using q by (simp add: queue_ok_def)
    have neq: "last q \<noteq> a" "last q \<in> set q" using dist False by auto
    have "st_msgs s1 (last q) \<noteq> None" using live neq s1o by auto
    then obtain s2 where s2: "set_next (last q) (Some a) s1 = Some s2" "same_payloads s1 s2"
      and s2l: "st_msgs s2 (last q) = map_option (\<lambda>m. m\<lparr>next_msg := Some a\<rparr>) (st_msgs s1 (last q))"
      and s2o: "\<And>x. x \<noteq> last q \<Longrightarrow> st_msgs s2 x = st_msgs s1 x"
      using set_next_live [of s1 "last q" "Some a"] by blast
    have "chain s2 p b"
      using b b_neq neq s1o s2o chain_frame [of b s2 st] by metis
    moreover have "st_msgs s2 x = st_msgs st x" if "x \<in> set q" "x \<noteq> last q" for x
      using that s1o [of x] s2o [of x] dist by auto
    then have "chain s2 (pending_head w) (q @ [a])"
      using q False dist neq s1o [of "last q"] s2o [of a] s2l ma
      by (intro chain_append_last [of st]) (auto simp: queue_ok_def)
    ultimately show ?thesis
      using False tail s1 s2 same_payloads_trans [OF s1(2) s2(2)] q
      by (intro that [of "w\<lparr>pending_tail := Some a\<rparr>" s2]) (auto simp: worker_append_def queue_ok_def)
  qed
qed

section \<open>Freeing the first message\<close>

text \<open>The log is not part of what is represented.\<close>

lemma log_res_fields [simp]:
  "st_msgs (log_res es st) = st_msgs st" "st_bufs (log_res es st) = st_bufs st"
  "st_trace (log_res es st) = st_trace st @ es"
  by (simp_all add: log_res_def)

lemma log_res_frame [simp]:
  "store_ok (log_res es st) xs = store_ok st xs" "jobs (log_res es st) xs = jobs st xs"
  "chain (log_res es st) p xs = chain st p xs"
proof -
  have "bytes_of (log_res es st) = bytes_of st"
    by (simp add: bytes_of_def fun_eq_iff split: option.split)
  then have "buf_of (log_res es st) = buf_of st" "job_at (log_res es st) = job_at st"
    by (simp_all add: buf_of_def job_at_def fun_eq_iff)
  then show "store_ok (log_res es st) xs = store_ok st xs" "jobs (log_res es st) xs = jobs st xs"
    by (simp_all add: store_ok_def bufs_of_def jobs_def)
  show "chain (log_res es st) p xs = chain st p xs"
    by (rule chain_frame) simp
qed

text \<open>What both ways of freeing a message do to the heap.\<close>

definition dispose :: "addr \<Rightarrow> store \<Rightarrow> store option" where
  "dispose a st = do { m \<leftarrow> st_msgs st a; st \<leftarrow> free_data (data_ptr (payload m)) st; free_msg a st }"

definition fd_events :: "worker_payload \<Rightarrow> res_event list" where
  "fd_events p = (case p of
     WORKER_MSG_STREAM_CLIENT c \<Rightarrow> if socket_is_valid (sc_fd c) then [Release (R_fd (sc_fd c))] else []
   | WORKER_MSG_DATAGRAM_PACKET d \<Rightarrow> [])"

lemma free_processed_dispose: "free_processed_worker_msg a st = dispose a st"
  by (auto simp: free_processed_worker_msg_def dispose_def free_data_def
    split: worker_payload.split intro!: arg_cong2 [where f = Option.bind])

lemma free_worker_dispose:
  assumes "st_msgs st a = Some m"
  shows "free_worker_msg a st = map_option (log_res (fd_events (payload m))) (dispose a st)"
  using assms by (auto simp: free_worker_msg_def dispose_def free_data_def free_msg_def fd_events_def
    log_res_def split: worker_payload.split option.split)

lemma dispose_ok:
  assumes "store_ok st (a # as)"
  obtains st' where "dispose a st = Some st'" and "store_ok st' as"
    and "\<And>p xs. set xs \<subseteq> set as \<Longrightarrow> chain st' p xs = chain st p xs"
    and "\<And>xs. set xs \<subseteq> set as \<Longrightarrow> jobs st' xs = jobs st xs"
    and "st_trace st' = st_trace st"
proof -
  have "a \<in> dom (st_msgs st)" using assms by (simp add: store_ok_def)
  then obtain m where m: "st_msgs st a = Some m" by blast
  define st' where "st' = st\<lparr>st_bufs := (case data_ptr (payload m) of None \<Rightarrow> st_bufs st
      | Some b \<Rightarrow> (st_bufs st)(b := None)), st_msgs := (st_msgs st)(a := None)\<rparr>"
  have buf: "buf_of st a = data_ptr (payload m)" by (simp add: buf_of_def m)
  have "\<And>b. data_ptr (payload m) = Some b \<Longrightarrow> b \<in> dom (st_bufs st)"
    using assms by (auto simp: store_ok_def buf)
  then have "dispose a st = Some st'"
    by (force simp: dispose_def m free_data_def free_msg_def st'_def split: option.split)
  moreover have other: "x \<in> set as \<Longrightarrow> st_msgs st' x = st_msgs st x" for x
    using assms by (auto simp: st'_def store_ok_def)
  moreover have bufs: "xs \<subseteq> set as \<Longrightarrow> bufs_of st' ys = bufs_of st ys" if "xs = set ys" for xs ys
    using that other by (induction ys arbitrary: xs) (auto simp: buf_of_def split: option.split)
  moreover have "store_ok st' as"
    using assms bufs [OF refl, of as]
    by (auto simp: store_ok_def st'_def buf split: option.splits if_splits)
  moreover have "x \<in> set as \<Longrightarrow> job_at st' x = job_at st x" for x
  proof -
    assume x: "x \<in> set as"
    then have "x \<in> dom (st_msgs st)" using assms by (simp add: store_ok_def)
    then obtain mx where mx: "st_msgs st x = Some mx" by blast
    have "buf_of st a = Some b \<Longrightarrow> data_ptr (payload mx) \<noteq> Some b" for b
      using assms x mx set_bufs_of [of b st as] by (auto simp: store_ok_def buf_of_def)
    then show ?thesis
      using other [OF x] mx by (auto simp: job_at_def bytes_of_def buf st'_def split: option.splits)
  qed
  ultimately show thesis
    by (intro that [of st']) (auto simp: jobs_def st'_def intro!: chain_frame)
qed

end
