(* ===== verification/Worker.thy ===== *)
theory Worker
  imports Worker_Queue
begin

text \<open>
  The operations of a worker thread (\<^verbatim>\<open>src/worker.c\<close>): creation and release, start, stop and
  join, the wake-up socket, the enqueue functions called by the listeners and the callback that
  runs the queued messages. Calls of libevent, of the sockets and of the allocator are arguments
  that hold their results; the heap of \<open>Worker_Queue\<close> makes every dereference and every \<^verbatim>\<open>free\<close>
  observable.
\<close>

section \<open>Creation and release of resources\<close>

text \<open>Which resources are held after a log of events; \<open>None\<close> is a release of something not held.\<close>

fun ledger :: "resource list \<Rightarrow> res_event list \<Rightarrow> resource list option" where
  "ledger rs [] = Some rs"
| "ledger rs (Acquire r # es) = (if r \<in> set rs then None else ledger (r # rs) es)"
| "ledger rs (Release r # es) = (if r \<in> set rs then ledger (remove1 r rs) es else None)"
| "ledger rs (Klog_Free # es) = ledger rs es"

lemma ledger_append: "ledger rs (es @ fs) = Option.bind (ledger rs es) (\<lambda>rs. ledger rs fs)"
  by (induction rs es rule: ledger.induct) simp_all

text \<open>The results of the calls that \<^verbatim>\<open>worker_init\<close> makes, in order.\<close>

record init_calls =
  ic_event_base_new :: bool
  ic_mutex_init :: bool
  ic_errno :: "errno option"
  ic_socketpair :: "(int \<times> int) result"
  ic_event_new :: bool
  ic_event_add :: bool

definition worker_zero :: worker where
  "worker_zero = \<lparr>w_id = 0, w_base = False, w_started = False, w_stopping = False,
     notify_recv_fd = 0, notify_send_fd = 0, w_notify_event = False,
     pending_head = None, pending_tail = None\<rparr>"

definition worker_init :: "init_calls \<Rightarrow> 32 word \<Rightarrow> store \<Rightarrow> unit result \<times> worker \<times> store" where
  "worker_init c i st =
     (let w = worker_zero\<lparr>w_id := i, notify_recv_fd := EVUTIL_INVALID_SOCKET,
                notify_send_fd := EVUTIL_INVALID_SOCKET\<rparr> in
      if \<not> ic_event_base_new c then (Inl ENOMEM, w, st)
      else let w = w\<lparr>w_base := True\<rparr>; st = log_res [Acquire (R_base i)] st in
      if \<not> ic_mutex_init c then
        (Inl (case ic_errno c of Some e \<Rightarrow> e | None \<Rightarrow> EINVAL), w\<lparr>w_base := False\<rparr>,
         log_res [Release (R_base i)] st)
      else let st = log_res [Acquire (R_mutex i)] st in
      case ic_socketpair c of
        Inl e \<Rightarrow> (Inl e, w\<lparr>w_base := False\<rparr>, log_res [Release (R_mutex i), Release (R_base i)] st)
      | Inr (fd0, fd1) \<Rightarrow>
          let w = w\<lparr>notify_recv_fd := fd0, notify_send_fd := fd1\<rparr>;
              st = log_res [Acquire (R_fd fd0), Acquire (R_fd fd1)] st;
              w_closed = w\<lparr>notify_recv_fd := EVUTIL_INVALID_SOCKET,
                           notify_send_fd := EVUTIL_INVALID_SOCKET, w_base := False\<rparr>;
              closing = [Release (R_fd fd0), Release (R_fd fd1), Release (R_mutex i), Release (R_base i)] in
          if \<not> ic_event_new c then (Inl ENOMEM, w_closed, log_res closing st)
          else let st = log_res [Acquire (R_event i)] st in
          if \<not> ic_event_add c then (Inl EINVAL, w_closed, log_res (Release (R_event i) # closing) st)
          else (Inr (), w\<lparr>w_notify_event := True\<rparr>, st))"

section \<open>Wake-ups\<close>

text \<open>
  The notify socket holds \<open>n\<close> bytes. \<open>send n\<close> is what sending one more byte returns: \<open>None\<close> when it
  was taken, an error otherwise. \<open>recv n\<close> is what reading up to 128 bytes returns, negative on
  error and never more than there is.
\<close>

definition notify_worker :: "(nat \<Rightarrow> errno option) \<Rightarrow> nat \<Rightarrow> errno option \<times> nat" where
  "notify_worker send n =
     (case send n of
        None \<Rightarrow> (None, n + 1)
      | Some e \<Rightarrow> if e = EAGAIN then (None, n) else (Some e, n))"

function drain_notify_fd :: "(nat \<Rightarrow> int) \<Rightarrow> nat \<Rightarrow> nat" where
  "drain_notify_fd recv n =
     (let k = min (recv n) (int n) in
      if k < 0 then n
      else if k = 0 then n
      else if k < 128 then n - nat k
      else drain_notify_fd recv (n - nat k))"
  by pat_completeness auto
termination
  by (relation "measure snd") auto

declare drain_notify_fd.simps [simp del]

section \<open>Start, stop, join\<close>

definition worker_start :: "errno option \<Rightarrow> worker \<Rightarrow> unit result \<times> worker" where
  "worker_start thread_create w =
     (if \<not> w_base w then (Inl EINVAL, w)
      else if w_started w then (Inr (), w)
      else case thread_create of
        Some rc \<Rightarrow> (Inl rc, w)
      | None \<Rightarrow> (Inr (), w\<lparr>w_started := True\<rparr>))"

definition worker_stop :: "(nat \<Rightarrow> errno option) \<Rightarrow> worker \<Rightarrow> nat \<Rightarrow> worker \<times> nat" where
  "worker_stop send w n =
     (let w = w\<lparr>w_stopping := True\<rparr> in
      (w, if w_started w then snd (notify_worker send n) else n))"

text \<open>
  \<^verbatim>\<open>worker_join\<close> waits for the thread to end; \<open>until_exit\<close> is what the thread did to the worker and
  the heap until then.
\<close>

definition worker_join ::
  "(worker \<times> store \<Rightarrow> worker \<times> store) \<Rightarrow> worker \<times> store \<Rightarrow> worker \<times> store" where
  "worker_join until_exit ws =
     (if \<not> w_started (fst ws) then ws
      else let (w, st) = until_exit ws in (w\<lparr>w_started := False\<rparr>, st))"

section \<open>Running the queue\<close>

text \<open>The functions of the other components that the worker calls, on the state \<open>'app\<close> they share.\<close>

record 'app handlers =
  worker_adopt_client_fd_call :: "32 word \<Rightarrow> worker_stream_client_msg \<Rightarrow> 'app \<Rightarrow> 'app"
  cleanup_idle_datagram_clients_call :: "addr \<Rightarrow> 'app \<Rightarrow> 'app"
  datagram_route_handle_packet_call ::
    "32 word \<Rightarrow> worker_datagram_packet_msg \<Rightarrow> byte list \<Rightarrow> 'app \<Rightarrow> 'app"

definition worker_process_msg ::
  "'app handlers \<Rightarrow> worker \<Rightarrow> addr \<Rightarrow> store \<Rightarrow> 'app \<Rightarrow> 'app option" where
  "worker_process_msg H w msg st app = do {
     m \<leftarrow> st_msgs st msg;
     (case payload m of
        WORKER_MSG_STREAM_CLIENT c \<Rightarrow> Some (worker_adopt_client_fd_call H (w_id w) c app)
      | WORKER_MSG_DATAGRAM_PACKET d \<Rightarrow> do {
          bs \<leftarrow> bytes_of st (payload m);
          Some (datagram_route_handle_packet_call H (w_id w) d bs
                  (cleanup_idle_datagram_clients_call H (dp_ctx d) app)) }) }"

text \<open>One turn of the loop of \<^verbatim>\<open>worker_process_pending\<close>: the next pointer is read before the free.\<close>

definition worker_process_one ::
  "'app handlers \<Rightarrow> worker \<Rightarrow> addr \<Rightarrow> store \<Rightarrow> 'app \<Rightarrow> (addr option \<times> store \<times> 'app) option" where
  "worker_process_one H w msg st app = do {
     m \<leftarrow> st_msgs st msg;
     app \<leftarrow> worker_process_msg H w msg st app;
     st \<leftarrow> free_processed_worker_msg msg st;
     Some (next_msg m, st, app) }"

partial_function (option) worker_process_loop ::
  "'app handlers \<Rightarrow> worker \<Rightarrow> addr option \<Rightarrow> store \<Rightarrow> 'app \<Rightarrow> (store \<times> 'app) option" where
  "worker_process_loop H w p st app =
     (case p of
        None \<Rightarrow> Some (st, app)
      | Some msg \<Rightarrow> do {
          r \<leftarrow> worker_process_one H w msg st app;
          worker_process_loop H w (fst r) (fst (snd r)) (snd (snd r)) })"

definition worker_process_pending ::
  "'app handlers \<Rightarrow> worker \<Rightarrow> store \<Rightarrow> 'app \<Rightarrow> (worker \<times> store \<times> 'app) option" where
  "worker_process_pending H w st app =
     (let (msg, w) = worker_take_pending w in
      map_option (Pair w) (worker_process_loop H w msg st app))"

text \<open>\<^verbatim>\<open>worker_notify_cb\<close>; the last component tells that the event loop is broken.\<close>

definition worker_notify_cb ::
  "'app handlers \<Rightarrow> (nat \<Rightarrow> int) \<Rightarrow> worker \<Rightarrow> store \<Rightarrow> 'app \<Rightarrow> nat \<Rightarrow>
   (worker \<times> store \<times> 'app \<times> nat \<times> bool) option" where
  "worker_notify_cb H recv w st app n =
     (let n = drain_notify_fd recv n in
      map_option (\<lambda>(w, st, app). (w, st, app, n, w_stopping w)) (worker_process_pending H w st app))"

section \<open>Release\<close>

partial_function (option) free_pending_loop :: "addr option \<Rightarrow> store \<Rightarrow> store option" where
  "free_pending_loop p st =
     (case p of
        None \<Rightarrow> Some st
      | Some msg \<Rightarrow> do {
          m \<leftarrow> st_msgs st msg;
          st \<leftarrow> free_worker_msg msg st;
          free_pending_loop (next_msg m) st })"

text \<open>The part of \<^verbatim>\<open>worker_free\<close> after the thread was stopped and joined.\<close>

definition worker_release :: "worker \<Rightarrow> store \<Rightarrow> (worker \<times> store) option" where
  "worker_release w st =
     (let (msg, w) = worker_take_pending w in do {
        st \<leftarrow> free_pending_loop msg st;
        let (w, st) = (if w_notify_event w
            then (w\<lparr>w_notify_event := False\<rparr>, log_res [Release (R_event (w_id w))] st) else (w, st));
        let (w, st) = (if socket_is_valid (notify_recv_fd w)
            then (w\<lparr>notify_recv_fd := EVUTIL_INVALID_SOCKET\<rparr>, log_res [Release (R_fd (notify_recv_fd w))] st)
            else (w, st));
        let (w, st) = (if socket_is_valid (notify_send_fd w)
            then (w\<lparr>notify_send_fd := EVUTIL_INVALID_SOCKET\<rparr>, log_res [Release (R_fd (notify_send_fd w))] st)
            else (w, st));
        let st = log_res [Release (R_mutex (w_id w))] st;
        let (w, st) = (if w_base w
            then (w\<lparr>w_base := False\<rparr>, log_res [Release (R_base (w_id w))] st) else (w, st));
        Some (w, log_res [Klog_Free] st) })"

definition worker_free ::
  "(nat \<Rightarrow> errno option) \<Rightarrow> (worker \<times> store \<Rightarrow> worker \<times> store) \<Rightarrow> worker \<Rightarrow> store \<Rightarrow> nat \<Rightarrow>
   (worker \<times> store) option" where
  "worker_free send until_exit w st n =
     (let (w, n) = worker_stop send w n;
          (w, st) = worker_join until_exit (w, st) in
      worker_release w st)"

section \<open>Enqueueing\<close>

text \<open>
  The critical section of \<^verbatim>\<open>worker_enqueue_msg\<close>: whether the message was queued.
\<close>

definition enqueue_locked :: "worker \<Rightarrow> addr \<Rightarrow> store \<Rightarrow> (bool \<times> worker \<times> store) option" where
  "enqueue_locked w msg st =
     (if w_stopping w then Some (False, w, st)
      else map_option (Pair True) (worker_append w msg st))"

definition worker_enqueue_msg ::
  "(nat \<Rightarrow> errno option) \<Rightarrow> worker \<Rightarrow> addr \<Rightarrow> store \<Rightarrow> nat \<Rightarrow>
   (unit result \<times> worker \<times> store \<times> nat) option" where
  "worker_enqueue_msg send w msg st n = do {
     (queued, w, st) \<leftarrow> enqueue_locked w msg st;
     (if \<not> queued then map_option (\<lambda>st. (Inl ECANCELED, w, st, n)) (free_worker_msg msg st)
      else Some (Inr (), w, st, snd (notify_worker send n))) }"

definition memcpy_storage :: "sockaddr \<Rightarrow> nat \<Rightarrow> sockaddr" where
  "memcpy_storage a len = take len a @ replicate (SIZEOF_SS - len) 0"

text \<open>\<open>calloc\<close> and \<open>malloc\<close> are the results of the two allocations, \<open>None\<close> when they fail.\<close>

definition stream_client_payload ::
  "route \<Rightarrow> int \<Rightarrow> sockaddr option \<Rightarrow> nat \<Rightarrow> worker_payload" where
  "stream_client_payload r fd addr addr_len =
     WORKER_MSG_STREAM_CLIENT
       (case addr of
          Some a \<Rightarrow> if addr_len > 0
            then \<lparr>sc_route = r, sc_fd = fd, sc_peer_addr = memcpy_storage a addr_len, sc_peer_addr_len = addr_len\<rparr>
            else \<lparr>sc_route = r, sc_fd = fd, sc_peer_addr = replicate SIZEOF_SS 0, sc_peer_addr_len = 0\<rparr>
        | None \<Rightarrow>
            \<lparr>sc_route = r, sc_fd = fd, sc_peer_addr = replicate SIZEOF_SS 0, sc_peer_addr_len = 0\<rparr>)"

definition worker_enqueue_stream_client ::
  "(nat \<Rightarrow> errno option) \<Rightarrow> addr option \<Rightarrow> worker \<Rightarrow> route option \<Rightarrow> int \<Rightarrow> sockaddr option \<Rightarrow> nat \<Rightarrow>
   store \<Rightarrow> nat \<Rightarrow> (unit result \<times> worker \<times> store \<times> nat) option" where
  "worker_enqueue_stream_client send calloc w ro fd addr addr_len st n =
     (case ro of
        None \<Rightarrow> Some (Inl EINVAL, w, st, n)
      | Some r \<Rightarrow>
          if \<not> socket_is_valid fd then Some (Inl EINVAL, w, st, n)
          else if addr_len > SIZEOF_SS then Some (Inl EINVAL, w, st, n)
          else case calloc of
            None \<Rightarrow> Some (Inl ENOMEM, w, st, n)
          | Some msg \<Rightarrow>
              worker_enqueue_msg send w msg
                (st\<lparr>st_msgs := (st_msgs st)(msg \<mapsto>
                   \<lparr>next_msg = None, payload = stream_client_payload r fd addr addr_len\<rparr>)\<rparr>) n)"

definition worker_enqueue_datagram_packet ::
  "(nat \<Rightarrow> errno option) \<Rightarrow> addr option \<Rightarrow> addr option \<Rightarrow> worker \<Rightarrow> addr \<Rightarrow> route option \<Rightarrow> int \<Rightarrow>
   sockaddr option \<Rightarrow> nat \<Rightarrow> byte list option \<Rightarrow> nat \<Rightarrow> store \<Rightarrow> nat \<Rightarrow>
   (unit result \<times> worker \<times> store \<times> nat) option" where
  "worker_enqueue_datagram_packet send calloc malloc w ctx ctx_route ctx_listen_fd
       peer_addr peer_addr_len data data_len st n =
     (case ctx_route of
        None \<Rightarrow> Some (Inl EINVAL, w, st, n)
      | Some r \<Rightarrow>
          if \<not> socket_is_valid ctx_listen_fd then Some (Inl EINVAL, w, st, n)
          else case peer_addr of
            None \<Rightarrow> Some (Inl EINVAL, w, st, n)
          | Some peer \<Rightarrow>
              if peer_addr_len = 0 \<or> peer_addr_len > SIZEOF_SS then Some (Inl EINVAL, w, st, n)
              else if data = None \<and> data_len > 0 then Some (Inl EINVAL, w, st, n)
              else case calloc of
                None \<Rightarrow> Some (Inl ENOMEM, w, st, n)
              | Some msg \<Rightarrow>
                  let d = \<lparr>dp_route = r, dp_ctx = ctx, dp_peer_addr = memcpy_storage peer peer_addr_len,
                           dp_peer_addr_len = peer_addr_len, dp_data = None, dp_data_len = 0\<rparr>;
                      put = (\<lambda>d st. st\<lparr>st_msgs := (st_msgs st)(msg \<mapsto>
                               \<lparr>next_msg = None, payload = WORKER_MSG_DATAGRAM_PACKET d\<rparr>)\<rparr>) in
                  if data_len > 0 then
                    (case malloc of
                       None \<Rightarrow> map_option (\<lambda>st. (Inl ENOMEM, w, st, n)) (free_msg msg (put d st))
                     | Some b \<Rightarrow>
                         worker_enqueue_msg send w msg
                           (put (d\<lparr>dp_data := Some b, dp_data_len := data_len\<rparr>)
                              (st\<lparr>st_bufs := (st_bufs st)(b \<mapsto> take data_len (the data))\<rparr>)) n)
                  else worker_enqueue_msg send w msg (put d st) n)"

section \<open>The loop runs every job once, in order\<close>

text \<open>What handling one job means, whatever its representation on the heap.\<close>

fun run_job :: "'app handlers \<Rightarrow> 32 word \<Rightarrow> job \<Rightarrow> 'app \<Rightarrow> 'app" where
  "run_job H i (WORKER_MSG_STREAM_CLIENT c, _) app = worker_adopt_client_fd_call H i c app"
| "run_job H i (WORKER_MSG_DATAGRAM_PACKET d, bs) app =
     datagram_route_handle_packet_call H i d bs (cleanup_idle_datagram_clients_call H (dp_ctx d) app)"

lemma job_at_live:
  assumes "store_ok st as" and "a \<in> set as"
  obtains m bs where "st_msgs st a = Some m" and "bytes_of st (payload m) = Some bs"
    and "job_at st a = Some (payload m, bs)"
proof -
  have "a \<in> dom (st_msgs st)" using assms by (simp add: store_ok_def)
  then obtain m where m: "st_msgs st a = Some m" by blast
  have "\<exists>bs. bytes_of st (payload m) = Some bs"
  proof (cases "data_ptr (payload m)")
    case (Some b)
    then have "b \<in> set (bufs_of st as)"
      using assms(2) m by (subst set_bufs_of) (force simp: buf_of_def)
    then have "b \<in> dom (st_bufs st)" using assms(1) by (simp add: store_ok_def)
    with Some show ?thesis by (auto simp: bytes_of_def)
  qed (simp add: bytes_of_def)
  then show thesis using that m by (auto simp: job_at_def)
qed

lemma worker_process_one_ok:
  assumes ok: "store_ok st (a # as)" and c: "chain st (Some a) (a # b)" and "set b \<subseteq> set as"
  obtains p st' where
    "worker_process_one H w a st app = Some (p, st', run_job H (w_id w) (the (job_at st a)) app)"
    and "chain st' p b" and "store_ok st' as"
    and "\<And>p xs. set xs \<subseteq> set as \<Longrightarrow> chain st' p xs = chain st p xs"
    and "\<And>xs. set xs \<subseteq> set as \<Longrightarrow> jobs st' xs = jobs st xs"
    and "st_trace st' = st_trace st"
proof -
  obtain m bs where m: "st_msgs st a = Some m" "bytes_of st (payload m) = Some bs"
    "job_at st a = Some (payload m, bs)"
    using ok by (auto elim: job_at_live)
  obtain st' where st': "dispose a st = Some st'" "store_ok st' as"
    "\<And>p xs. set xs \<subseteq> set as \<Longrightarrow> chain st' p xs = chain st p xs"
    "\<And>xs. set xs \<subseteq> set as \<Longrightarrow> jobs st' xs = jobs st xs" "st_trace st' = st_trace st"
    using dispose_ok [OF ok] by blast
  have "worker_process_msg H w a st app = Some (run_job H (w_id w) (payload m, bs) app)"
    using m by (cases "payload m") (simp_all add: worker_process_msg_def)
  then have "worker_process_one H w a st app =
      Some (next_msg m, st', run_job H (w_id w) (the (job_at st a)) app)"
    using m st'(1) by (simp add: worker_process_one_def free_processed_dispose)
  moreover have "chain st' (next_msg m) b" using c m st'(3) assms(3) by simp
  ultimately show thesis using st' that by blast
qed

lemma worker_process_loop_ok:
  assumes "chain st p b" and "store_ok st (b @ q)"
  shows "\<exists>st'. worker_process_loop H w p st app =
      Some (st', fold (run_job H (w_id w)) (jobs st b) app) \<and> store_ok st' q \<and>
      (\<forall>r. chain st' r q = chain st r q) \<and> jobs st' q = jobs st q \<and> st_trace st' = st_trace st"
  using assms
proof (induction b arbitrary: p st app)
  case Nil
  then show ?case by (simp add: worker_process_loop.simps)
next
  case (Cons a b)
  then have p: "p = Some a" by simp
  obtain p' st' where one:
    "worker_process_one H w a st app = Some (p', st', run_job H (w_id w) (the (job_at st a)) app)"
    "chain st' p' b" "store_ok st' (b @ q)"
    and frame: "\<And>p xs. set xs \<subseteq> set (b @ q) \<Longrightarrow> chain st' p xs = chain st p xs"
    "\<And>xs. set xs \<subseteq> set (b @ q) \<Longrightarrow> jobs st' xs = jobs st xs" "st_trace st' = st_trace st"
    using worker_process_one_ok [of st a "b @ q" b H w app] Cons.prems p by auto
  then show ?case
    using Cons.IH [OF one(2,3)] p by (subst worker_process_loop.simps) force
qed

section \<open>Releasing the queue\<close>

lemma free_pending_loop_ok:
  assumes "chain st p q" and "store_ok st q"
  shows "\<exists>st'. free_pending_loop p st = Some st' \<and> st_msgs st' = Map.empty \<and> st_bufs st' = Map.empty \<and>
      st_trace st' = st_trace st @ concat (map (fd_events \<circ> fst) (jobs st q))"
  using assms
proof (induction q arbitrary: p st)
  case Nil
  then show ?case by (simp add: free_pending_loop.simps store_ok_def)
next
  case (Cons a q)
  obtain m bs where m: "st_msgs st a = Some m" "job_at st a = Some (payload m, bs)"
    using job_at_live [OF Cons.prems(2)] by (metis list.set_intros(1))
  have p: "p = Some a" "chain st (next_msg m) q" using Cons.prems(1) m(1) by simp_all
  obtain st1 where st1: "dispose a st = Some st1" "store_ok st1 q"
    "\<And>p xs. set xs \<subseteq> set q \<Longrightarrow> chain st1 p xs = chain st p xs"
    "\<And>xs. set xs \<subseteq> set q \<Longrightarrow> jobs st1 xs = jobs st xs" "st_trace st1 = st_trace st"
    using dispose_ok [OF Cons.prems(2)] by blast
  let ?st2 = "log_res (fd_events (payload m)) st1"
  have free: "free_worker_msg a st = Some ?st2" using free_worker_dispose m st1(1) by simp
  have "chain ?st2 (next_msg m) q" "store_ok ?st2 q"
    using p(2) st1(2,3) by simp_all
  from Cons.IH [OF this] obtain st' where st': "free_pending_loop (next_msg m) ?st2 = Some st'"
    "st_msgs st' = Map.empty" "st_bufs st' = Map.empty"
    "st_trace st' = st_trace ?st2 @ concat (map (fd_events \<circ> fst) (jobs ?st2 q))" by blast
  have "free_pending_loop p st = Some st'"
    using m(1) free st'(1) p(1) by (simp add: free_pending_loop.simps [of "Some a" st])
  moreover have "st_trace ?st2 = st_trace st @ fd_events (payload m)" by (simp add: log_res_def st1(5))
  ultimately show ?case using st'(2-4) st1(4) m(2) by (simp add: o_def)
qed


lemma queue_ok_take: "queue_ok w st q \<Longrightarrow> chain st (pending_head w) q"
  by (simp add: queue_ok_def)

lemma store_ok_Nil: "store_ok st [] \<Longrightarrow> st_msgs st = Map.empty \<and> st_bufs st = Map.empty"
  by (simp add: store_ok_def)

text \<open>
  Running the queue of a worker hands every queued message to its handler exactly once and in
  the order of the queue, with the packet bytes that were enqueued, and then frees every message
  and every packet buffer: no object is used after it was freed, none is freed twice and none is
  left. Sockets of adopted clients are not closed.
\<close>

lemma worker_process_pending_all:
  assumes "queue_ok w st q" and "store_ok st q"
  shows "\<exists>st'. worker_process_pending H w st app =
      Some (w\<lparr>pending_head := None, pending_tail := None\<rparr>, st',
            fold (run_job H (w_id w)) (jobs st q) app) \<and>
      st_msgs st' = Map.empty \<and> st_bufs st' = Map.empty \<and> st_trace st' = st_trace st"
proof -
  let ?w = "w\<lparr>pending_head := None, pending_tail := None\<rparr>"
  have "chain st (pending_head w) q" "store_ok st (q @ [])"
    using assms by (simp_all add: queue_ok_take)
  from worker_process_loop_ok [OF this, of H ?w app] show ?thesis
    by (auto simp: worker_process_pending_def worker_take_pending_def dest: store_ok_Nil)
qed

text \<open>A queue of one client and one packet, as the two enqueue functions leave it.\<close>

definition example_route :: route where
  "example_route = route_zero"

definition example_store :: store where
  "example_store = \<lparr>st_msgs = [1 \<mapsto> \<lparr>next_msg = Some 2, payload = stream_client_payload example_route 9 None 0\<rparr>,
       2 \<mapsto> \<lparr>next_msg = None, payload = WORKER_MSG_DATAGRAM_PACKET
         \<lparr>dp_route = example_route, dp_ctx = 5, dp_peer_addr = replicate SIZEOF_SS 0, dp_peer_addr_len = 16,
          dp_data = Some 3, dp_data_len = 2\<rparr>\<rparr>],
     st_bufs = [3 \<mapsto> [7, 8]], st_trace = []\<rparr>"

definition example_worker :: worker where
  "example_worker = worker_zero\<lparr>w_id := 1, w_base := True, notify_recv_fd := 4, notify_send_fd := 5,
     w_notify_event := True, pending_head := Some 1, pending_tail := Some 2\<rparr>"

lemma example_queue: "queue_ok example_worker example_store [1, 2]" "store_ok example_store [1, 2]"
  by (auto simp: queue_ok_def store_ok_def buf_of_def example_store_def example_worker_def
    stream_client_payload_def worker_zero_def)

definition log_handlers :: "int list handlers" where
  "log_handlers = \<lparr>worker_adopt_client_fd_call = (\<lambda>i c app. app @ [sc_fd c]),
     cleanup_idle_datagram_clients_call = (\<lambda>ctx app. app @ [int ctx]),
     datagram_route_handle_packet_call = (\<lambda>i d bs app. app @ map uint bs)\<rparr>"

lemma worker_process_pending_example:
  "map_option (\<lambda>(w, st, app). app) (worker_process_pending log_handlers example_worker example_store []) =
     Some [9, 5, 7, 8]"
proof -
  have "fold (run_job log_handlers 1) (jobs example_store [1, 2]) [] = [9, 5, 7, 8]"
    by (simp add: job_at_def bytes_of_def example_store_def stream_client_payload_def log_handlers_def)
  then show ?thesis
    using worker_process_pending_all [OF example_queue, of log_handlers "[]"]
    by (auto simp: example_worker_def)
qed

section \<open>The life of the resources\<close>

definition calls_ok :: "init_calls \<Rightarrow> bool" where
  "calls_ok c = (case ic_socketpair c of
     Inl _ \<Rightarrow> True | Inr (a, b) \<Rightarrow> a \<noteq> b \<and> socket_is_valid a \<and> socket_is_valid b)"

definition worker_resources :: "worker \<Rightarrow> resource list" where
  "worker_resources w = [R_event (w_id w), R_fd (notify_send_fd w), R_fd (notify_recv_fd w),
     R_mutex (w_id w), R_base (w_id w)]"

definition worker_ready :: "worker \<Rightarrow> bool" where
  "worker_ready w \<longleftrightarrow> w_base w \<and> w_notify_event w \<and> socket_is_valid (notify_recv_fd w) \<and>
     socket_is_valid (notify_send_fd w) \<and> notify_recv_fd w \<noteq> notify_send_fd w"

definition init_outcome :: "32 word \<Rightarrow> unit result \<Rightarrow> worker \<Rightarrow> store \<Rightarrow> bool" where
  "init_outcome i rc w st \<longleftrightarrow> st_msgs st = Map.empty \<and> st_bufs st = Map.empty \<and>
     (case rc of
        Inl _ \<Rightarrow> ledger [] (st_trace st) = Some [] \<and> \<not> w_base w
      | Inr _ \<Rightarrow> ledger [] (st_trace st) = Some (worker_resources w) \<and> worker_ready w \<and>
          queue_ok w st [] \<and> w_id w = i \<and> \<not> w_started w \<and> \<not> w_stopping w)"

lemma worker_init_outcome:
  assumes "calls_ok c" and "worker_init c i \<lparr>st_msgs = Map.empty, st_bufs = Map.empty, st_trace = []\<rparr> = (rc, w, st)"
  shows "init_outcome i rc w st"
  using assms
  by (auto simp: worker_init_def worker_zero_def Let_def calls_ok_def worker_resources_def worker_ready_def
    init_outcome_def queue_ok_def split: if_splits sum.splits)

definition client_fds :: "job list \<Rightarrow> int list" where
  "client_fds js = concat (map (\<lambda>j. case fst j of
     WORKER_MSG_STREAM_CLIENT c \<Rightarrow> if socket_is_valid (sc_fd c) then [sc_fd c] else []
   | WORKER_MSG_DATAGRAM_PACKET d \<Rightarrow> []) js)"

lemma client_fds_events: "concat (map (fd_events \<circ> fst) js) = map (Release \<circ> R_fd) (client_fds js)"
  by (induction js) (auto simp: client_fds_def fd_events_def split: worker_payload.split)

lemma ledger_release_fds:
  "distinct fds \<Longrightarrow> R_fd ` set fds \<inter> set rs = {} \<Longrightarrow>
   ledger (map R_fd fds @ rs) (map (Release \<circ> R_fd) fds) = Some rs"
  by (induction fds) auto

lemma worker_release_ok:
  assumes "worker_ready w" and "queue_ok w st q" and "store_ok st q"
  shows "\<exists>w' st'. worker_release w st = Some (w', st') \<and>
      st_msgs st' = Map.empty \<and> st_bufs st' = Map.empty \<and> \<not> w_base w' \<and> pending_head w' = None \<and>
      st_trace st' = st_trace st @ map (Release \<circ> R_fd) (client_fds (jobs st q)) @
        [Release (R_event (w_id w)), Release (R_fd (notify_recv_fd w)), Release (R_fd (notify_send_fd w)),
         Release (R_mutex (w_id w)), Release (R_base (w_id w)), Klog_Free]"
proof -
  from free_pending_loop_ok [OF queue_ok_take [OF assms(2)] assms(3)] obtain st' where
    "free_pending_loop (pending_head w) st = Some st'" "st_msgs st' = Map.empty" "st_bufs st' = Map.empty"
    "st_trace st' = st_trace st @ map (Release \<circ> R_fd) (client_fds (jobs st q))"
    by (auto simp: client_fds_events)
  then show ?thesis
    using assms(1) by (simp add: worker_release_def worker_take_pending_def worker_ready_def)
qed

text \<open>
  C27. Freeing a worker whose thread is not running releases all it owns exactly once: the memory
  of every message still queued, the socket of every client that was never adopted, its event, its
  notify sockets, its mutex and its event base.
\<close>

theorem worker_free_releases:
  assumes "worker_ready w" and "\<not> w_started w" and "queue_ok w st q" and "store_ok st q"
    and "st_trace st = []" and "distinct (notify_recv_fd w # notify_send_fd w # client_fds (jobs st q))"
  shows "\<exists>w' st'. worker_free send until_exit w st n = Some (w', st') \<and>
      st_msgs st' = Map.empty \<and> st_bufs st' = Map.empty \<and>
      ledger (map R_fd (client_fds (jobs st q)) @ worker_resources w) (st_trace st') = Some []"
proof -
  let ?w = "w\<lparr>w_stopping := True\<rparr>"
  have "worker_free send until_exit w st n = worker_release ?w st"
    using assms(2) by (simp add: worker_free_def worker_stop_def worker_join_def Let_def)
  moreover have "worker_ready ?w" "queue_ok ?w st q"
    using assms(1,3) by (simp_all add: worker_ready_def queue_ok_def)
  note worker_release_ok [OF this assms(4)]
  moreover have "ledger (map R_fd (client_fds (jobs st q)) @ worker_resources w)
      (map (Release \<circ> R_fd) (client_fds (jobs st q))) = Some (worker_resources w)"
    using assms(6) by (intro ledger_release_fds) (auto simp: worker_resources_def)
  ultimately show ?thesis
    using assms(1,5,6) by (auto simp: ledger_append worker_resources_def)
qed

theorem worker_free_releases_witness:
  "map_option (\<lambda>(w, st). (st_msgs st 1, st_bufs st 3,
       ledger [R_fd 9, R_event 1, R_fd 5, R_fd 4, R_mutex 1, R_base 1] (st_trace st)))
     (worker_free (\<lambda>_. None) id example_worker example_store 0) = Some (None, None, Some [])"
proof -
  have ready: "worker_ready example_worker" "\<not> w_started example_worker" "st_trace example_store = []"
    by (simp_all add: worker_ready_def example_worker_def worker_zero_def example_store_def
      socket_is_valid_def EVUTIL_INVALID_SOCKET_def)
  have fds: "client_fds (jobs example_store [1, 2]) = [9]"
    by (simp add: client_fds_def job_at_def bytes_of_def example_store_def stream_client_payload_def
      socket_is_valid_def EVUTIL_INVALID_SOCKET_def)
  show ?thesis
    using worker_free_releases [OF ready(1,2) example_queue ready(3), of "\<lambda>_. None" id 0] fds
    by (auto simp: worker_resources_def example_worker_def)
qed

end
