(* ===== verification/File_Conf.thy ===== *)
theory File_Conf
  imports Route
begin

text \<open>
  \<^verbatim>\<open>src/file_conf.c\<close>: the line-based configuration language, from characters to routes. The
  definitions follow the functions of the file in their order. The lemmas show that what the
  parser accepts satisfies the type invariants of endpoints, options and routes, that numbers and
  endpoints survive printing and reading back, and that loading a text is exactly: split it into
  lines, drop comments and blank lines, parse each line, refuse two routes with one listener.
\<close>

section \<open>Characters to values\<close>

definition MAX_LINE_LEN :: nat where "MAX_LINE_LEN = 512"
definition MAX_ROUTE_FIELDS :: nat where "MAX_ROUTE_FIELDS = 32"

text \<open>
  \<^verbatim>\<open>trim\<close>: the trailing loop stops at the first character that is not a blank, which it never
  removes.
\<close>

definition trim :: "string \<Rightarrow> string" where
  "trim s =
     (case dropWhile isspace s of
        [] \<Rightarrow> []
      | c # r \<Rightarrow> c # rev (dropWhile isspace (rev r)))"

definition parse_port :: "string \<Rightarrow> 16 word option" where
  "parse_port s =
     (let (v, end', erange) = strtoul10 s in
      if erange \<or> s = [] \<or> end' \<noteq> [] \<or> v = 0 \<or> v > 65535 then None
      else Some (word_of_int v))"

fun same_listen_endpoint :: "endpoint \<Rightarrow> endpoint \<Rightarrow> bool" where
  "same_listen_endpoint a b =
     (if ep_proto a \<noteq> ep_proto b then False
      else case ep_proto a of
        PROTO_TCP \<Rightarrow> ep_host a = ep_host b \<and> ep_port a = ep_port b
      | PROTO_UDP \<Rightarrow> ep_host a = ep_host b \<and> ep_port a = ep_port b
      | PROTO_UNIX_STREAM \<Rightarrow> ep_path a = ep_path b
      | PROTO_UNIX_DGRAM \<Rightarrow> ep_path a = ep_path b
      | _ \<Rightarrow> False)"

declare same_listen_endpoint.simps [simp del]

text \<open>The index is converted to \<^verbatim>\<open>int\<close>, so that from \<open>2 ^ 31\<close> on it can come out negative.\<close>

fun find_conflicting_from :: "nat \<Rightarrow> route list \<Rightarrow> route \<Rightarrow> int" where
  "find_conflicting_from i [] new = - 1"
| "find_conflicting_from i (r # rs) new =
     (if same_listen_endpoint (listen r) (listen new) then sint (word_of_nat i :: 32 word)
      else find_conflicting_from (Suc i) rs new)"

definition find_conflicting_route :: "route list \<Rightarrow> route \<Rightarrow> int" where
  "find_conflicting_route routes new = find_conflicting_from 0 routes new"

text \<open>
  \<^verbatim>\<open>split_host_port\<close>, with the size of the host array: the host, the port and whether the
  address was written in brackets.
\<close>

definition split_host_port :: "string \<Rightarrow> nat \<Rightarrow> (string \<times> 16 word \<times> bool) option" where
  "split_host_port input host_len =
     (if host_len = 0 then None
      else case input of
        c # body \<Rightarrow>
          if c = CHR ''['' then
            (case dropWhile (\<lambda>c. c \<noteq> CHR '']'') input of
               [] \<Rightarrow> None
             | _ # after \<Rightarrow>
                 if after = [] \<or> hd after \<noteq> CHR '':'' then None
                 else let host = tl (takeWhile (\<lambda>c. c \<noteq> CHR '']'') input);
                          port_s = tl after in
                      if host = [] \<or> length host \<ge> host_len \<or> port_s = [] then None
                      else map_option (\<lambda>p. (host, p, True)) (parse_port port_s))
          else
            (case dropWhile (\<lambda>c. c \<noteq> CHR '':'') input of
               [] \<Rightarrow> None
             | _ # port_s \<Rightarrow>
                 if CHR '':'' \<in> set port_s then None
                 else let host = takeWhile (\<lambda>c. c \<noteq> CHR '':'') input in
                      if length host \<ge> host_len \<or> port_s = [] then None
                      else let host = (if host = [] then snprintf_buf host_len ''0.0.0.0'' else host) in
                           map_option (\<lambda>p. (host, p, False)) (parse_port port_s))
      | [] \<Rightarrow> None)"

definition parse_proto :: "string \<Rightarrow> endpoint_proto option" where
  "parse_proto s =
     (if s = ''tcp'' then Some PROTO_TCP
      else if s = ''udp'' then Some PROTO_UDP
      else if s = ''unix'' then Some PROTO_UNIX_STREAM
      else if s = ''unix-dgram'' then Some PROTO_UNIX_DGRAM
      else if s = ''file'' then Some PROTO_FILE
      else if s = ''builtin'' then Some PROTO_BUILTIN
      else None)"

definition parse_broadcast_reply_mode :: "string \<Rightarrow> broadcast_reply_mode result" where
  "parse_broadcast_reply_mode value =
     (if value = ''listen'' then Inr BROADCAST_REPLY_LISTEN
      else if value = ''upstream'' then Inr BROADCAST_REPLY_UPSTREAM
      else Inl EINVAL)"

interpretation broadcast_names: name_codec parse_broadcast_reply_mode broadcast_reply_name
  "\<lambda>m. m \<noteq> BROADCAST_REPLY_OFF"
proof unfold_locales
  fix m assume "m \<noteq> BROADCAST_REPLY_OFF"
  then show "parse_broadcast_reply_mode (broadcast_reply_name m) = Inr m"
    by (cases m) (simp_all add: parse_broadcast_reply_mode_def)
next
  fix s m assume "parse_broadcast_reply_mode s = Inr m"
  then show "m \<noteq> BROADCAST_REPLY_OFF \<and> broadcast_reply_name m = s"
    by (auto simp: parse_broadcast_reply_mode_def split: if_splits)
next
  fix s e assume "parse_broadcast_reply_mode s = Inl e"
  then show "e = EINVAL" by (auto simp: parse_broadcast_reply_mode_def split: if_splits)
qed

definition parse_positive_int :: "string \<Rightarrow> int result" where
  "parse_positive_int s =
     (if s = [] then Inl EINVAL
      else let (v, end', erange) = strtol10 s in
           if erange \<or> end' = s \<or> end' \<noteq> [] then Inl EINVAL
           else if v \<le> 0 \<or> v > INT_MAX then Inl ERANGE
           else Inr v)"

section \<open>Options\<close>

text \<open>The body of the loop of \<^verbatim>\<open>parse_route_options\<close>, for one token.\<close>

definition parse_option_token :: "string \<Rightarrow> route_options \<Rightarrow> route_options result" where
  "parse_option_token tok0 o' =
     (let tok = trim tok0 in
      if tok = [] then Inl EINVAL
      else if CHR ''='' \<in> set tok then
        (let key = trim (takeWhile (\<lambda>c. c \<noteq> CHR ''='') tok);
             value = trim (tl (dropWhile (\<lambda>c. c \<noteq> CHR ''='') tok)) in
         if key = [] \<or> value = [] then Inl EINVAL
         else if key = ''idle_timeout'' then
           bind_res (parse_positive_int value) (\<lambda>v. Inr (o'\<lparr>idle_timeout_sec := v\<rparr>))
         else if key = ''connect_timeout'' then
           bind_res (parse_positive_int value) (\<lambda>v. Inr (o'\<lparr>connect_timeout_sec := v\<rparr>))
         else if key = ''bind_wait'' then
           bind_res (parse_positive_int value) (\<lambda>v. Inr (o'\<lparr>bind_wait_sec := v\<rparr>))
         else if key = ''broadcast_reply'' then
           bind_res (parse_broadcast_reply_mode value) (\<lambda>m. Inr (o'\<lparr>broadcast_reply := m\<rparr>))
         else Inl EINVAL)
      else if tok = ''proxy_v2'' then Inr (o'\<lparr>proxy_v2 := True\<rparr>)
      else if tok = ''keep_alive'' then Inr (o'\<lparr>keep_alive := True\<rparr>)
      else if tok = ''sni_sniff'' then Inr (o'\<lparr>sni_sniff := True\<rparr>)
      else if tok = ''broadcast_reply'' then Inr (o'\<lparr>broadcast_reply := BROADCAST_REPLY_LISTEN\<rparr>)
      else Inl EINVAL)"

function parse_route_options :: "string \<Rightarrow> route_options \<Rightarrow> route_options result" where
  "parse_route_options s o' =
     (case strtok_r '','' s of
        None \<Rightarrow> Inr o'
      | Some (tok, rest) \<Rightarrow>
          bind_res (parse_option_token tok o') (\<lambda>o'. parse_route_options rest o'))"
  by pat_completeness auto
termination
  by (relation "measure (\<lambda>(s, o'). length s)") (auto dest: strtok_r_shorter)

declare parse_route_options.simps [simp del]

definition route_options_set_defaults :: "route_options \<Rightarrow> route_options" where
  "route_options_set_defaults o' =
     o'\<lparr>proxy_v2 := False, keep_alive := False,
        idle_timeout_sec := ROUTE_DEFAULT_IDLE_TIMEOUT_SEC,
        connect_timeout_sec := ROUTE_DEFAULT_CONNECT_TIMEOUT_SEC\<rparr>"

section \<open>Endpoints and lines\<close>

definition parse_path_endpoint :: "endpoint_proto \<Rightarrow> endpoint_kind \<Rightarrow> string \<Rightarrow> endpoint option" where
  "parse_path_endpoint proto kind path =
     (if path = [] \<or> length path \<ge> SIZEOF_PATH then None
      else Some (endpoint_zero\<lparr>ep_proto := proto, ep_kind := kind, ep_path := path\<rparr>))"

fun parse_endpoint :: "endpoint_proto \<Rightarrow> string \<Rightarrow> endpoint option" where
  "parse_endpoint proto s =
     (let ep = endpoint_zero\<lparr>ep_proto := proto\<rparr>;
          inet = map_option (\<lambda>(host, port, is_ipv6).
                   ep\<lparr>ep_host := host, ep_port := port,
                      ep_kind := if is_ipv6 then ENDPOINT_INET6 else ENDPOINT_INET\<rparr>)
                   (split_host_port s SIZEOF_HOST) in
      case proto of
        PROTO_TCP \<Rightarrow> inet
      | PROTO_UDP \<Rightarrow> inet
      | PROTO_UNIX_STREAM \<Rightarrow> parse_path_endpoint proto ENDPOINT_UNIX s
      | PROTO_UNIX_DGRAM \<Rightarrow> parse_path_endpoint proto ENDPOINT_UNIX_DGRAM s
      | PROTO_FILE \<Rightarrow> parse_path_endpoint proto ENDPOINT_FILE s
      | PROTO_BUILTIN \<Rightarrow>
          (if s = [] then None
           else case x_builtin_parse s of
                  Inl _ \<Rightarrow> None
                | Inr b \<Rightarrow> Some (ep\<lparr>ep_kind := ENDPOINT_BUILTIN, ep_builtin := b\<rparr>)))"

declare parse_endpoint.simps [simp del]

text \<open>The tokenizing loop of \<^verbatim>\<open>parse_route_line\<close>; \<open>count\<close> fields are already stored.\<close>

function split_fields :: "nat \<Rightarrow> string \<Rightarrow> string list result" where
  "split_fields count line =
     (case strtok_r [CHR '' '', TAB, CR, LF] line of
        None \<Rightarrow> Inr []
      | Some (tok, rest) \<Rightarrow>
          if count \<ge> MAX_ROUTE_FIELDS then Inl EINVAL
          else bind_res (split_fields (Suc count) rest) (\<lambda>fs. Inr (tok # fs)))"
  by pat_completeness auto
termination
  by (relation "measure (\<lambda>(c, s). length s)") (auto dest: strtok_r_shorter)

declare split_fields.simps [simp del]

fun parse_option_fields :: "string list \<Rightarrow> route_options \<Rightarrow> route_options result" where
  "parse_option_fields [] o' = Inr o'"
| "parse_option_fields (f # fs) o' =
     (case parse_route_options f o' of
        Inl _ \<Rightarrow> Inl EINVAL
      | Inr o'' \<Rightarrow> parse_option_fields fs o'')"

text \<open>
  The rest of \<^verbatim>\<open>parse_route_line\<close>, on the fields after an optional \<^verbatim>\<open>listen\<close>. The route starts
  from \<^verbatim>\<open>memset(route, 0, sizeof(*route))\<close>, so its line number is 0.
\<close>

fun parse_route_fields :: "string list \<Rightarrow> route result" where
  "parse_route_fields (lp # le # bp # be # os) =
     (let r = route_zero\<lparr>opts := route_options_set_defaults (opts route_zero)\<rparr> in
      case parse_proto lp of None \<Rightarrow> Inl EINVAL | Some listen_proto \<Rightarrow>
      (case parse_endpoint listen_proto le of None \<Rightarrow> Inl EINVAL | Some l \<Rightarrow>
      (case parse_proto bp of None \<Rightarrow> Inl EINVAL | Some backend_proto \<Rightarrow>
      (case parse_endpoint backend_proto be of None \<Rightarrow> Inl EINVAL | Some u \<Rightarrow>
       bind_res (parse_option_fields os (opts r))
         (\<lambda>o'. Inr (r\<lparr>listen := l, upstream := u, opts := o'\<rparr>))))))"
| "parse_route_fields _ = Inl EINVAL"

definition parse_route_line :: "string \<Rightarrow> route result" where
  "parse_route_line line =
     bind_res (split_fields 0 line) (\<lambda>fields.
       if fields = [] then Inl EINVAL
       else parse_route_fields (if hd fields = ''listen'' then tl fields else fields))"

section \<open>Loading a text\<close>

definition SIZEOF_ROUTE :: nat where "SIZEOF_ROUTE = 784"

text \<open>
  Growing the array of routes: \<open>realloc_ok n\<close> says whether \<^verbatim>\<open>realloc\<close> to \<open>n\<close> bytes succeeds.
\<close>

definition grow_routes :: "(nat \<Rightarrow> bool) \<Rightarrow> nat \<Rightarrow> nat \<Rightarrow> nat result" where
  "grow_routes realloc_ok count cap =
     (if count = cap then
        (let new_cap = (if cap \<noteq> 0 then cap * 2 else 8) in
         if int new_cap > SIZE_MAX div int SIZEOF_ROUTE then Inl EOVERFLOW
         else if \<not> realloc_ok (new_cap * SIZEOF_ROUTE) then Inl ENOMEM
         else Inr new_cap)
      else Inr cap)"

definition strip_cr :: "string \<Rightarrow> string" where
  "strip_cr raw = (if raw \<noteq> [] \<and> last raw = CR then butlast raw else raw)"

text \<open>
  The text of a line that is left to parse: \<open>None\<close> for a blank line or a comment.
\<close>

definition line_text :: "string \<Rightarrow> string option" where
  "line_text raw =
     (let line = trim (cstr raw) in
      if line = [] \<or> hd line = CHR ''#'' then None
      else if CHR ''#'' \<in> set line then
        (let line = trim (takeWhile (\<lambda>c. c \<noteq> CHR ''#'') line) in
         if line = [] then None else Some line)
      else Some line)"

function load_routes_loop ::
  "(nat \<Rightarrow> bool) \<Rightarrow> string \<Rightarrow> 32 word \<Rightarrow> route list \<Rightarrow> nat \<Rightarrow> route list result" where
  "load_routes_loop realloc_ok data ln routes cap =
     (if data = [] then Inr routes
      else
        let ln = ln + 1;
            raw = strip_cr (takeWhile (\<lambda>c. c \<noteq> LF) data);
            rest = drop 1 (dropWhile (\<lambda>c. c \<noteq> LF) data) in
        if length raw \<ge> MAX_LINE_LEN then Inl E2BIG
        else case line_text raw of
          None \<Rightarrow> load_routes_loop realloc_ok rest ln routes cap
        | Some line \<Rightarrow>
            bind_res (grow_routes realloc_ok (length routes) cap) (\<lambda>cap.
              case parse_route_line line of
                Inl _ \<Rightarrow> Inl EINVAL
              | Inr r \<Rightarrow>
                  let r = r\<lparr>line_no := ln\<rparr> in
                  if find_conflicting_route routes r \<ge> 0 then Inl EADDRINUSE
                  else load_routes_loop realloc_ok rest ln (routes @ [r]) cap))"
  by pat_completeness auto
termination
proof (relation "measure (\<lambda>(_, data, _). length data)", goal_cases)
  case 1
  show ?case by simp
next
  case (2 realloc_ok data ln routes cap)
  then show ?case by (cases data) (auto simp: length_dropWhile_le less_Suc_eq_le le_diff_conv le_SucI)
next
  case (3 realloc_ok data ln routes cap)
  then show ?case by (cases data) (auto simp: length_dropWhile_le less_Suc_eq_le le_diff_conv le_SucI)
qed

declare load_routes_loop.simps [simp del]

definition load_routes_from_text :: "(nat \<Rightarrow> bool) \<Rightarrow> string \<Rightarrow> route list result" where
  "load_routes_from_text realloc_ok data = load_routes_loop realloc_ok data 0 [] 0"

text \<open>
  \<^verbatim>\<open>load_routes_from_file\<close>: what the calls on the file return is a record. A failed call
  carries its \<^verbatim>\<open>errno\<close>; a short read carries \<^verbatim>\<open>errno\<close> when \<^verbatim>\<open>ferror\<close> holds.
\<close>

record file_io =
  fopen_err :: "errno option"
  fseek_end_err :: "errno option"
  ftell_res :: "nat result"
  fseek_set_err :: "errno option"
  malloc_ok :: bool
  fread_data :: string
  fread_err :: "errno option"

definition load_routes_from_file :: "(nat \<Rightarrow> bool) \<Rightarrow> file_io \<Rightarrow> route list result" where
  "load_routes_from_file realloc_ok io =
     (case fopen_err io of Some e \<Rightarrow> Inl e | None \<Rightarrow>
      (case fseek_end_err io of Some e \<Rightarrow> Inl e | None \<Rightarrow>
      (case ftell_res io of Inl e \<Rightarrow> Inl e | Inr file_size \<Rightarrow>
      (case fseek_set_err io of Some e \<Rightarrow> Inl e | None \<Rightarrow>
       if file_size = 0 then load_routes_from_text realloc_ok []
       else if \<not> malloc_ok io then Inl ENOMEM
       else if length (fread_data io) \<noteq> file_size then
         Inl (case fread_err io of Some e \<Rightarrow> e | None \<Rightarrow> EIO)
       else load_routes_from_text realloc_ok (fread_data io)))))"

section \<open>Strings\<close>

lemma trim_in: "x \<in> set (trim s) \<Longrightarrow> x \<in> set s"
proof (cases "dropWhile isspace s")
  case Nil
  assume "x \<in> set (trim s)"
  with Nil show ?thesis by (simp add: trim_def del: dropWhile_eq_Nil_conv)
next
  case (Cons c r)
  assume "x \<in> set (trim s)"
  with Cons have "x \<in> set (c # r)" by (auto simp: trim_def dest: set_dropWhileD)
  with Cons show ?thesis by (metis set_dropWhileD)
qed

lemma trim_id: "s \<noteq> [] \<Longrightarrow> \<not> isspace (hd s) \<Longrightarrow> \<not> isspace (last s) \<Longrightarrow> trim s = s"
proof -
  assume s: "s \<noteq> []" "\<not> isspace (hd s)" "\<not> isspace (last s)"
  then obtain c r where cr: "s = c # r" by (cases s) auto
  have "dropWhile isspace (rev r) = rev r"
  proof (cases r rule: rev_cases)
    case (snoc r' d)
    with s cr show ?thesis by simp
  qed simp
  with s cr show ?thesis by (simp add: trim_def)
qed

lemma line_text_no_NUL: "line_text raw = Some l \<Longrightarrow> NUL \<notin> set l"
  using cstr_no_NUL [of raw]
  by (auto simp: line_text_def Let_def split: if_splits dest!: trim_in set_takeWhileD)

section \<open>Numbers\<close>

lemma word16_of_int_ne_0: "0 < v \<Longrightarrow> v \<le> 65535 \<Longrightarrow> (word_of_int v :: 16 word) \<noteq> 0"
proof -
  assume "0 < v" "v \<le> 65535"
  then have "uint (word_of_int v :: 16 word) = v"
    by (simp add: uint_word_of_int)
  with \<open>0 < v\<close> show ?thesis by (metis less_irrefl uint_0_eq)
qed

lemma parse_port_nonzero: "parse_port s = Some p \<Longrightarrow> p \<noteq> 0"
proof -
  assume p: "parse_port s = Some p"
  obtain v e r where v: "strtoul10 s = (v, e, r)" by (cases "strtoul10 s") auto
  with p have "p = word_of_int v" "0 < v" "v \<le> 65535"
    using strtoul10_nonneg [OF v] by (auto simp: parse_port_def split: if_splits)
  then show ?thesis using word16_of_int_ne_0 by simp
qed

lemma parse_port_show:
  assumes "p \<noteq> 0"
  shows "parse_port (show_nat (unat p)) = Some p"
proof -
  obtain n where n: "n = unat p" by simp
  then have "0 < n" "n < 65536" "word_of_int (int n) = p"
    using assms unat_u16_less [of p] by (simp_all add: unat_gt_0)
  moreover from this have "strtoul10 (show_nat n) = (int n, [], False)"
    by (intro strtoul10_show_nat) (simp add: ULONG_MAX_def)
  ultimately show ?thesis unfolding n [symmetric] by (simp add: parse_port_def)
qed

text \<open>
  On the decimal text of any natural number, \<^verbatim>\<open>parse_port\<close> accepts exactly 1 to 65535 and
  returns that number: 0, everything above 65535 and everything that overflows
  \<^verbatim>\<open>strtoul\<close> is refused.
\<close>

lemma parse_port_decimal:
  "parse_port (show_nat n) = (if 1 \<le> n \<and> n \<le> 65535 then Some (word_of_nat n) else None)"
proof (cases "int n \<le> ULONG_MAX")
  case True
  then show ?thesis
    by (simp add: parse_port_def strtoul10_show_nat)
next
  case False
  then show ?thesis
    by (simp add: parse_port_def strtoul10_show_nat_overflow ULONG_MAX_def)
qed

lemma parse_positive_int_range:
  "parse_positive_int s = Inr v \<Longrightarrow> 0 < v \<and> v \<le> INT_MAX"
  by (auto simp: parse_positive_int_def Let_def split: prod.splits if_splits)

lemma parse_positive_int_print:
  "0 < n \<Longrightarrow> int n \<le> INT_MAX \<Longrightarrow> parse_positive_int (show_nat n) = Inr (int n)"
  by (simp add: parse_positive_int_def strtol10_show_nat INT_MAX_def LONG_MAX_def
      show_nat_ne [symmetric])

section \<open>Endpoints\<close>

lemma split_host_port_v6:
  assumes "split_host_port (CHR ''['' # s) n = Some (host, port, v6)"
  shows "v6 \<and> host \<noteq> [] \<and> length host < n \<and> port \<noteq> 0 \<and> set host \<subseteq> set s \<and> CHR '']'' \<notin> set host"
proof -
  from assms have "v6" and host: "host = takeWhile (\<lambda>c. c \<noteq> CHR '']'') s"
    and rest: "host \<noteq> []" "length host < n" "port \<noteq> 0"
    by (auto simp: split_host_port_def Let_def not_le dest: parse_port_nonzero
        split: list.splits if_splits)
  have "set host \<subseteq> set s" and "CHR '']'' \<notin> set host"
    unfolding host by (auto dest: set_takeWhileD)
  with \<open>v6\<close> rest show ?thesis by simp
qed

lemma split_host_port_v4:
  assumes "split_host_port (c # s) n = Some (host, port, v6)" and "c \<noteq> CHR ''[''" and "8 < n"
  shows "\<not> v6 \<and> host \<noteq> [] \<and> length host < n \<and> port \<noteq> 0 \<and> set host \<subseteq> set (c # s) \<union> set ''0.0.0.0''
    \<and> CHR '':'' \<notin> set host \<and> hd host \<noteq> CHR ''[''"
proof -
  define h where "h = takeWhile (\<lambda>c. c \<noteq> CHR '':'') (c # s)"
  from assms(1,2) have v6: "\<not> v6" and host: "host = (if h = [] then snprintf_buf n ''0.0.0.0'' else h)"
    and len: "length h < n" and port: "port \<noteq> 0"
    by (auto simp: split_host_port_def Let_def not_le h_def dest: parse_port_nonzero
        split: list.splits if_splits)
  show ?thesis
  proof (cases "h = []")
    case True
    with host assms(3) have "host = ''0.0.0.0''" by (simp add: snprintf_buf_fits)
    with v6 port assms(3) show ?thesis by simp
  next
    case False
    then have "hd h = c" by (simp add: h_def split: if_splits)
    moreover have "set h \<subseteq> set (c # s)" "CHR '':'' \<notin> set h"
      unfolding h_def by (auto dest: set_takeWhileD split: if_splits)
    ultimately show ?thesis using False host v6 port len assms(2) by auto
  qed
qed

text \<open>What the host of a parsed inet endpoint looks like; it is what makes its text readable again.\<close>

definition host_readable :: "endpoint \<Rightarrow> bool" where
  "host_readable ep \<longleftrightarrow>
     (ep_kind ep = ENDPOINT_INET6 \<longrightarrow> CHR '']'' \<notin> set (ep_host ep)) \<and>
     (ep_kind ep = ENDPOINT_INET \<longrightarrow> CHR '':'' \<notin> set (ep_host ep) \<and> hd (ep_host ep) \<noteq> CHR ''['')"

lemma split_host_port_fields:
  assumes "split_host_port s SIZEOF_HOST = Some (host, port, v6)"
  shows "host \<noteq> [] \<and> length host < SIZEOF_HOST \<and> port \<noteq> 0 \<and>
    (NUL \<notin> set s \<longrightarrow> NUL \<notin> set host) \<and> (v6 \<longrightarrow> CHR '']'' \<notin> set host) \<and>
    (\<not> v6 \<longrightarrow> CHR '':'' \<notin> set host \<and> hd host \<noteq> CHR ''['')"
proof (cases s)
  case Nil
  with assms show ?thesis by (simp add: split_host_port_def split: if_splits)
next
  case (Cons c r)
  show ?thesis
  proof (cases "c = CHR ''[''")
    case True
    with assms Cons split_host_port_v6 [of r SIZEOF_HOST host port v6] show ?thesis by auto
  next
    case False
    with assms Cons split_host_port_v4 [of c r SIZEOF_HOST host port v6] show ?thesis
      by (auto simp: SIZEOF_HOST_def)
  qed
qed

lemma parse_endpoint_inet:
  assumes "parse_endpoint proto s = Some ep" and "proto = PROTO_TCP \<or> proto = PROTO_UDP"
  obtains host port v6 where "split_host_port s SIZEOF_HOST = Some (host, port, v6)"
    and "ep = endpoint_zero\<lparr>ep_proto := proto, ep_host := host, ep_port := port,
                ep_kind := if v6 then ENDPOINT_INET6 else ENDPOINT_INET\<rparr>"
  using assms by (auto simp: parse_endpoint.simps Let_def)

text \<open>
  Whatever text an endpoint is parsed from, the endpoint satisfies its type invariant.
\<close>

lemma parse_endpoint_wf:
  assumes "parse_endpoint proto s = Some ep" and "NUL \<notin> set s"
  shows "endpoint_wf ep \<and> ep_proto ep = proto"
proof (cases "proto = PROTO_TCP \<or> proto = PROTO_UDP")
  case True
  from assms(1) True obtain host port v6
    where "split_host_port s SIZEOF_HOST = Some (host, port, v6)"
      and "ep = endpoint_zero\<lparr>ep_proto := proto, ep_host := host, ep_port := port,
                ep_kind := if v6 then ENDPOINT_INET6 else ENDPOINT_INET\<rparr>"
    by (rule parse_endpoint_inet)
  with True assms(2) show ?thesis
    using split_host_port_fields [of s host port v6]
    by (auto simp: endpoint_wf_def endpoint_zero_def SIZEOF_PATH_def)
next
  case False
  with assms show ?thesis
    by (cases proto) (auto simp: parse_endpoint.simps parse_path_endpoint_def endpoint_wf_def
        endpoint_zero_def SIZEOF_HOST_def SIZEOF_PATH_def Let_def
        dest: builtin_names.name_parse split: if_splits sum.splits)
qed

lemma parse_endpoint_host_readable:
  "parse_endpoint proto s = Some ep \<Longrightarrow> proto = PROTO_TCP \<or> proto = PROTO_UDP \<Longrightarrow> host_readable ep"
  by (erule parse_endpoint_inet, assumption)
    (auto simp: host_readable_def endpoint_zero_def dest!: split_host_port_fields)

lemma split_host_port_text_v4:
  assumes "host \<noteq> []" "length host < n" "CHR '':'' \<notin> set host" "hd host \<noteq> CHR ''[''" "port \<noteq> 0"
  shows "split_host_port (host @ '':'' @ show_nat (unat port)) n = Some (host, port, False)"
proof -
  obtain c r where cr: "host = c # r" using assms(1) by (cases host) auto
  let ?ds = "show_nat (unat port)"
  have no: "CHR '':'' \<notin> set ?ds"
    using show_nat_digits [of "unat port"] by (auto simp: isdigit_def code_def)
  have tw: "takeWhile (\<lambda>c. c \<noteq> CHR '':'') (host @ '':'' @ ?ds) = host"
    using assms(3) by (subst takeWhile_append2) auto
  have dw: "dropWhile (\<lambda>c. c \<noteq> CHR '':'') (host @ '':'' @ ?ds) = CHR '':'' # ?ds"
    using assms(3) by (subst dropWhile_append2) auto
  show ?thesis
    using assms no tw dw parse_port_show [OF assms(5)]
    by (simp add: cr split_host_port_def Let_def)
qed

lemma split_host_port_text_v6:
  assumes "host \<noteq> []" "length host < n" "CHR '']'' \<notin> set host" "port \<noteq> 0"
  shows "split_host_port (''['' @ host @ '']:'' @ show_nat (unat port)) n = Some (host, port, True)"
proof -
  let ?ds = "show_nat (unat port)"
  have tw: "takeWhile (\<lambda>c. c \<noteq> CHR '']'') (host @ '']:'' @ ?ds) = host"
    using assms(3) by (subst takeWhile_append2) auto
  have dw: "dropWhile (\<lambda>c. c \<noteq> CHR '']'') (host @ '']:'' @ ?ds) = '']:'' @ ?ds"
    using assms(3) by (subst dropWhile_append2) auto
  show ?thesis
    using assms tw dw parse_port_show [OF assms(4)]
    by (simp add: split_host_port_def Let_def)
qed

lemma split_host_port_endpoint_text:
  assumes "split_host_port s SIZEOF_HOST = Some (host, port, v6)"
    and "ep = endpoint_zero\<lparr>ep_proto := proto, ep_host := host, ep_port := port, ep_kind := if v6 then ENDPOINT_INET6 else ENDPOINT_INET\<rparr>"
  shows "split_host_port (endpoint_text ep) SIZEOF_HOST = Some (host, port, v6)"
  using split_host_port_fields [OF assms(1)]
  by (cases v6) (simp_all add: assms(2) endpoint_text.simps endpoint_zero_def
    split_host_port_text_v4 [simplified] split_host_port_text_v6 [simplified])

text \<open>
  C32. The text that \<^verbatim>\<open>endpoint_to_string\<close> leaves in a buffer of \<open>n\<close> bytes for a parsed TCP or UDP endpoint is a
  configuration text for that same endpoint, for IPv4 and bracketed IPv6 alike and also when the host was left out, provided
  that the host, the port's digits, a colon, for IPv6 two brackets, and the NUL fit the buffer. For the 256 bytes of the log they do for hosts of
  up to 247 characters; the parser accepts up to 255.
\<close>

theorem parse_endpoint_reparse:
  assumes "parse_endpoint proto s = Some ep" and "proto = PROTO_TCP \<or> proto = PROTO_UDP"
    and "length (ep_host ep) + (if ep_kind ep = ENDPOINT_INET6 then 3 else 1) + length (show_nat (unat (ep_port ep))) < n"
  shows "\<exists>t. endpoint_to_string (Some ep) (Some n) = Inr t \<and> parse_endpoint proto t = Some ep"
proof -
  from assms(1,2) obtain host port v6
    where sp: "split_host_port s SIZEOF_HOST = Some (host, port, v6)"
      and ep: "ep = endpoint_zero\<lparr>ep_proto := proto, ep_host := host, ep_port := port,
                ep_kind := if v6 then ENDPOINT_INET6 else ENDPOINT_INET\<rparr>"
    by (rule parse_endpoint_inet)
  have "length (endpoint_text ep) < n" using assms(3) by (simp add: ep endpoint_text.simps split: if_splits)
  then have "endpoint_to_string (Some ep) (Some n) = Inr (endpoint_text ep)"
    by (simp add: endpoint_to_string_def snprintf_buf_def)
  moreover have "parse_endpoint proto (endpoint_text ep) = Some ep"
    using split_host_port_endpoint_text [OF sp ep] assms(2) by (auto simp: parse_endpoint.simps ep Let_def)
  ultimately show ?thesis by blast
qed

theorem parse_endpoint_reparse_witness:
  "\<exists>ep t. parse_endpoint PROTO_UDP ''[::1]:9293'' = Some ep \<and> endpoint_to_string (Some ep) (Some 256) = Inr t \<and>
   parse_endpoint PROTO_UDP t = Some ep"
proof -
  define ep where "ep = endpoint_zero\<lparr>ep_proto := PROTO_UDP, ep_host := ''::1'', ep_port := 9293, ep_kind := ENDPOINT_INET6\<rparr>"
  have ok: "parse_endpoint PROTO_UDP ''[::1]:9293'' = Some ep" unfolding ep_def by code_simp
  have "length (show_nat (unat (ep_port ep))) \<le> 5" using length_show_nat [of "unat (ep_port ep)" 4] unat_u16_less [of "ep_port ep"] by simp
  then have "length (ep_host ep) + (if ep_kind ep = ENDPOINT_INET6 then 3 else 1) + length (show_nat (unat (ep_port ep))) < 256"
    by (simp add: ep_def)
  with parse_endpoint_reparse [OF ok _ this] ok show ?thesis by blast
qed

text \<open>A host of 250 characters does not fit the log's buffer: the last digit of the port is cut off, and the text is one of another endpoint.\<close>

lemma endpoint_to_string_cuts_port:
  fixes h :: string
  defines "h \<equiv> replicate 250 (CHR ''a'')"
    and "ep \<equiv> \<lambda>port. endpoint_zero\<lparr>ep_proto := PROTO_TCP, ep_host := h, ep_port := port, ep_kind := ENDPOINT_INET\<rparr>"
  shows "parse_endpoint PROTO_TCP (h @ '':12345'') = Some (ep 12345)" (is ?parses)
    and "\<exists>t. endpoint_to_string (Some (ep 12345)) (Some 256) = Inr t \<and> parse_endpoint PROTO_TCP t = Some (ep 1234)" (is ?cut)
proof -
  have digits: "show_nat 12345 = ''12345''" "show_nat 1234 = ''1234''" by (simp_all add: show_nat.simps digit_char_def char_of_def bit_simps)
  have h: "h \<noteq> []" "length h = 250" "CHR '':'' \<notin> set h" "hd h \<noteq> CHR ''[''" unfolding h_def by simp_all
  have parse: "parse_endpoint PROTO_TCP (h @ '':'' @ show_nat (unat port)) = Some (ep port)" if "port \<noteq> 0" for port
    using split_host_port_text_v4 [of h SIZEOF_HOST port] h that
    by (simp add: parse_endpoint.simps ep_def endpoint_zero_def SIZEOF_HOST_def)
  show ?parses using parse [of 12345] digits by simp
  have "endpoint_text (ep 12345) = h @ '':12345''" using digits by (simp add: endpoint_text.simps ep_def)
  then have "endpoint_to_string (Some (ep 12345)) (Some 256) = Inr (h @ '':1234'')"
    using h(2) by (simp add: endpoint_to_string_def snprintf_buf_def)
  with parse [of 1234] digits show ?cut by simp
qed

section \<open>Options and lines\<close>

lemma parse_option_token_wf:
  "parse_option_token tok o' = Inr o'' \<Longrightarrow> opts_wf o' \<Longrightarrow> opts_wf o''"
  by (auto simp: parse_option_token_def opts_wf_def Let_def res_simps
      dest!: parse_positive_int_range split: if_splits)

lemma parse_route_options_wf:
  "parse_route_options s o' = Inr o'' \<Longrightarrow> opts_wf o' \<Longrightarrow> opts_wf o''"
proof (induction s o' rule: parse_route_options.induct)
  case (1 s o')
  show ?case
  proof (cases "strtok_r '','' s")
    case None
    with "1.prems" show ?thesis by (simp add: parse_route_options.simps [of s])
  next
    case (Some p)
    obtain tok rest where p: "p = (tok, rest)" by (cases p)
    with Some "1.prems" obtain o1 where "parse_option_token tok o' = Inr o1"
      and "parse_route_options rest o1 = Inr o''"
      by (auto simp: parse_route_options.simps [of s] res_simps)
    moreover from this "1.prems" have "opts_wf o1" by (blast intro: parse_option_token_wf)
    ultimately show ?thesis using "1.IH" Some p by blast
  qed
qed

lemma parse_option_fields_wf:
  "parse_option_fields fs o' = Inr o'' \<Longrightarrow> opts_wf o' \<Longrightarrow> opts_wf o''"
  by (induction fs o' rule: parse_option_fields.induct)
    (auto split: sum.splits dest: parse_route_options_wf)

lemma default_opts_wf: "opts_wf (route_options_set_defaults route_options_zero)"
  by (simp add: opts_wf_def route_options_set_defaults_def route_options_zero_def
      timeout_defs INT_MAX_def)

lemma split_fields_chars:
  "split_fields n line = Inr fs \<Longrightarrow> f \<in> set fs \<Longrightarrow> set f \<subseteq> set line - {CHR '' '', TAB, CR, LF}"
proof (induction n line arbitrary: fs rule: split_fields.induct)
  case (1 n line)
  show ?case
  proof (cases "strtok_r [CHR '' '', TAB, CR, LF] line")
    case None
    with "1.prems" show ?thesis by (simp add: split_fields.simps [of n])
  next
    case (Some p)
    obtain tok rest where p: "p = (tok, rest)" by (cases p)
    with Some "1.prems"(1) obtain fs' where fs': "split_fields (Suc n) rest = Inr fs'"
      and fs: "fs = tok # fs'" and n: "\<not> MAX_ROUTE_FIELDS \<le> n"
      by (auto simp: split_fields.simps [of n] res_simps split: if_splits)
    from strtok_r_token [OF Some [unfolded p]]
    have "set tok \<subseteq> set line - {CHR '' '', TAB, CR, LF}" "set rest \<subseteq> set line" by auto
    with "1.IH" [OF Some p [symmetric] n fs'] "1.prems"(2) fs show ?thesis by auto
  qed
qed

lemma parse_route_fields_wf:
  assumes "parse_route_fields fs = Inr r" and "\<forall>f \<in> set fs. NUL \<notin> set f"
  shows "route_wf r \<and> line_no r = 0"
  using assms
  by (induction fs rule: parse_route_fields.induct)
    (auto simp: route_wf_def res_simps Let_def route_zero_def
      intro: parse_option_fields_wf [OF _ default_opts_wf] dest!: parse_endpoint_wf
      split: option.splits)

lemma parse_route_line_inv:
  assumes "parse_route_line line = Inr r" and "NUL \<notin> set line"
  shows "route_wf r \<and> line_no r = 0"
proof -
  from assms(1) obtain fs where fs: "split_fields 0 line = Inr fs"
    and r: "parse_route_fields (if hd fs = ''listen'' then tl fs else fs) = Inr r"
    by (auto simp: parse_route_line_def res_simps split: if_splits)
  have "\<forall>f \<in> set (if hd fs = ''listen'' then tl fs else fs). NUL \<notin> set f"
    using split_fields_chars [OF fs] assms(2) by (auto split: if_splits dest!: in_set_tlD)
  with r show ?thesis by (rule parse_route_fields_wf)
qed

text \<open>
  C25. A route that \<^verbatim>\<open>parse_route_line\<close> accepts satisfies the type invariant of a route: both
  endpoints fit their fixed-size arrays, have a kind that belongs to their protocol and a non-zero
  port, non-empty path or named built-in; the two timeouts are positive \<^verbatim>\<open>int\<close>s and the bind wait
  is a non-negative one. Its line number is 0, whatever the caller stored there before the call.
\<close>

theorem parse_route_line_wf:
  assumes "parse_route_line line = Inr r" and "NUL \<notin> set line"
  shows "route_wf r \<and> line_no r = 0"
  using assms by (rule parse_route_line_inv)

theorem parse_route_line_wf_witness:
  "\<not> isl (parse_route_line ''tcp :80 tcp 10.0.1.1:80 proxy_v2,idle_timeout=7'') \<and>
   route_wf (projr (parse_route_line ''tcp :80 tcp 10.0.1.1:80 proxy_v2,idle_timeout=7'')) \<and>
   line_no (projr (parse_route_line ''tcp :80 tcp 10.0.1.1:80 proxy_v2,idle_timeout=7'')) = 0"
proof -
  have ok: "\<not> isl (parse_route_line ''tcp :80 tcp 10.0.1.1:80 proxy_v2,idle_timeout=7'')"
    by code_simp
  with parse_route_line_wf [OF sum.collapse(2) [OF ok, symmetric]] show ?thesis by simp
qed

section \<open>Loading, against a reference\<close>

text \<open>
  The reference reading of a configuration text: its lines, the ones that carry a route with
  their numbers, and the route of each.
\<close>

function text_lines :: "string \<Rightarrow> string list" where
  "text_lines data =
     (if data = [] then []
      else takeWhile (\<lambda>c. c \<noteq> LF) data # text_lines (drop 1 (dropWhile (\<lambda>c. c \<noteq> LF) data)))"
  by pat_completeness auto
termination
proof (relation "measure length", goal_cases)
  case 1
  show ?case by simp
next
  case (2 data)
  then show ?case by (cases data) (auto simp: length_dropWhile_le less_Suc_eq_le le_diff_conv le_SucI)
qed

declare text_lines.simps [simp del]

fun route_lines :: "32 word \<Rightarrow> string list \<Rightarrow> (32 word \<times> string) list" where
  "route_lines ln [] = []"
| "route_lines ln (raw # ls) =
     (case line_text (strip_cr raw) of None \<Rightarrow> [] | Some l \<Rightarrow> [(ln + 1, l)]) @ route_lines (ln + 1) ls"

definition route_of_line :: "32 word \<times> string \<Rightarrow> route result" where
  "route_of_line nl = bind_res (parse_route_line (snd nl)) (\<lambda>r. Inr (r\<lparr>line_no := fst nl\<rparr>))"

text \<open>
  What a listener occupies, independently of the code: an address and port of one of the two inet protocols, or a path of one of
  the two UNIX ones. The other protocols cannot be listened on. No two routes may occupy the same.
\<close>

datatype listen_key = Inet_Key endpoint_proto string "16 word" | Path_Key endpoint_proto string

definition listen_key_of :: "endpoint \<Rightarrow> listen_key option" where
  "listen_key_of ep =
     (if ep_proto ep \<in> {PROTO_TCP, PROTO_UDP} then Some (Inet_Key (ep_proto ep) (ep_host ep) (ep_port ep))
      else if ep_proto ep \<in> {PROTO_UNIX_STREAM, PROTO_UNIX_DGRAM} then Some (Path_Key (ep_proto ep) (ep_path ep))
      else None)"

definition listeners_distinct :: "route list \<Rightarrow> bool" where
  "listeners_distinct rs = distinct (filter (\<lambda>k. k \<noteq> None) (map (listen_key_of \<circ> listen) rs))"

lemma same_listen_endpoint_key:
  "same_listen_endpoint a b \<longleftrightarrow> listen_key_of a \<noteq> None \<and> listen_key_of a = listen_key_of b"
  by (auto simp: same_listen_endpoint.simps listen_key_of_def split: endpoint_proto.splits)

lemma sint_word_of_nat: "n < 2 ^ 31 \<Longrightarrow> sint (word_of_nat n :: 32 word) = int n"
  by (simp add: signed_of_nat signed_take_bit_int_eq_self_iff)

lemma find_conflicting_from_free:
  "(\<forall>r \<in> set rs. \<not> same_listen_endpoint (listen r) (listen new)) \<Longrightarrow> find_conflicting_from i rs new = - 1"
  by (induction i rs new rule: find_conflicting_from.induct) auto

lemma find_conflicting_from_found:
  "r \<in> set rs \<Longrightarrow> same_listen_endpoint (listen r) (listen new) \<Longrightarrow> i + length rs \<le> 2 ^ 31 \<Longrightarrow>
   0 \<le> find_conflicting_from i rs new"
  by (induction i rs new rule: find_conflicting_from.induct) (auto simp: sint_word_of_nat)

lemma find_conflicting_route_found:
  "find_conflicting_route rs new \<ge> 0 \<Longrightarrow> \<exists>r \<in> set rs. same_listen_endpoint (listen r) (listen new)"
  using find_conflicting_from_free [of rs new 0] by (auto simp: find_conflicting_route_def)

lemma find_conflicting_route_free:
  "length rs \<le> 2 ^ 31 \<Longrightarrow>
   find_conflicting_route rs new < 0 \<longleftrightarrow> (\<forall>r \<in> set rs. \<not> same_listen_endpoint (listen r) (listen new))"
  using find_conflicting_from_found [of _ rs new 0] find_conflicting_from_free [of rs new 0]
  by (fastforce simp: find_conflicting_route_def not_le [symmetric])

lemma listeners_distinct_snoc:
  "length rs \<le> 2 ^ 31 \<Longrightarrow>
   listeners_distinct (rs @ [r]) \<longleftrightarrow> listeners_distinct rs \<and> find_conflicting_route rs r < 0"
  by (auto simp: listeners_distinct_def find_conflicting_route_free same_listen_endpoint_key intro: rev_image_eqI)

lemma listeners_distinct_prefix: "listeners_distinct (rs @ qs) \<Longrightarrow> listeners_distinct rs"
  by (simp add: listeners_distinct_def)

lemma grow_routes_bounds:
  "grow_routes ok count cap = Inr cap' \<Longrightarrow> count \<le> cap \<Longrightarrow> count < cap' \<and> cap \<le> cap'"
  by (auto simp: grow_routes_def Let_def split: if_splits)

lemma grow_routes_ok:
  assumes "count < 2 ^ 32"
  shows "\<exists>cap'. grow_routes (\<lambda>_. True) count cap = Inr cap'"
  using assms by (auto simp: grow_routes_def Let_def SIZE_MAX_def SIZEOF_ROUTE_def)

text \<open>The loop, read over the list of lines instead of over positions in the text.\<close>

fun load_lines ::
  "(nat \<Rightarrow> bool) \<Rightarrow> string list \<Rightarrow> 32 word \<Rightarrow> route list \<Rightarrow> nat \<Rightarrow> route list result" where
  "load_lines ok [] ln routes cap = Inr routes"
| "load_lines ok (raw # ls) ln routes cap =
     (if length (strip_cr raw) \<ge> MAX_LINE_LEN then Inl E2BIG
      else case line_text (strip_cr raw) of
          None \<Rightarrow> load_lines ok ls (ln + 1) routes cap
        | Some line \<Rightarrow>
            bind_res (grow_routes ok (length routes) cap) (\<lambda>cap.
              case route_of_line (ln + 1, line) of
                Inl _ \<Rightarrow> Inl EINVAL
              | Inr r \<Rightarrow>
                  if find_conflicting_route routes r \<ge> 0 then Inl EADDRINUSE
                  else load_lines ok ls (ln + 1) (routes @ [r]) cap))"

lemma load_routes_loop_lines:
  "load_routes_loop ok data ln routes cap = load_lines ok (text_lines data) ln routes cap"
proof (induction ok data ln routes cap rule: load_routes_loop.induct)
  case (1 ok data ln routes cap)
  show ?case
  proof (cases "data = []")
    case True
    then show ?thesis by (subst load_routes_loop.simps, subst text_lines.simps) simp
  next
    case False
    show ?thesis
      using False "1.IH" [OF False]
      by (subst load_routes_loop.simps, subst text_lines.simps)
        (auto simp: Let_def route_of_line_def bind_res_def split: option.splits sum.splits)
  qed
qed

text \<open>A characterisation of success, for an allocator that never fails.\<close>

lemma load_lines_iff:
  assumes "length routes + length (route_lines ln ls) \<le> 2 ^ 31" and "listeners_distinct routes"
  shows "load_lines (\<lambda>_. True) ls ln routes cap = Inr rs \<longleftrightarrow>
    (\<forall>l \<in> set ls. length (strip_cr l) < MAX_LINE_LEN) \<and>
    (\<exists>new. rs = routes @ new \<and> map route_of_line (route_lines ln ls) = map Inr new \<and>
       listeners_distinct (routes @ new))"
  using assms
proof (induction ls arbitrary: ln routes cap)
  case Nil
  then show ?case by auto
next
  case (Cons raw ls)
  show ?case
  proof (cases "line_text (strip_cr raw)")
    case None
    with Cons.IH [of routes "ln + 1" cap] Cons.prems show ?thesis by auto
  next
    case (Some line)
    have few: "length routes \<le> 2 ^ 31" "length routes < 2 ^ 32" using Cons.prems(1) by simp_all
    obtain cap' where cap': "grow_routes (\<lambda>_. True) (length routes) cap = Inr cap'"
      using grow_routes_ok [OF few(2)] by auto
    show ?thesis
    proof (cases "route_of_line (ln + 1, line)")
      case (Inl e)
      with Some cap' show ?thesis by auto
    next
      case (Inr r)
      show ?thesis
      proof (cases "find_conflicting_route routes r < 0")
        case True
        then have "listeners_distinct (routes @ [r])"
          using Cons.prems(2) listeners_distinct_snoc [OF few(1)] by simp
        with Cons.IH [of "routes @ [r]" "ln + 1" cap'] Cons.prems Some Inr cap' True
        show ?thesis by (auto simp: map_eq_Cons_conv Cons_eq_map_conv)
      next
        case False
        have "load_lines (\<lambda>_. True) (raw # ls) ln routes cap \<noteq> Inr rs"
          using False Some Inr cap' by simp
        moreover have "\<not> (map route_of_line (route_lines ln (raw # ls)) = map Inr new \<and>
          listeners_distinct (routes @ new))" for new
        proof
          assume new: "map route_of_line (route_lines ln (raw # ls)) = map Inr new \<and>
            listeners_distinct (routes @ new)"
          with Some Inr obtain new' where "new = r # new'" by (cases new) auto
          with new have "listeners_distinct ((routes @ [r]) @ new')" by simp
          then have "listeners_distinct (routes @ [r])" by (rule listeners_distinct_prefix)
          with False show False using listeners_distinct_snoc [OF few(1)] by simp
        qed
        ultimately show ?thesis by blast
      qed
    qed
  qed
qed

text \<open>A line with a route has at least one character besides its line feed.\<close>

lemma line_text_nonempty: "line_text (strip_cr []) = None"
  by (simp add: line_text_def strip_cr_def trim_def cstr_def)

lemma route_lines_few: "2 * length (route_lines ln (text_lines data)) \<le> length data + 1"
proof (induction data arbitrary: ln rule: text_lines.induct)
  case (1 data)
  show ?case
  proof (cases "data = []")
    case True
    then show ?thesis by (simp add: text_lines.simps)
  next
    case False
    let ?raw = "takeWhile (\<lambda>c. c \<noteq> LF) data" and ?tail = "dropWhile (\<lambda>c. c \<noteq> LF) data"
    have lines: "text_lines data = ?raw # text_lines (drop 1 ?tail)" using False by (subst text_lines.simps) simp
    have len: "length data = length ?raw + length ?tail" by (metis length_append takeWhile_dropWhile_id)
    have IH: "2 * length (route_lines (ln + 1) (text_lines (drop 1 ?tail))) \<le> length (drop 1 ?tail) + 1" using "1.IH" [OF False] .
    have empty: "route_lines (ln + 1) (text_lines (drop 1 ?tail)) = []" if "?tail = []"
      using that by (simp add: text_lines.simps del: dropWhile_eq_Nil_conv)
    show ?thesis
    proof (cases "line_text (strip_cr ?raw)")
      case None
      then show ?thesis using IH len unfolding lines by simp
    next
      case (Some l)
      then have "?raw \<noteq> []" using line_text_nonempty by auto
      then have "Suc 0 \<le> length ?raw" unfolding Suc_le_eq length_greater_0_conv .
      then show ?thesis using Some IH len empty unfolding lines by (cases "?tail = []") (simp_all del: dropWhile_eq_Nil_conv takeWhile_eq_Nil_iff)
    qed
  qed
qed

lemma few_routes: "length data < 2 ^ 32 \<Longrightarrow> length (route_lines ln (text_lines data)) \<le> 2 ^ 31"
  using route_lines_few [of ln data] by simp

text \<open>
  C11. Loading a configuration text succeeds exactly when every line is shorter than 512
  characters, every line that is not blank or a comment parses, and no two routes listen on the
  same endpoint; the result is then the list of the routes of those lines, in order and with
  their line numbers. Memory is assumed to suffice and the text to be shorter than 4 GiB.
\<close>

theorem load_routes_from_text_iff:
  assumes "\<forall>n. realloc_ok n" and "length data < 2 ^ 32"
  shows "load_routes_from_text realloc_ok data = Inr rs \<longleftrightarrow>
    list_all (\<lambda>l. length (strip_cr l) < MAX_LINE_LEN) (text_lines data) \<and>
    map route_of_line (route_lines 0 (text_lines data)) = map Inr rs \<and>
    listeners_distinct rs"
proof -
  have "realloc_ok = (\<lambda>_. True)" using assms(1) by auto
  then show ?thesis
    using load_lines_iff [of "[]" 0 "text_lines data"] few_routes [OF assms(2), of 0]
    by (simp add: load_routes_from_text_def load_routes_loop_lines listeners_distinct_def list_all_iff)
qed

theorem load_routes_from_text_iff_witness:
  "length ''tcp :80 builtin close'' < 2 ^ 32 \<and>
   (load_routes_from_text (\<lambda>_. True) ''tcp :80 builtin close'' =
      Inr (projr (load_routes_from_text (\<lambda>_. True) ''tcp :80 builtin close'')) \<longleftrightarrow>
    list_all (\<lambda>l. length (strip_cr l) < MAX_LINE_LEN) (text_lines ''tcp :80 builtin close'') \<and>
    map route_of_line (route_lines 0 (text_lines ''tcp :80 builtin close'')) =
      map Inr (projr (load_routes_from_text (\<lambda>_. True) ''tcp :80 builtin close'')) \<and>
    listeners_distinct (projr (load_routes_from_text (\<lambda>_. True) ''tcp :80 builtin close'')))"
  using load_routes_from_text_iff [of "\<lambda>_. True" "''tcp :80 builtin close''"] by simp

text \<open>
  The loader keeps its array in bounds and its routes well-formed and without conflicts, whether
  or not memory suffices.
\<close>

lemma route_of_line_wf:
  "route_of_line (n, l) = Inr r \<Longrightarrow> NUL \<notin> set l \<Longrightarrow> route_wf r"
  by (auto simp: route_of_line_def res_simps route_wf_def dest!: parse_route_line_inv)

lemma load_lines_inv:
  assumes "load_lines ok ls ln routes cap = Inr rs" and "length routes + length (route_lines ln ls) \<le> 2 ^ 31"
    and "\<forall>r \<in> set routes. route_wf r" and "listeners_distinct routes"
  shows "(\<forall>r \<in> set rs. route_wf r) \<and> listeners_distinct rs"
  using assms
proof (induction ls arbitrary: ln routes cap)
  case Nil
  then show ?case by auto
next
  case (Cons raw ls)
  show ?case
  proof (cases "line_text (strip_cr raw)")
    case None
    with Cons show ?thesis by (auto split: if_splits)
  next
    case (Some line)
    with Cons.prems(1) obtain cap' r where r: "route_of_line (ln + 1, line) = Inr r"
      and nc: "find_conflicting_route routes r < 0"
      and rest: "load_lines ok ls (ln + 1) (routes @ [r]) cap' = Inr rs"
      by (cases "route_of_line (ln + 1, line)") (auto simp: res_simps split: if_splits)
    have few: "length routes \<le> 2 ^ 31" "length (routes @ [r]) + length (route_lines (ln + 1) ls) \<le> 2 ^ 31"
      using Cons.prems(2) Some by simp_all
    have "route_wf r" using r line_text_no_NUL [OF Some] by (rule route_of_line_wf)
    with Cons.prems nc show ?thesis
      by (intro Cons.IH [OF rest few(2)]) (auto simp: listeners_distinct_snoc [OF few(1)])
  qed
qed

text \<open>The loader reports a conflict only for a line with a listener that an earlier line has.\<close>

lemma grow_routes_errors: "grow_routes ok n cap = Inl e \<Longrightarrow> e \<in> {EOVERFLOW, ENOMEM}"
  by (auto simp: grow_routes_def Let_def split: if_splits)

lemma load_lines_conflict:
  assumes "load_lines ok ls ln routes cap = Inl EADDRINUSE"
  shows "\<exists>pre nl post new r r'. route_lines ln ls = pre @ nl # post \<and> map route_of_line pre = map Inr new \<and>
    route_of_line nl = Inr r \<and> r' \<in> set (routes @ new) \<and> same_listen_endpoint (listen r') (listen r)"
  using assms
proof (induction ls arbitrary: ln routes cap)
  case (Cons raw ls)
  show ?case
  proof (cases "line_text (strip_cr raw)")
    case None
    with Cons.prems have "load_lines ok ls (ln + 1) routes cap = Inl EADDRINUSE" by (simp split: if_splits)
    from Cons.IH [OF this] None show ?thesis by simp
  next
    case (Some line)
    let ?nl = "(ln + 1, line)"
    obtain cap' where cap: "grow_routes ok (length routes) cap = Inr cap'"
      using Cons.prems Some grow_routes_errors by (cases "grow_routes ok (length routes) cap") (auto split: if_splits)
    obtain r where r: "route_of_line ?nl = Inr r"
      using Cons.prems Some cap by (cases "route_of_line ?nl") (auto split: if_splits)
    show ?thesis
    proof (cases "find_conflicting_route routes r \<ge> 0")
      case True
      then obtain r' where "r' \<in> set routes" "same_listen_endpoint (listen r') (listen r)" using find_conflicting_route_found by blast
      with Some r show ?thesis
        by (intro exI [of _ "[]"] exI [of _ ?nl] exI [of _ "route_lines (ln + 1) ls"] exI [of _ r] exI [of _ r']) simp
    next
      case False
      with Cons.prems Some cap r have "load_lines ok ls (ln + 1) (routes @ [r]) cap' = Inl EADDRINUSE" by (simp split: if_splits)
      from Cons.IH [OF this] obtain pre nl post new q r' where
        "route_lines (ln + 1) ls = pre @ nl # post" "map route_of_line pre = map Inr new" "route_of_line nl = Inr q"
        "r' \<in> set ((routes @ [r]) @ new)" "same_listen_endpoint (listen r') (listen q)" by blast
      with Some r show ?thesis
        by (intro exI [of _ "?nl # pre"] exI [of _ nl] exI [of _ post] exI [of _ "r # new"] exI [of _ q] exI [of _ r']) simp
    qed
  qed
qed simp

text \<open>
  C24. Listeners are never doubled, and never refused without a reason. Whatever bytes a configuration text of less than 4 GiB holds and
  however memory allocation behaves: the routes that \<^verbatim>\<open>load_routes_from_text\<close> returns are all well-formed,
  and no two of them listen with the same protocol on the same host and port or on the same path; and when it fails with
  \<^verbatim>\<open>EADDRINUSE\<close>, two lines of the text, the second one somewhere behind the first, have valid routes that do.
\<close>

theorem load_routes_from_text_sound:
  assumes "length data < 2 ^ 32"
  shows "case load_routes_from_text realloc_ok data of
      Inr rs \<Rightarrow> list_all route_wf rs \<and> distinct (filter (\<lambda>k. k \<noteq> None) (map (listen_key_of \<circ> listen) rs))
    | Inl e \<Rightarrow> e = EADDRINUSE \<longrightarrow> (\<exists>pre nl post first r r'. route_lines 0 (text_lines data) = pre @ nl # post \<and> first \<in> set pre \<and>
        route_of_line first = Inr r' \<and> route_of_line nl = Inr r \<and>
        listen_key_of (listen r') \<noteq> None \<and> listen_key_of (listen r') = listen_key_of (listen r))"
proof -
  let ?L = "route_lines 0 (text_lines data)"
  have load: "load_routes_from_text realloc_ok data = load_lines realloc_ok (text_lines data) 0 [] 0"
    by (simp add: load_routes_from_text_def load_routes_loop_lines)
  show ?thesis
  proof (cases "load_routes_from_text realloc_ok data")
    case (Inr rs)
    have "(\<forall>r \<in> set rs. route_wf r) \<and> listeners_distinct rs"
      by (rule load_lines_inv [of realloc_ok "text_lines data" 0 "[]" 0])
        (use Inr load few_routes [OF assms, of 0] in \<open>simp_all add: listeners_distinct_def\<close>)
    with Inr show ?thesis by (simp add: list_all_iff listeners_distinct_def)
  next
    case (Inl e)
    show ?thesis
    proof (cases "e = EADDRINUSE")
      case True
      from load_lines_conflict [of realloc_ok "text_lines data" 0 "[]" 0] Inl True load
      obtain pre nl post new r r' where c: "?L = pre @ nl # post" "map route_of_line pre = map Inr new" "route_of_line nl = Inr r"
        "r' \<in> set new" "same_listen_endpoint (listen r') (listen r)" by auto
      have "Inr r' \<in> set (map route_of_line pre)" using c(2,4) by simp
      then obtain first where "first \<in> set pre" "route_of_line first = Inr r'" by auto
      moreover have "listen_key_of (listen r') \<noteq> None" "listen_key_of (listen r') = listen_key_of (listen r)"
        using c(5) same_listen_endpoint_key by blast+
      ultimately have "\<exists>pre nl post first r r'. ?L = pre @ nl # post \<and> first \<in> set pre \<and> route_of_line first = Inr r' \<and>
        route_of_line nl = Inr r \<and> listen_key_of (listen r') \<noteq> None \<and> listen_key_of (listen r') = listen_key_of (listen r)"
        using c(1,3) by blast
      then show ?thesis unfolding Inl by simp
    qed (simp add: Inl)
  qed
qed

definition example_conflict :: string where
  "example_conflict = ''tcp :80 tcp b:1'' @ [LF] @ ''tcp 0.0.0.0:80 tcp b:2''"

text \<open>The host that is left out is \<^verbatim>\<open>0.0.0.0\<close>, so the second line has the listener of the first.\<close>

theorem load_routes_from_text_sound_witness:
  "load_routes_from_text (\<lambda>_. True) example_conflict = Inl EADDRINUSE \<and>
   (\<exists>pre nl post first r r'. route_lines 0 (text_lines example_conflict) = pre @ nl # post \<and> first \<in> set pre \<and>
      route_of_line first = Inr r' \<and> route_of_line nl = Inr r \<and>
      listen_key_of (listen r') \<noteq> None \<and> listen_key_of (listen r') = listen_key_of (listen r)) \<and>
   distinct (filter (\<lambda>k. k \<noteq> None) (map (listen_key_of \<circ> listen) (projr (load_routes_from_text (\<lambda>_. True) ''tcp :80 tcp b:1''))))"
proof -
  have "load_routes_from_text (\<lambda>_. True) example_conflict = Inl EADDRINUSE" "\<not> isl (load_routes_from_text (\<lambda>_. True) ''tcp :80 tcp b:1'')"
    by code_simp+
  moreover have "length example_conflict < 2 ^ 32" "length ''tcp :80 tcp b:1'' < 2 ^ 32" by (simp_all add: example_conflict_def)
  note this [THEN load_routes_from_text_sound [where realloc_ok = "\<lambda>_. True"]]
  ultimately show ?thesis by (auto simp: isl_def split: sum.splits)
qed

end
