(* ===== verification/Bind.thy ===== *)
theory Bind
  imports Route
begin

text \<open>
  Binding a listener to an address that may still be in use (\<^verbatim>\<open>src/bind.c\<close>), and the processor
  count of \<^verbatim>\<open>src/compat_cpu.c\<close>. The arithmetic is on \<^verbatim>\<open>int\<close>s, so every sum and
  product is checked: \<open>None\<close> is signed overflow, which is undefined in C.
\<close>

section \<open>Waiting for the address\<close>

definition BIND_WAIT_INTERVAL_MS :: int where "BIND_WAIT_INTERVAL_MS = 100"

text \<open>
  \<open>attempt n\<close> is the result of the \<open>n\<close>-th call of \<^verbatim>\<open>bind\<close>: success, or failure with the error
  number, \<open>None\<close> when that is 0. The result of the loop is the return code, the milliseconds slept and the
  number of calls made.
\<close>

type_synonym bind_attempt = "errno option + unit"

definition bind_rc :: "bind_attempt \<Rightarrow> unit result" where
  "bind_rc r = (case r of
     Inr _ \<Rightarrow> Inr () | Inl None \<Rightarrow> Inl EIO | Inl (Some e) \<Rightarrow> Inl e)"

function bind_loop ::
  "(nat \<Rightarrow> bind_attempt) \<Rightarrow> int \<Rightarrow> int \<Rightarrow> nat \<Rightarrow> (unit result \<times> int \<times> nat) option" where
  "bind_loop attempt wait_ms waited_ms n =
     (case attempt n of
        Inr _ \<Rightarrow> Some (Inr (), waited_ms, n + 1)
      | Inl err \<Rightarrow>
          if err \<noteq> Some EADDRINUSE \<or> wait_ms \<le> 0 \<or> waited_ms \<ge> wait_ms
          then Some (bind_rc (Inl err), waited_ms, n + 1)
          else (case int_result (waited_ms + BIND_WAIT_INTERVAL_MS) of
             None \<Rightarrow> None
           | Some waited_ms' \<Rightarrow> bind_loop attempt wait_ms waited_ms' (n + 1)))"
  by pat_completeness auto
termination
  by (relation "measure (\<lambda>(_, wait_ms, waited_ms, _). nat (wait_ms - waited_ms))")
    (auto simp: int_result_def BIND_WAIT_INTERVAL_MS_def split: if_splits)

declare bind_loop.simps [simp del]

definition bind_with_wait ::
  "(nat \<Rightarrow> bind_attempt) \<Rightarrow> route \<Rightarrow> (unit result \<times> int \<times> nat) option" where
  "bind_with_wait attempt r =
     (case int_result (1000 * bind_wait_sec (opts r)) of
        None \<Rightarrow> None
      | Some wait_ms \<Rightarrow> bind_loop attempt wait_ms 0 0)"

section \<open>How long it waits\<close>

text \<open>The attempt that ends the loop, with at most \<open>m\<close> more to come.\<close>

lemma bind_loop_stops:
  assumes "wait_ms = 100 * int (n + m)" and "wait_ms \<le> INT_MAX"
  shows "\<exists>k. n \<le> k \<and> k \<le> n + m \<and> (\<forall>i. n \<le> i \<and> i < k \<longrightarrow> attempt i = Inl (Some EADDRINUSE)) \<and>
    (attempt k \<noteq> Inl (Some EADDRINUSE) \<or> k = n + m) \<and>
    bind_loop attempt wait_ms (100 * int n) n = Some (bind_rc (attempt k), 100 * int k, k + 1)"
  using assms
proof (induction m arbitrary: n)
  case 0
  then have "bind_loop attempt wait_ms (100 * int n) n = Some (bind_rc (attempt n), 100 * int n, n + 1)"
    by (subst bind_loop.simps) (auto simp: bind_rc_def split: sum.split option.split)
  then show ?case by (intro exI [of _ n]) auto
next
  case (Suc m)
  show ?case
  proof (cases "attempt n = Inl (Some EADDRINUSE)")
    case False
    then have "bind_loop attempt wait_ms (100 * int n) n = Some (bind_rc (attempt n), 100 * int n, n + 1)"
      by (subst bind_loop.simps) (auto simp: bind_rc_def split: sum.split option.split)
    with False show ?thesis by (intro exI [of _ n]) auto
  next
    case True
    have next_ms: "100 * int n + 100 = 100 * int (n + 1)" by simp
    have "in_int (100 * int n + 100)" using Suc.prems by (simp add: in_int_def INT_MAX_def)
    then have step: "bind_loop attempt wait_ms (100 * int n) n = bind_loop attempt wait_ms (100 * int (n + 1)) (n + 1)"
      using True Suc.prems(1)
      by (subst bind_loop.simps) (simp add: int_result_def BIND_WAIT_INTERVAL_MS_def next_ms)
    have "wait_ms = 100 * int ((n + 1) + m)" using Suc.prems(1) by simp
    from Suc.IH [OF this Suc.prems(2)] obtain k where k: "n + 1 \<le> k" "k \<le> n + 1 + m"
      "\<forall>i. n + 1 \<le> i \<and> i < k \<longrightarrow> attempt i = Inl (Some EADDRINUSE)"
      "attempt k \<noteq> Inl (Some EADDRINUSE) \<or> k = n + 1 + m"
      "bind_loop attempt wait_ms (100 * int (n + 1)) (n + 1) = Some (bind_rc (attempt k), 100 * int k, k + 1)"
      by blast
    have "\<forall>i. n \<le> i \<and> i < k \<longrightarrow> attempt i = Inl (Some EADDRINUSE)"
      using k(3) True by (metis Suc_eq_plus1 le_neq_implies_less less_eq_Suc_le)
    with k step show ?thesis by (intro exI [of _ k]) simp
  qed
qed

lemma bind_with_wait_total:
  assumes "0 \<le> bind_wait_sec (opts r)" and "bind_wait_sec (opts r) \<le> 2147483"
  shows "\<exists>rc w n. bind_with_wait attempt r = Some (rc, w, n)"
proof -
  let ?t = "bind_wait_sec (opts r)"
  have "1000 * ?t = 100 * int (0 + 10 * nat ?t)" "1000 * ?t \<le> INT_MAX" "in_int (1000 * ?t)"
    using assms by (simp_all add: INT_MAX_def in_int_def)
  moreover from bind_loop_stops [OF this(1,2), of attempt]
  obtain k where "bind_loop attempt (1000 * ?t) (100 * int 0) 0 = Some (bind_rc (attempt k), 100 * int k, k + 1)" by blast
  ultimately show ?thesis by (simp add: bind_with_wait_def int_result_def)
qed

text \<open>
  C37. For a wait of up to 2147483 seconds \<^verbatim>\<open>bind_with_wait\<close> returns. It calls \<^verbatim>\<open>bind\<close> again every
  100 ms as long as the address is in use, ten times for each second of the wait and once more, and
  returns the result of the last call: the first that succeeds or fails for another reason, or the
  one made when the time is up. For a longer wait, which the parser accepts, the product
  \<^verbatim>\<open>1000 * bind_wait_sec\<close> overflows.
\<close>

theorem bind_with_wait_spec:
  assumes "0 \<le> bind_wait_sec (opts r)"
  shows "if bind_wait_sec (opts r) \<le> 2147483
    then \<exists>k. k \<le> 10 * nat (bind_wait_sec (opts r)) \<and> (\<forall>i < k. attempt i = Inl (Some EADDRINUSE)) \<and>
      (attempt k \<noteq> Inl (Some EADDRINUSE) \<or> k = 10 * nat (bind_wait_sec (opts r))) \<and>
      bind_with_wait attempt r = Some (bind_rc (attempt k), 100 * int k, k + 1)
    else bind_with_wait attempt r = None"
proof (cases "bind_wait_sec (opts r) \<le> 2147483")
  case True
  let ?t = "bind_wait_sec (opts r)"
  have "in_int (1000 * ?t)" using True assms by (simp add: in_int_def INT_MAX_def)
  then have code: "bind_with_wait attempt r = bind_loop attempt (1000 * ?t) (100 * int 0) 0"
    by (simp add: bind_with_wait_def int_result_def)
  have "1000 * ?t = 100 * int (0 + 10 * nat ?t)" "1000 * ?t \<le> INT_MAX"
    using True assms by (simp_all add: INT_MAX_def)
  from bind_loop_stops [OF this, of attempt] show ?thesis using True code by auto
next
  case False
  then show ?thesis by (simp add: bind_with_wait_def int_result_def in_int_def INT_MAX_def)
qed

theorem bind_with_wait_spec_witness:
  "bind_with_wait (\<lambda>n. if n < 3 then Inl (Some EADDRINUSE) else Inr ())
      (route_zero\<lparr>opts := route_options_zero\<lparr>bind_wait_sec := 1\<rparr>\<rparr>) = Some (Inr (), 300, 4) \<and>
   bind_with_wait (\<lambda>n. Inr ()) (route_zero\<lparr>opts := route_options_zero\<lparr>bind_wait_sec := 2147484\<rparr>\<rparr>) = None"
proof
  let ?b = "\<lambda>n :: nat. if n < 3 then Inl (Some EADDRINUSE) else Inr ()"
  let ?r = "\<lambda>t. route_zero\<lparr>opts := route_options_zero\<lparr>bind_wait_sec := t\<rparr>\<rparr>"
  from bind_with_wait_spec [of "?r 1" ?b] obtain k where k: "\<forall>i < k. ?b i = Inl (Some EADDRINUSE)"
    "?b k \<noteq> Inl (Some EADDRINUSE) \<or> k = 10" "bind_with_wait ?b (?r 1) = Some (bind_rc (?b k), 100 * int k, k + 1)"
    by auto
  have "\<not> 3 < k" using k(1) by (metis Inl_Inr_False less_irrefl)
  moreover have "\<not> k < 3" using k(2) by auto
  ultimately have "k = 3" by simp
  with k(3) show "bind_with_wait ?b (?r 1) = Some (Inr (), 300, 4)" by (simp add: bind_rc_def)
  show "bind_with_wait (\<lambda>n. Inr ()) (?r 2147484) = None"
    using bind_with_wait_spec [of "?r 2147484" "\<lambda>n. Inr ()"] by simp
qed

section \<open>Processors\<close>

text \<open>\<^verbatim>\<open>compat_cpu_count\<close>; \<open>sysconf\<close> is the result of the call, a \<^verbatim>\<open>long\<close>.\<close>

definition compat_cpu_count :: "int \<Rightarrow> int" where
  "compat_cpu_count sysconf = (if sysconf < 1 \<or> sysconf > INT_MAX then 1 else sysconf)"

lemma compat_cpu_count_range: "1 \<le> compat_cpu_count n \<and> compat_cpu_count n \<le> INT_MAX"
  by (simp add: compat_cpu_count_def INT_MAX_def)

text \<open>
  \<^verbatim>\<open>sleep_ms\<close> in nanoseconds: \<open>rems\<close> are the times that \<^verbatim>\<open>nanosleep\<close> reports as remaining when it is interrupted,
  and with which it is called again. The result is the time that was slept.
\<close>

fun sleep_loop :: "int \<Rightarrow> int list \<Rightarrow> int" where
  "sleep_loop ts [] = ts"
| "sleep_loop ts (rem # rems) = (ts - rem) + sleep_loop rem rems"

definition sleep_ms :: "32 word \<Rightarrow> int list \<Rightarrow> int" where
  "sleep_ms ms rems =
     (let sec = uint ms div 1000; nsec = uint ms mod 1000 * 1000000 in sleep_loop (sec * 1000000000 + nsec) rems)"

lemma sleep_loop_total: "sleep_loop ts rems = ts"
  by (induction ts rems rule: sleep_loop.induct) simp_all

lemma sleep_ms_total: "sleep_ms ms rems = uint ms * 1000000"
proof -
  have "uint ms = 1000 * (uint ms div 1000) + uint ms mod 1000" by simp
  then show ?thesis unfolding sleep_ms_def Let_def sleep_loop_total by linarith
qed

end
