(* ===== verification/Options.thy ===== *)
theory Options
  imports Worker File_Conf Bind
begin

text \<open>
  The command line: the option loop at the start of \<^verbatim>\<open>main\<close> in \<^verbatim>\<open>src/tinyproxy.c\<close>, up to the
  point where it is decided whether to run and with which routes. \<^verbatim>\<open>getopt\<close> is modelled as the GNU C
  library defines it: option characters can be joined, an argument can be joined to its option,
  words that are no options are skipped, and \<^verbatim>\<open>--\<close> ends the options.
\<close>

section \<open>Reading options\<close>

text \<open>What one call of \<^verbatim>\<open>getopt\<close> returns: an option with its argument, or the question mark.\<close>

datatype getopt_item = Opt char "string option" | Opt_Error

text \<open>Whether an option character is known, and then whether it takes an argument.\<close>

fun opt_lookup :: "string \<Rightarrow> char \<Rightarrow> bool option" where
  "opt_lookup [] c = None"
| "opt_lookup (d # ds) c =
     (if c = CHR '':'' \<or> c = CHR '';'' then None
      else if d = c then Some (ds \<noteq> [] \<and> hd ds = CHR '':'') else opt_lookup ds c)"

text \<open>The options of one word, given without its dash, and the words that follow.\<close>

fun getopt_word :: "string \<Rightarrow> string \<Rightarrow> string list \<Rightarrow> getopt_item list \<times> string list" where
  "getopt_word optstring [] args = ([], args)"
| "getopt_word optstring (c # cs) args =
     (case opt_lookup optstring c of
        None \<Rightarrow> map_prod (Cons Opt_Error) id (getopt_word optstring cs args)
      | Some False \<Rightarrow> map_prod (Cons (Opt c None)) id (getopt_word optstring cs args)
      | Some True \<Rightarrow>
          if cs \<noteq> [] then ([Opt c (Some cs)], args)
          else (case args of [] \<Rightarrow> ([Opt_Error], []) | a # args \<Rightarrow> ([Opt c (Some a)], args)))"

lemma getopt_word_shrinks: "length (snd (getopt_word optstring cs args)) \<le> length args"
  by (induction optstring cs args rule: getopt_word.induct) (auto split: option.splits list.splits bool.splits)

text \<open>The options in order, and the words that are left (from \<^verbatim>\<open>optind\<close> on when all is done).\<close>

function getopt_all :: "string \<Rightarrow> string list \<Rightarrow> getopt_item list \<times> string list" where
  "getopt_all optstring [] = ([], [])"
| "getopt_all optstring (a # args) =
     (if a = ''--'' then ([], args)
      else if length a \<ge> 2 \<and> hd a = CHR ''-'' then
        (let (items, args) = getopt_word optstring (tl a) args in
         map_prod (append items) id (getopt_all optstring args))
      else map_prod id (Cons a) (getopt_all optstring args))"
  by pat_completeness auto
termination
proof (relation "measure (\<lambda>(_, args). length args)", goal_cases)
  case (2 optstring a args x items args')
  then have "args' = snd (getopt_word optstring (tl a) args)" by (metis snd_conv)
  then show ?case using getopt_word_shrinks [of optstring "tl a" args] by simp
qed auto

declare getopt_all.simps [simp del]

section \<open>The option loop\<close>

text \<open>
  The variables that the loop sets. The array of inline routes is \<open>mo_inline\<close> with its capacity; the log
  follows its memory.
\<close>

record main_opts =
  mo_worker_count :: int
  mo_conf_path :: "string option"
  mo_inline :: "string list"
  mo_cap :: nat
  mo_trace :: "res_event list"

definition main_opts_init :: main_opts where
  "main_opts_init = \<lparr>mo_worker_count = 1, mo_conf_path = None, mo_inline = [], mo_cap = 0, mo_trace = []\<rparr>"

text \<open>\<^verbatim>\<open>free(inline_routes)\<close>\<close>

definition free_inline :: "main_opts \<Rightarrow> res_event list" where
  "free_inline o' = mo_trace o' @ (if mo_cap o' > 0 then [Release R_inline_routes] else [])"

text \<open>Appending an inline route; \<open>realloc_ok n\<close> says whether \<^verbatim>\<open>realloc\<close> to \<open>n\<close> entries succeeds.\<close>

definition add_inline :: "(nat \<Rightarrow> bool) \<Rightarrow> string \<Rightarrow> main_opts \<Rightarrow> main_opts option" where
  "add_inline realloc_ok arg o' =
     (if length (mo_inline o') = mo_cap o' then
        (let new_cap = (if mo_cap o' = 0 then 4 else mo_cap o' * 2) in
         if \<not> realloc_ok new_cap then None
         else Some (o'\<lparr>mo_inline := mo_inline o' @ [arg], mo_cap := new_cap,
           mo_trace := free_inline o' @ [Acquire R_inline_routes]\<rparr>))
      else Some (o'\<lparr>mo_inline := mo_inline o' @ [arg]\<rparr>))"

text \<open>\<open>Inl\<close> is the exit code of an early return, with the log.\<close>

type_synonym exit_status = "int \<times> res_event list"

definition option_step ::
  "int \<Rightarrow> (nat \<Rightarrow> bool) \<Rightarrow> getopt_item \<Rightarrow> main_opts \<Rightarrow> exit_status + main_opts" where
  "option_step sysconf realloc_ok item o' =
     (case item of
        Opt_Error \<Rightarrow> Inl (2, free_inline o')
      | Opt c optarg \<Rightarrow>
          if c = CHR ''w'' then
            (case optarg of
               None \<Rightarrow> Inl (2, mo_trace o')
             | Some arg \<Rightarrow>
                 if arg = [] then Inl (2, mo_trace o')
                 else (let (n, end', erange) = strtoul10 arg in
                   if erange \<or> end' = arg \<or> end' \<noteq> [] \<or> n > INT_MAX then Inl (2, mo_trace o')
                   else Inr (o'\<lparr>mo_worker_count := (if n = 0 then compat_cpu_count sysconf - 1 else n)\<rparr>)))
          else if c = CHR ''c'' then
            (case optarg of
               None \<Rightarrow> Inl (2, free_inline o')
             | Some arg \<Rightarrow> if arg = [] then Inl (2, free_inline o') else Inr (o'\<lparr>mo_conf_path := Some arg\<rparr>))
          else if c = CHR ''L'' then
            (case optarg of
               None \<Rightarrow> Inl (2, free_inline o')
             | Some arg \<Rightarrow>
                 if arg = [] then Inl (2, free_inline o')
                 else (case add_inline realloc_ok arg o' of None \<Rightarrow> Inl (1, free_inline o') | Some o' \<Rightarrow> Inr o'))
          else if c = CHR ''h'' then Inl (0, free_inline o')
          else if c = CHR ''v'' then Inl (0, free_inline o')
          else Inl (2, free_inline o'))"

fun option_loop ::
  "int \<Rightarrow> (nat \<Rightarrow> bool) \<Rightarrow> getopt_item list \<Rightarrow> main_opts \<Rightarrow> exit_status + main_opts" where
  "option_loop sysconf realloc_ok [] o' = Inr o'"
| "option_loop sysconf realloc_ok (item # items) o' =
     (case option_step sysconf realloc_ok item o' of
        Inl e \<Rightarrow> Inl e
      | Inr o' \<Rightarrow> option_loop sysconf realloc_ok items o')"

text \<open>The loop and the three checks after it, on the words after the program's name.\<close>

definition main_options ::
  "int \<Rightarrow> (nat \<Rightarrow> bool) \<Rightarrow> string list \<Rightarrow> exit_status + main_opts" where
  "main_options sysconf realloc_ok argv =
     (let (items, rest) = getopt_all ''c:L:w:h:v'' argv in
      case option_loop sysconf realloc_ok items main_opts_init of
        Inl e \<Rightarrow> Inl e
      | Inr o' \<Rightarrow>
          if mo_conf_path o' = None \<and> mo_inline o' = [] then Inl (0, free_inline o')
          else if mo_conf_path o' \<noteq> None \<and> mo_inline o' \<noteq> [] then Inl (2, free_inline o')
          else if rest \<noteq> [] then Inl (2, mo_trace o')
          else Inr o')"

section \<open>What a command line means\<close>

text \<open>
  An option that is given, joined to its argument or followed by it in a word of its own.
\<close>

datatype given = Given_c string | Given_L string | Given_w nat

definition given_text :: "given \<Rightarrow> char \<times> string" where
  "given_text g = (case g of Given_c f \<Rightarrow> (CHR ''c'', f) | Given_L r \<Rightarrow> (CHR ''L'', r) | Given_w n \<Rightarrow> (CHR ''w'', show_nat n))"

definition given_words :: "bool \<times> given \<Rightarrow> string list" where
  "given_words = (\<lambda>(joined, g). let (c, arg) = given_text g in
     if joined then [CHR ''-'' # c # arg] else [[CHR ''-'', c], arg])"

definition given_ok :: "given \<Rightarrow> bool" where
  "given_ok g = (case g of Given_c f \<Rightarrow> f \<noteq> [] | Given_L r \<Rightarrow> r \<noteq> [] | Given_w n \<Rightarrow> int n \<le> INT_MAX)"

definition given_files :: "given list \<Rightarrow> string list" where
  "given_files gs = concat (map (\<lambda>g. case g of Given_c f \<Rightarrow> [f] | _ \<Rightarrow> []) gs)"

definition given_routes :: "given list \<Rightarrow> string list" where
  "given_routes gs = concat (map (\<lambda>g. case g of Given_L r \<Rightarrow> [r] | _ \<Rightarrow> []) gs)"

definition given_counts :: "given list \<Rightarrow> nat list" where
  "given_counts gs = concat (map (\<lambda>g. case g of Given_w n \<Rightarrow> [n] | _ \<Rightarrow> []) gs)"

definition workers_for :: "int \<Rightarrow> nat list \<Rightarrow> int" where
  "workers_for sysconf ns =
     (if ns = [] then 1 else if last ns = 0 then compat_cpu_count sysconf - 1 else int (last ns))"

lemmas given_defs = given_files_def given_routes_def given_counts_def

lemma given_append [simp]:
  "given_files (gs @ hs) = given_files gs @ given_files hs" "given_routes (gs @ hs) = given_routes gs @ given_routes hs"
  "given_counts (gs @ hs) = given_counts gs @ given_counts hs"
  by (simp_all add: given_defs)

lemma given_single [simp]:
  "given_files [] = []" "given_routes [] = []" "given_counts [] = []"
  "given_files (g # gs) = (case g of Given_c f \<Rightarrow> [f] | _ \<Rightarrow> []) @ given_files gs"
  "given_routes (g # gs) = (case g of Given_L r \<Rightarrow> [r] | _ \<Rightarrow> []) @ given_routes gs"
  "given_counts (g # gs) = (case g of Given_w n \<Rightarrow> [n] | _ \<Rightarrow> []) @ given_counts gs"
  by (simp_all add: given_defs)

definition item_of :: "given \<Rightarrow> getopt_item" where
  "item_of g = (let (c, arg) = given_text g in Opt c (Some arg))"

lemma given_text_nonempty: "given_ok g \<Longrightarrow> snd (given_text g) \<noteq> []"
  by (cases g) (auto simp: given_ok_def given_text_def)

lemma append_eq_Cons_fun: "append [x] = Cons x"
  by (simp add: fun_eq_iff)

lemma getopt_given:
  assumes "given_ok g"
  shows "getopt_all ''c:L:w:h:v'' (given_words (j, g) @ args) =
    map_prod (Cons (item_of g)) id (getopt_all ''c:L:w:h:v'' args)"
proof -
  obtain c arg where g: "given_text g = (c, arg)" by fastforce
  have c: "opt_lookup ''c:L:w:h:v'' c = Some True" "c \<noteq> CHR ''-''" using g by (cases g; auto simp: given_text_def)+
  have arg: "arg \<noteq> []" using given_text_nonempty [OF assms] g by simp
  have "getopt_all ''c:L:w:h:v'' ((CHR ''-'' # c # arg) # args) =
      map_prod (append [Opt c (Some arg)]) id (getopt_all ''c:L:w:h:v'' args)"
    using c arg by (subst getopt_all.simps) (simp del: opt_lookup.simps)
  moreover have "getopt_all ''c:L:w:h:v'' ([CHR ''-'', c] # arg # args) =
      map_prod (append [Opt c (Some arg)]) id (getopt_all ''c:L:w:h:v'' args)"
    using c by (subst getopt_all.simps) (simp del: opt_lookup.simps)
  ultimately show ?thesis using g by (simp add: given_words_def item_of_def append_eq_Cons_fun)
qed

lemma getopt_all_given:
  "list_all given_ok (map snd gs) \<Longrightarrow>
   getopt_all ''c:L:w:h:v'' (concat (map given_words gs) @ rest) =
   map_prod (append (map (item_of \<circ> snd) gs)) id (getopt_all ''c:L:w:h:v'' rest)"
proof (induction gs)
  case (Cons g gs)
  then show ?case
    using getopt_given [of "snd g" "fst g" "concat (map given_words gs) @ rest"]
    by (simp add: prod.map_comp o_def)
qed (simp add: map_prod_def case_prod_beta)

text \<open>What the loop has collected after the options \<open>gs\<close>.\<close>

definition collected :: "int \<Rightarrow> given list \<Rightarrow> main_opts \<Rightarrow> bool" where
  "collected sysconf gs o' \<longleftrightarrow> mo_worker_count o' = workers_for sysconf (given_counts gs) \<and>
     mo_conf_path o' = (if given_files gs = [] then None else Some (last (given_files gs))) \<and>
     mo_inline o' = given_routes gs \<and> length (mo_inline o') \<le> mo_cap o' \<and>
     (mo_cap o' = 0 \<longleftrightarrow> mo_inline o' = []) \<and>
     ledger [] (mo_trace o') = Some (if mo_cap o' = 0 then [] else [R_inline_routes])"

lemma add_inline_ok:
  assumes "collected sysconf gs o'"
  shows "\<exists>o''. add_inline (\<lambda>_. True) r o' = Some o'' \<and> collected sysconf (gs @ [Given_L r]) o''"
  using assms
  by (auto simp: add_inline_def collected_def free_inline_def Let_def ledger_append)

lemma option_step_ok:
  assumes "collected sysconf gs o'" and "given_ok g"
  shows "\<exists>o''. option_step sysconf (\<lambda>_. True) (item_of g) o' = Inr o'' \<and> collected sysconf (gs @ [g]) o''"
proof (cases g)
  case (Given_c f)
  with assms(1,2) show ?thesis
    by (auto simp: option_step_def item_of_def given_text_def given_ok_def collected_def)
next
  case (Given_L r)
  with add_inline_ok [OF assms(1), of r] assms(2) show ?thesis
    by (auto simp: option_step_def item_of_def given_text_def given_ok_def)
next
  case (Given_w n)
  with assms(2) have "int n \<le> INT_MAX" by (simp add: given_ok_def)
  moreover from this have "strtoul10 (show_nat n) = (int n, [], False)"
    by (intro strtoul10_show_nat) (simp add: INT_MAX_def ULONG_MAX_def)
  ultimately show ?thesis
    using Given_w assms(1) show_nat_ne [of n] show_nat_ne [of n, symmetric]
    by (auto simp: option_step_def item_of_def given_text_def collected_def workers_for_def)
qed

lemma option_loop_ok:
  assumes "collected sysconf gs o'" and "list_all given_ok hs"
  shows "\<exists>o''. option_loop sysconf (\<lambda>_. True) (map item_of hs) o' = Inr o'' \<and> collected sysconf (gs @ hs) o''"
  using assms
proof (induction hs arbitrary: gs o')
  case (Cons h hs)
  obtain o1 where "option_step sysconf (\<lambda>_. True) (item_of h) o' = Inr o1" "collected sysconf (gs @ [h]) o1"
    using option_step_ok [of sysconf gs o' h] Cons.prems by auto
  with Cons.IH [of "gs @ [h]" o1] Cons.prems show ?case by simp
qed simp

lemma main_options_result:
  assumes "list_all given_ok (map snd gs)"
  shows "case main_options sysconf (\<lambda>_. True) (concat (map given_words gs)) of
      Inr o' \<Rightarrow> (given_files (map snd gs) = []) \<noteq> (given_routes (map snd gs) = []) \<and>
        mo_inline o' = given_routes (map snd gs) \<and>
        mo_conf_path o' = (if given_files (map snd gs) = [] then None else Some (last (given_files (map snd gs)))) \<and>
        mo_worker_count o' = workers_for sysconf (given_counts (map snd gs)) \<and>
        ledger [] (mo_trace o') = Some (if mo_inline o' = [] then [] else [R_inline_routes])
    | Inl (ec, tr) \<Rightarrow> (given_files (map snd gs) = []) = (given_routes (map snd gs) = []) \<and>
        ec = (if given_files (map snd gs) = [] then 0 else 2) \<and> ledger [] tr = Some []"
proof -
  have "collected sysconf [] main_opts_init" by (simp add: collected_def main_opts_init_def workers_for_def)
  from option_loop_ok [OF this assms] obtain o' where o':
    "option_loop sysconf (\<lambda>_. True) (map item_of (map snd gs)) main_opts_init = Inr o'" "collected sysconf (map snd gs) o'"
    by auto
  have "getopt_all ''c:L:w:h:v'' (concat (map given_words gs)) = (map item_of (map snd gs), [])"
    using getopt_all_given [OF assms, of "[]"] by (simp add: getopt_all.simps)
  with o' show ?thesis by (auto simp: main_options_def collected_def free_inline_def ledger_append)
qed



text \<open>
  The two cases left out, in which the code differs from its usage text. The text says that \<^verbatim>\<open>-w 0\<close> means one worker per processor; it
  is one less, and none at all on a machine with one processor. And it says that the configuration file defaults to
  \<^verbatim>\<open>tinyproxy.conf\<close>; without \<^verbatim>\<open>-c\<close> and \<^verbatim>\<open>-L\<close> the program prints the usage and exits with 0.
\<close>

lemma workers_zero_one_less: "0 < n \<Longrightarrow> n \<le> INT_MAX \<Longrightarrow> workers_for n [0] = n - 1"
  by (simp add: workers_for_def compat_cpu_count_def)

lemma main_options_no_default_file: "main_options sysconf (\<lambda>_. True) [] = Inl (0, [])"
  by (simp add: main_options_def getopt_all.simps main_opts_init_def free_inline_def)

end
