(* ===== verification/Ledger.thy ===== *)
theory Ledger
  imports Worker "HOL-Library.Multiset"
begin

text \<open>
  The resources that a component holds after a log of acquired and released resources. The order in
  which they were acquired does not matter, so that a set-up and a clean-up in another order can be
  compared.
\<close>

section \<open>Resources that are held\<close>

text \<open>After the log \<open>tr\<close> exactly the resources \<open>rs\<close> are held, and nothing was released twice.\<close>

definition holds :: "res_event list \<Rightarrow> resource list \<Rightarrow> bool" where
  "holds tr rs \<longleftrightarrow> (\<exists>hs. ledger [] tr = Some hs \<and> mset hs = mset rs)"

lemma holds_perm: "holds tr rs \<Longrightarrow> mset rs = mset rs' \<Longrightarrow> holds tr rs'"
  by (auto simp: holds_def)

lemma holds_acquire: "holds tr rs \<Longrightarrow> r \<notin> set rs \<Longrightarrow> holds (tr @ [Acquire r]) (r # rs)"
  by (auto simp: holds_def ledger_append simp flip: set_mset_mset)

lemma holds_release: "holds tr rs \<Longrightarrow> r \<in> set rs \<Longrightarrow> holds (tr @ [Release r]) (remove1 r rs)"
  by (auto simp: holds_def ledger_append simp flip: set_mset_mset)

lemma holds_releases: "holds tr rs \<Longrightarrow> mset rs = mset (ds @ qs) \<Longrightarrow> holds (tr @ map Release ds) qs"
proof (induction ds arbitrary: tr rs)
  case (Cons d ds)
  have "d \<in> set rs" using mset_eq_setD [OF Cons.prems(2)] by simp
  then have "holds (tr @ [Release d]) (remove1 d rs)" using Cons.prems(1) by (rule holds_release [rotated])
  moreover have "mset (remove1 d rs) = mset (ds @ qs)" using Cons.prems(2) by simp
  ultimately show ?case using Cons.IH [of "tr @ [Release d]"] by simp
qed (auto simp: holds_def)

lemma holds_release_all:
  assumes "holds tr rs" and "mset rs = mset ds"
  shows "ledger [] (tr @ map Release ds) = Some []"
proof -
  have "holds (tr @ map Release ds) []" using assms by (intro holds_releases [OF assms(1)]) simp
  then show ?thesis by (simp add: holds_def)
qed

end
