(* ===== verification/Signals.thy ===== *)
theory Signals
  imports Ledger
begin

text \<open>
  The handlers of \<^verbatim>\<open>SIGINT\<close> and \<^verbatim>\<open>SIGTERM\<close> (\<^verbatim>\<open>src/signals.c\<close>, \<^verbatim>\<open>src/signals.h\<close>): the callback, which
  logs the signal and ends the event loop, and who owns the two events.
\<close>

section \<open>The callback\<close>

text \<open>The signal numbers of Linux.\<close>

definition SIGINT :: int where "SIGINT = 2"
definition SIGTERM :: int where "SIGTERM = 15"

definition signal_name :: "int \<Rightarrow> string" where
  "signal_name sig = (if sig = SIGINT then ''SIGINT'' else if sig = SIGTERM then ''SIGTERM'' else ''unknown'')"

text \<open>\<^verbatim>\<open>signal_cb\<close>: the message and the fields that are logged, and the loop.\<close>

definition signal_cb :: "int \<Rightarrow> event_loop \<Rightarrow> (string \<times> (string \<times> string) list) \<times> event_loop" where
  "signal_cb sig base =
     ((''received signal, shutting down'', [(''signal'', signal_name sig)]), base\<lparr>el_break := True\<rparr>)"

section \<open>The events\<close>

record signal_events =
  sigint_ev :: bool
  sigterm_ev :: bool

record signal_calls =
  gk_sigint_new :: bool
  gk_sigterm_new :: bool
  gk_sigint_add :: bool
  gk_sigterm_add :: bool

text \<open>
  \<^verbatim>\<open>event_free\<close> reads the event, so that a call with the null pointer is undefined. The log of main is
  passed along.
\<close>

definition event_free :: "bool \<Rightarrow> resource \<Rightarrow> res_event list \<Rightarrow> res_event list option" where
  "event_free ev r tr = (if ev then Some (tr @ [Release r]) else None)"

definition free_signal_handlers ::
  "signal_events \<times> res_event list \<Rightarrow> (signal_events \<times> res_event list) option" where
  "free_signal_handlers = (\<lambda>(signals, tr). do {
     tr \<leftarrow> event_free (sigint_ev signals) R_sigint tr;
     tr \<leftarrow> event_free (sigterm_ev signals) R_sigterm tr;
     Some (signals\<lparr>sigint_ev := False, sigterm_ev := False\<rparr>, tr) })"

text \<open>The first component of the result tells whether 0 is returned, and not -1.\<close>

definition setup_signal_handlers ::
  "signal_calls \<Rightarrow> bool \<Rightarrow> res_event list \<Rightarrow> (bool \<times> signal_events \<times> res_event list) option" where
  "setup_signal_handlers k base tr =
     (let failed = (\<lambda>s. map_option (Pair False) (free_signal_handlers s));
          s0 = \<lparr>sigint_ev = False, sigterm_ev = False\<rparr> in
      if \<not> base then Some (False, s0, tr)
      else if \<not> gk_sigint_new k then failed (s0, tr)
      else let s1 = s0\<lparr>sigint_ev := True\<rparr>; tr = tr @ [Acquire R_sigint] in
        if \<not> gk_sigterm_new k then failed (s1, tr)
        else let s2 = s1\<lparr>sigterm_ev := True\<rparr>; tr = tr @ [Acquire R_sigterm] in
          if \<not> gk_sigint_add k then failed (s2, tr)
          else if \<not> gk_sigterm_add k then failed (s2, tr)
          else Some (True, s2, tr))"

lemmas signal_defs = setup_signal_handlers_def free_signal_handlers_def event_free_def

text \<open>
  The set-up is defined exactly when both events can be made: the clean-up frees both, also
  one that was not made.
\<close>

lemma setup_signal_handlers_returns:
  "setup_signal_handlers k True tr = None \<longleftrightarrow> \<not> (gk_sigint_new k \<and> gk_sigterm_new k)"
  by (cases "gk_sigint_new k"; cases "gk_sigterm_new k"; cases "gk_sigint_add k"; cases "gk_sigterm_add k")
    (simp_all add: signal_defs Let_def)

lemma free_signal_handlers_ok:
  assumes "sigint_ev signals" and "sigterm_ev signals" and "holds tr rs" and "mset rs = mset (R_sigint # R_sigterm # qs)"
  shows "\<exists>signals' tr'. free_signal_handlers (signals, tr) = Some (signals', tr') \<and> holds tr' qs"
  using assms holds_releases [OF assms(3), of "[R_sigint, R_sigterm]" qs] by (simp add: signal_defs)

lemma setup_signal_handlers_ok:
  assumes "gk_sigint_new k" and "gk_sigterm_new k" and "holds tr rs" and "R_sigint \<notin> set rs" and "R_sigterm \<notin> set rs"
  shows "\<exists>ok signals tr'. setup_signal_handlers k True tr = Some (ok, signals, tr') \<and>
    holds tr' (if ok then R_sigterm # R_sigint # rs else rs) \<and>
    (ok \<longrightarrow> sigint_ev signals \<and> sigterm_ev signals)"
proof -
  let ?s = "\<lparr>sigint_ev = True, sigterm_ev = True\<rparr>" and ?tr = "(tr @ [Acquire R_sigint]) @ [Acquire R_sigterm]"
  have h: "holds ?tr (R_sigterm # R_sigint # rs)"
    using assms by (intro holds_acquire) auto
  have "setup_signal_handlers k True tr = (if gk_sigint_add k \<and> gk_sigterm_add k then Some (True, ?s, ?tr)
      else map_option (Pair False) (free_signal_handlers (?s, ?tr)))"
    using assms(1,2) by (simp add: setup_signal_handlers_def Let_def)
  with h free_signal_handlers_ok [OF _ _ h, of ?s rs] show ?thesis by auto
qed

end
