(* ===== verification/Worker_System.thy ===== *)
theory Worker_System
  imports Worker
begin

text \<open>
  A running worker thread and the threads that talk to it, interleaved at the granularity of the
  critical sections of \<^verbatim>\<open>pending_mu\<close> and of the calls on the notify sockets (\<^verbatim>\<open>src/worker.c\<close>).
  Any number of threads enqueue messages and stop the worker; each of them sends its wake-up byte
  some time after it left the critical section. The worker drains the notify socket, takes the
  queue, runs it, and looks at the stop flag. The invariant shows that no message is lost,
  duplicated or reordered, that memory is used correctly in every interleaving, and that a
  wake-up is lost only when \<^verbatim>\<open>send\<close> fails.
\<close>

section \<open>The transition system\<close>

text \<open>Where the worker thread is in \<^verbatim>\<open>worker_notify_cb\<close>.\<close>

datatype worker_pc =
    In_Dispatch | Draining | Drained | Running "addr option" | Checking | Exited

record 'app sys =
  s_w :: worker
  s_st :: store
  s_notify :: nat
  s_inflight :: nat
  s_pc :: worker_pc
  s_app :: 'app
  s_accepted :: "job list"
  s_done :: "job list"
  s_missed :: bool

text \<open>
  \<open>s_inflight\<close> counts the threads that have queued a message or set the stop flag and have not yet
  sent the byte. The other fields are histories: the jobs that were queued, those that were run, and whether,
  since the worker last took its queue, a \<^verbatim>\<open>send\<close> has left the notify socket empty.
\<close>

definition put_job :: "addr \<Rightarrow> job \<Rightarrow> store \<Rightarrow> store" where
  "put_job a j st = st\<lparr>st_msgs := (st_msgs st)(a \<mapsto> \<lparr>next_msg = None, payload = fst j\<rparr>),
     st_bufs := (case data_ptr (fst j) of None \<Rightarrow> st_bufs st | Some b \<Rightarrow> (st_bufs st)(b \<mapsto> snd j))\<rparr>"

definition fresh_job :: "addr \<Rightarrow> job \<Rightarrow> store \<Rightarrow> bool" where
  "fresh_job a j st \<longleftrightarrow> st_msgs st a = None \<and>
     (case data_ptr (fst j) of None \<Rightarrow> snd j = [] | Some b \<Rightarrow> st_bufs st b = None)"

text \<open>
  \<^verbatim>\<open>send\<close> on the notify socket may take the byte or fail in any way: both callers of \<^verbatim>\<open>notify_worker\<close> go on
  after an error, one of them with a warning.
\<close>

inductive worker_step :: "'app handlers \<Rightarrow> 'app sys \<Rightarrow> 'app sys \<Rightarrow> bool" for H where
  enqueue: "fresh_job a j (s_st s) \<Longrightarrow>
    enqueue_locked (s_w s) a (put_job a j (s_st s)) = Some (True, w', st') \<Longrightarrow>
    worker_step H s (s\<lparr>s_w := w', s_st := st', s_inflight := s_inflight s + 1,
      s_accepted := s_accepted s @ [j]\<rparr>)"
| refuse: "fresh_job a j (s_st s) \<Longrightarrow>
    enqueue_locked (s_w s) a (put_job a j (s_st s)) = Some (False, w', st') \<Longrightarrow>
    free_worker_msg a st' = Some st'' \<Longrightarrow>
    worker_step H s (s\<lparr>s_w := w', s_st := st''\<rparr>)"
| stop: "worker_step H s (s\<lparr>s_w := (s_w s)\<lparr>w_stopping := True\<rparr>,
      s_inflight := s_inflight s + (if w_started (s_w s) then 1 else 0)\<rparr>)"
| notify: "0 < s_inflight s \<Longrightarrow> notify_worker send (s_notify s) = (rc, n) \<Longrightarrow>
    worker_step H s (s\<lparr>s_inflight := s_inflight s - 1, s_notify := n, s_missed := (s_missed s \<or> n = 0)\<rparr>)"
| wake: "s_pc s = In_Dispatch \<Longrightarrow> 0 < s_notify s \<Longrightarrow> worker_step H s (s\<lparr>s_pc := Draining\<rparr>)"
| recv: "s_pc s = Draining \<Longrightarrow> k \<le> s_notify s \<Longrightarrow> k \<le> 128 \<Longrightarrow>
    worker_step H s (s\<lparr>s_notify := s_notify s - k, s_pc := (if k < 128 then Drained else Draining)\<rparr>)"
| take_pending: "s_pc s = Drained \<Longrightarrow> worker_take_pending (s_w s) = (p, w') \<Longrightarrow>
    worker_step H s (s\<lparr>s_w := w', s_pc := Running p, s_missed := False\<rparr>)"
| process: "s_pc s = Running (Some a) \<Longrightarrow>
    worker_process_one H (s_w s) a (s_st s) (s_app s) = Some (p, st', app') \<Longrightarrow>
    worker_step H s (s\<lparr>s_st := st', s_app := app', s_pc := Running p,
      s_done := s_done s @ [the (job_at (s_st s) a)]\<rparr>)"
| processed: "s_pc s = Running None \<Longrightarrow> worker_step H s (s\<lparr>s_pc := Checking\<rparr>)"
| check: "s_pc s = Checking \<Longrightarrow>
    worker_step H s (s\<lparr>s_pc := (if w_stopping (s_w s) then Exited else In_Dispatch)\<rparr>)"

text \<open>A worker that was just started.\<close>

definition worker_initial :: "'app \<Rightarrow> 'app sys \<Rightarrow> bool" where
  "worker_initial app0 s \<longleftrightarrow> w_started (s_w s) \<and> \<not> w_stopping (s_w s) \<and>
     queue_ok (s_w s) (s_st s) [] \<and> store_ok (s_st s) [] \<and>
     s_notify s = 0 \<and> s_inflight s = 0 \<and> s_pc s = In_Dispatch \<and> s_app s = app0 \<and>
     s_accepted s = [] \<and> s_done s = [] \<and> \<not> s_missed s"

section \<open>The invariant\<close>

definition batch_ptr :: "worker_pc \<Rightarrow> addr option" where
  "batch_ptr pc = (case pc of Running p \<Rightarrow> p | _ \<Rightarrow> None)"

definition draining :: "worker_pc \<Rightarrow> bool" where
  "draining pc \<longleftrightarrow> pc = Draining \<or> pc = Drained"

definition heap_inv :: "'app handlers \<Rightarrow> 'app \<Rightarrow> 'app sys \<Rightarrow> addr list \<Rightarrow> addr list \<Rightarrow> bool" where
  "heap_inv H app0 s b q \<longleftrightarrow>
     chain (s_st s) (batch_ptr (s_pc s)) b \<and> queue_ok (s_w s) (s_st s) q \<and> store_ok (s_st s) (b @ q) \<and>
     s_accepted s = s_done s @ jobs (s_st s) (b @ q) \<and>
     s_app s = fold (run_job H (w_id (s_w s))) (s_done s) app0"

definition wake_inv :: "'app sys \<Rightarrow> addr list \<Rightarrow> bool" where
  "wake_inv s q \<longleftrightarrow> w_started (s_w s) \<and>
     (q \<noteq> [] \<longrightarrow> draining (s_pc s) \<or> s_pc s = Exited \<or> 0 < s_notify s \<or> 0 < s_inflight s \<or> s_missed s) \<and>
     (w_stopping (s_w s) \<longrightarrow> s_pc s = In_Dispatch \<longrightarrow> 0 < s_notify s \<or> 0 < s_inflight s \<or> s_missed s)"

definition worker_inv :: "'app handlers \<Rightarrow> 'app \<Rightarrow> 'app sys \<Rightarrow> bool" where
  "worker_inv H app0 s \<longleftrightarrow> (\<exists>b q. heap_inv H app0 s b q \<and> wake_inv s q)"

lemma heap_inv_pc:
  "heap_inv H app0 s b q \<Longrightarrow> batch_ptr pc = batch_ptr (s_pc s) \<Longrightarrow> heap_inv H app0 (s\<lparr>s_pc := pc\<rparr>) b q"
  by (simp add: heap_inv_def)

lemma put_job_ok:
  assumes "store_ok st as" and "fresh_job a j st"
  shows "store_ok (put_job a j st) (as @ [a])" and "jobs (put_job a j st) (as @ [a]) = jobs st as @ [j]"
    and "set xs \<subseteq> set as \<Longrightarrow> chain (put_job a j st) p xs = chain st p xs"
    and "store_ok (put_job a j st) (a # as)"
proof -
  have a: "a \<notin> set as" using assms by (auto simp: store_ok_def fresh_job_def)
  have buf: "x \<in> set as \<Longrightarrow> buf_of (put_job a j st) x = buf_of st x" for x
    using a by (auto simp: buf_of_def put_job_def)
  have bufa: "buf_of (put_job a j st) a = data_ptr (fst j)"
    by (simp add: buf_of_def put_job_def)
  have "bufs_of (put_job a j st) xs = bufs_of st xs" if "set xs \<subseteq> set as" for xs
    using that buf by (induction xs) (auto split: option.split)
  then have bufs: "bufs_of (put_job a j st) as = bufs_of st as" by blast
  have new: "data_ptr (fst j) = Some b \<Longrightarrow> b \<notin> set (bufs_of st as)" for b
    using assms by (auto simp: store_ok_def fresh_job_def)
  show "store_ok (put_job a j st) (as @ [a])" "store_ok (put_job a j st) (a # as)"
    using assms(1) a bufs bufa new
    by (auto simp: store_ok_def put_job_def split: option.split)
  have "job_at (put_job a j st) x = job_at st x" if x: "x \<in> set as" for x
  proof -
    obtain m bs where m: "st_msgs st x = Some m" using job_at_live [OF assms(1) x] by blast
    have "data_ptr (fst j) = Some b \<Longrightarrow> data_ptr (payload m) \<noteq> Some b" for b
      using new [of b] x m by (auto simp: set_bufs_of buf_of_def)
    then show ?thesis
      using a x m by (auto simp: job_at_def bytes_of_def put_job_def split: option.split)
  qed
  moreover have "job_at (put_job a j st) a = Some j"
    using assms(2) by (cases j) (auto simp: job_at_def bytes_of_def put_job_def fresh_job_def split: option.splits)
  ultimately show "jobs (put_job a j st) (as @ [a]) = jobs st as @ [j]"
    by (simp add: jobs_def)
  show "chain (put_job a j st) p xs = chain st p xs" if "set xs \<subseteq> set as"
    using that a by (intro chain_frame) (auto simp: put_job_def)
qed


section \<open>Each step keeps the invariant\<close>

lemma enqueue_locked_ok:
  assumes "heap_inv H app0 s b q" and "fresh_job a j (s_st s)" and "\<not> w_stopping (s_w s)"
  obtains w' st' where "enqueue_locked (s_w s) a (put_job a j (s_st s)) = Some (True, w', st')"
    and "heap_inv H app0 (s\<lparr>s_w := w', s_st := st', s_inflight := n, s_accepted := s_accepted s @ [j]\<rparr>) b (q @ [a])"
    and "w_started w' = w_started (s_w s)" and "\<not> w_stopping w'"
proof -
  let ?st = "put_job a j (s_st s)"
  have inv: "chain (s_st s) (batch_ptr (s_pc s)) b" "queue_ok (s_w s) (s_st s) q"
    "store_ok (s_st s) (b @ q)" "s_accepted s = s_done s @ jobs (s_st s) (b @ q)"
    "s_app s = fold (run_job H (w_id (s_w s))) (s_done s) app0"
    using assms(1) by (auto simp: heap_inv_def)
  note put = put_job_ok [OF inv(3) assms(2)]
  have "queue_ok (s_w s) ?st q" "chain ?st (batch_ptr (s_pc s)) b" "store_ok ?st (b @ q @ [a])"
    using inv(1,2) put by (simp_all add: queue_ok_def)
  then obtain w' st' where app: "worker_append (s_w s) a ?st = Some (w', st')"
    "queue_ok w' st' (q @ [a])" "chain st' (batch_ptr (s_pc s)) b" "same_payloads ?st st'"
    and w': "w' = (s_w s)\<lparr>pending_head := pending_head w', pending_tail := pending_tail w'\<rparr>"
    by (rule worker_append_ok)
  have fields: "w_id w' = w_id (s_w s)" "w_started w' = w_started (s_w s)" "w_stopping w' = w_stopping (s_w s)"
    by (subst w', simp)+
  note same = same_payloads_ok [OF app(4)]
  have "store_ok st' (b @ q @ [a])" "jobs st' ((b @ q) @ [a]) = jobs (s_st s) (b @ q) @ [j]"
    unfolding same using put(1,2) by simp_all
  then have "heap_inv H app0 (s\<lparr>s_w := w', s_st := st', s_inflight := n, s_accepted := s_accepted s @ [j]\<rparr>) b (q @ [a])"
    using app(2,3) inv fields by (simp add: heap_inv_def)
  with app(1) fields assms(3) show thesis by (intro that) (simp_all add: enqueue_locked_def)
qed

lemma refuse_ok:
  assumes "heap_inv H app0 s b q" and "fresh_job a j (s_st s)"
  obtains st' where "free_worker_msg a (put_job a j (s_st s)) = Some st'"
    and "heap_inv H app0 (s\<lparr>s_st := st'\<rparr>) b q"
proof -
  let ?st = "put_job a j (s_st s)"
  have st: "store_ok (s_st s) (b @ q)" using assms(1) by (simp add: heap_inv_def)
  note put = put_job_ok [OF st assms(2)]
  note ok = put(4)
  obtain st1 where st1: "dispose a ?st = Some st1" "store_ok st1 (b @ q)"
    and chain: "\<And>p xs. set xs \<subseteq> set (b @ q) \<Longrightarrow> chain st1 p xs = chain ?st p xs"
    and jobs: "\<And>xs. set xs \<subseteq> set (b @ q) \<Longrightarrow> jobs st1 xs = jobs ?st xs"
    and "st_trace st1 = st_trace ?st"
    by (rule dispose_ok [OF ok]) blast
  have m: "st_msgs ?st a = Some \<lparr>next_msg = None, payload = fst j\<rparr>" by (simp add: put_job_def)
  let ?st2 = "log_res (fd_events (fst j)) st1"
  have "chain st1 p xs = chain (s_st s) p xs" if "set xs \<subseteq> set (b @ q)" for p xs
    using chain [OF that] put(3) [OF that] by simp
  moreover have "jobs st1 (b @ q) = jobs (s_st s) (b @ q)"
    using jobs [of "b @ q"] put(2) by simp
  ultimately have "heap_inv H app0 (s\<lparr>s_st := ?st2\<rparr>) b q"
    using assms(1) st1(2) by (simp add: heap_inv_def queue_ok_def)
  with free_worker_dispose [OF m] st1(1) show thesis by (intro that) simp_all
qed

lemma process_ok:
  assumes "heap_inv H app0 s b q" and "s_pc s = Running (Some a)"
  obtains b' p st' where "b = a # b'"
    and "worker_process_one H (s_w s) a (s_st s) (s_app s) =
      Some (p, st', run_job H (w_id (s_w s)) (the (job_at (s_st s) a)) (s_app s))"
    and "heap_inv H app0 (s\<lparr>s_st := st', s_app := run_job H (w_id (s_w s)) (the (job_at (s_st s) a)) (s_app s),
      s_pc := Running p, s_done := s_done s @ [the (job_at (s_st s) a)]\<rparr>) b' q"
proof -
  have "chain (s_st s) (Some a) b" using assms by (simp add: heap_inv_def batch_ptr_def)
  then obtain b' where b: "b = a # b'" "chain (s_st s) (Some a) (a # b')" by (cases b) auto
  have ok: "store_ok (s_st s) (a # b' @ q)" using assms(1) b by (simp add: heap_inv_def)
  obtain p st' where one: "worker_process_one H (s_w s) a (s_st s) (s_app s) =
      Some (p, st', run_job H (w_id (s_w s)) (the (job_at (s_st s) a)) (s_app s))"
    "chain st' p b'" "store_ok st' (b' @ q)"
    and frame: "\<And>p xs. set xs \<subseteq> set (b' @ q) \<Longrightarrow> chain st' p xs = chain (s_st s) p xs"
      "\<And>xs. set xs \<subseteq> set (b' @ q) \<Longrightarrow> jobs st' xs = jobs (s_st s) xs"
    using worker_process_one_ok [OF ok b(2), of H "s_w s" "s_app s"] by (metis Un_upper1 set_append)
  show thesis
    using assms(1) b(1) one frame
    by (intro that [OF b(1) one(1)]) (simp add: heap_inv_def batch_ptr_def queue_ok_def)
qed

lemma worker_inv_step:
  assumes "worker_inv H app0 s" and "worker_step H s t"
  shows "worker_inv H app0 t"
proof -
  obtain b q where h: "heap_inv H app0 s b q" and wk: "wake_inv s q"
    using assms(1) by (auto simp: worker_inv_def)
  show ?thesis
    using assms(2)
  proof cases
    case (enqueue a j w' st')
    then have "\<not> w_stopping (s_w s)" by (auto simp: enqueue_locked_def split: if_splits)
    from h enqueue(2) this obtain w1 st1 where
      e: "enqueue_locked (s_w s) a (put_job a j (s_st s)) = Some (True, w1, st1)"
      "heap_inv H app0 (s\<lparr>s_w := w1, s_st := st1, s_inflight := s_inflight s + 1,
        s_accepted := s_accepted s @ [j]\<rparr>) b (q @ [a])"
      "w_started w1 = w_started (s_w s)" "\<not> w_stopping w1"
      by (rule enqueue_locked_ok)
    then have "heap_inv H app0 t b (q @ [a])" using enqueue(1,3) by simp
    moreover have "wake_inv t (q @ [a])" using e(1,3,4) enqueue(1,3) wk by (simp add: wake_inv_def)
    ultimately show ?thesis by (auto simp: worker_inv_def)
  next
    case (refuse a j w' st' st'')
    then have "w' = s_w s" "st' = put_job a j (s_st s)" by (auto simp: enqueue_locked_def split: if_splits)
    with refuse refuse_ok [OF h refuse(2)] wk show ?thesis
      by (auto simp: worker_inv_def wake_inv_def)
  next
    case stop
    with h wk show ?thesis
      by (auto simp: worker_inv_def wake_inv_def heap_inv_def queue_ok_def)
  next
    case (notify send rc n)
    with h wk show ?thesis
      by (auto simp: worker_inv_def wake_inv_def heap_inv_def)
  next
    case wake
    with heap_inv_pc [OF h, of Draining] wk show ?thesis
      by (auto simp: worker_inv_def wake_inv_def batch_ptr_def draining_def)
  next
    case (recv k)
    with h wk show ?thesis
      by (auto simp: worker_inv_def wake_inv_def batch_ptr_def draining_def heap_inv_def)
  next
    case (take_pending p w')
    then have "b = []" using h by (cases b) (auto simp: heap_inv_def batch_ptr_def)
    with take_pending h wk have "heap_inv H app0 t q [] \<and> wake_inv t []"
      by (auto simp: wake_inv_def heap_inv_def batch_ptr_def queue_ok_def worker_take_pending_def)
    then show ?thesis by (auto simp: worker_inv_def)
  next
    case (process a p st' app')
    from h process(2) obtain b' p1 st1 where "worker_process_one H (s_w s) a (s_st s) (s_app s) =
        Some (p1, st1, run_job H (w_id (s_w s)) (the (job_at (s_st s) a)) (s_app s))"
      "heap_inv H app0 (s\<lparr>s_st := st1, s_app := run_job H (w_id (s_w s)) (the (job_at (s_st s) a)) (s_app s),
        s_pc := Running p1, s_done := s_done s @ [the (job_at (s_st s) a)]\<rparr>) b' q"
      by (rule process_ok)
    then have "heap_inv H app0 t b' q" using process(1,3) by simp
    moreover have "wake_inv t q" using process(1,2) wk by (simp add: wake_inv_def draining_def)
    ultimately show ?thesis by (auto simp: worker_inv_def)
  next
    case processed
    with heap_inv_pc [OF h, of Checking] wk show ?thesis
      by (auto simp: worker_inv_def wake_inv_def batch_ptr_def draining_def)
  next
    case check
    with heap_inv_pc [OF h, of "s_pc t"] wk show ?thesis
      by (auto simp: worker_inv_def wake_inv_def batch_ptr_def draining_def split: if_splits)
  qed
qed

interpretation worker_sys: inductive_invariant "worker_initial app0" "worker_step H" "worker_inv H app0"
proof unfold_locales
  fix s :: "'a sys"
  assume "worker_initial app0 s"
  then have "heap_inv H app0 s [] [] \<and> wake_inv s []"
    by (auto simp: worker_initial_def heap_inv_def wake_inv_def batch_ptr_def)
  then show "worker_inv H app0 s" by (auto simp: worker_inv_def)
next
  fix s t :: "'a sys"
  assume "worker_inv H app0 s" "worker_step H s t"
  then show "worker_inv H app0 t" by (rule worker_inv_step)
qed


section \<open>What holds in every interleaving\<close>

definition worker_reach :: "'app handlers \<Rightarrow> 'app \<Rightarrow> 'app sys \<Rightarrow> bool" where
  "worker_reach H app0 = reach (worker_initial app0) (worker_step H)"

lemma worker_reach_inv:
  assumes "worker_reach H app0 s"
  obtains b q where "heap_inv H app0 s b q" and "wake_inv s q"
proof -
  have "worker_inv H app0 s" using assms unfolding worker_reach_def by (rule worker_sys.inv_reach)
  then show thesis using that unfolding worker_inv_def by blast
qed

lemma heap_inv_parts:
  assumes "heap_inv H app0 s b q"
  shows "s_accepted s = s_done s @ jobs (s_st s) b @ jobs (s_st s) q"
    and "s_app s = fold (run_job H (w_id (s_w s))) (s_done s) app0"
    and "store_ok (s_st s) (b @ q)" and "pending_head (s_w s) = None \<longleftrightarrow> q = []"
    and "batch_ptr (s_pc s) = None \<longleftrightarrow> b = []"
  using assms by (cases q; cases b; simp add: heap_inv_def queue_ok_def)+

section \<open>A run\<close>

text \<open>One client is queued, announced and adopted: the states of the run, named by their last step.\<close>

definition run_job0 :: job where
  "run_job0 = (stream_client_payload example_route 9 None 0, [])"

definition run_start :: "int list sys" where
  "run_start = \<lparr>s_w = example_worker\<lparr>w_started := True, pending_head := None, pending_tail := None\<rparr>,
     s_st = \<lparr>st_msgs = Map.empty, st_bufs = Map.empty, st_trace = []\<rparr>, s_notify = 0, s_inflight = 0,
     s_pc = In_Dispatch, s_app = [], s_accepted = [], s_done = [], s_missed = False\<rparr>"

definition run_queued :: "int list sys" where
  "run_queued = run_start\<lparr>s_w := (s_w run_start)\<lparr>pending_head := Some 1, pending_tail := Some 1\<rparr>,
     s_st := put_job 1 run_job0 (s_st run_start), s_inflight := 1, s_accepted := [run_job0]\<rparr>"

definition run_running :: "int list sys" where
  "run_running = run_queued\<lparr>s_w := s_w run_start, s_inflight := 0, s_pc := Running (Some 1)\<rparr>"

definition run_end :: "int list sys" where
  "run_end = run_start\<lparr>s_st := (s_st run_start)\<lparr>st_msgs := (Map.empty)(1 := None)\<rparr>, s_app := [9],
     s_accepted := [run_job0], s_done := [run_job0]\<rparr>"

lemmas run_defs = run_start_def run_queued_def run_running_def run_end_def run_job0_def
  example_worker_def put_job_def stream_client_payload_def worker_zero_def

lemma run_reach_start: "worker_reach log_handlers [] run_start"
  unfolding worker_reach_def
  by (rule reach_init) (simp add: worker_initial_def run_defs queue_ok_def store_ok_def)

lemma run_reach_queued: "worker_reach log_handlers [] run_queued"
proof -
  have "worker_step log_handlers run_start (run_start\<lparr>s_w := s_w run_queued, s_st := s_st run_queued,
      s_inflight := s_inflight run_start + 1, s_accepted := s_accepted run_start @ [run_job0]\<rparr>)"
    by (rule worker_step.enqueue [where a = 1])
      (simp_all add: run_defs fresh_job_def enqueue_locked_def worker_append_def set_next_def)
  also have "run_start\<lparr>s_w := s_w run_queued, s_st := s_st run_queued,
      s_inflight := s_inflight run_start + 1, s_accepted := s_accepted run_start @ [run_job0]\<rparr> = run_queued"
    by (simp add: run_defs)
  finally show ?thesis using run_reach_start unfolding worker_reach_def by (rule reach_step [rotated])
qed

lemma run_reach_running: "worker_reach log_handlers [] run_running"
proof -
  let ?n = "run_queued\<lparr>s_inflight := 0, s_notify := 1\<rparr>"
  let ?step = "worker_step log_handlers"
  have "?step run_queued ?n"
    using worker_step.notify [of run_queued "\<lambda>_. None" None 1 log_handlers]
    by (simp add: run_queued_def run_start_def notify_worker_def)
  moreover have "?step ?n (?n\<lparr>s_pc := Draining\<rparr>)"
    by (rule worker_step.wake) (simp_all add: run_queued_def run_start_def)
  moreover have "?step (?n\<lparr>s_pc := Draining\<rparr>) (?n\<lparr>s_notify := 0, s_pc := Drained\<rparr>)"
    using worker_step.recv [of "?n\<lparr>s_pc := Draining\<rparr>" 1 log_handlers] by simp
  moreover have "?step (?n\<lparr>s_notify := 0, s_pc := Drained\<rparr>) run_running"
    using worker_step.take_pending [of "?n\<lparr>s_notify := 0, s_pc := Drained\<rparr>" "Some 1" "s_w run_start" log_handlers]
    by (simp add: worker_take_pending_def run_defs)
  ultimately show ?thesis
    using run_reach_queued unfolding worker_reach_def by (blast intro: reach_step)
qed

lemma run_reach_end: "worker_reach log_handlers [] run_end"
proof -
  let ?step = "worker_step log_handlers"
  let ?p = "run_end\<lparr>s_pc := Running None\<rparr>"
  have "?step run_running ?p"
    using worker_step.process [of run_running 1 log_handlers None "s_st run_end" "[9]"]
    by (simp add: run_defs worker_process_one_def worker_process_msg_def free_processed_worker_msg_def
      free_msg_def log_handlers_def job_at_def bytes_of_def)
  moreover have "?step ?p (run_end\<lparr>s_pc := Checking\<rparr>)"
    using worker_step.processed [of ?p log_handlers] by simp
  moreover have "?step (run_end\<lparr>s_pc := Checking\<rparr>) run_end"
    using worker_step.check [of "run_end\<lparr>s_pc := Checking\<rparr>" log_handlers] by (simp add: run_defs)
  ultimately show ?thesis
    using run_reach_running unfolding worker_reach_def by (blast intro: reach_step)
qed

section \<open>The properties\<close>

text \<open>
  C9. In every interleaving of any number of enqueuing and stopping threads with the worker, the
  jobs that were run are an initial part of the jobs that were accepted, in the same order: none is
  lost, run twice or overtaken, and the state of the application is the one these jobs produce in
  that order. What is not yet run is exactly what is on the heap.
\<close>

theorem worker_fifo:
  assumes "worker_reach H app0 s"
  shows "\<exists>as. s_accepted s = s_done s @ jobs (s_st s) as \<and> store_ok (s_st s) as \<and>
    s_app s = fold (run_job H (w_id (s_w s))) (s_done s) app0"
proof -
  obtain b q where h: "heap_inv H app0 s b q" using assms by (rule worker_reach_inv)
  show ?thesis using heap_inv_parts(1,2,3) [OF h] by (intro exI [of _ "b @ q"]) simp
qed

theorem worker_fifo_witness:
  "\<exists>as. [run_job0] = jobs (s_st run_running) as \<and> store_ok (s_st run_running) as"
  using worker_fifo [OF run_reach_running] by (simp add: run_running_def run_queued_def run_start_def)

text \<open>
  C10. A wake-up is lost only when sending it fails: whenever the worker waits for events with its notify
  socket empty, no thread is about to send to it, and no \<^verbatim>\<open>send\<close> has failed on the empty socket since the worker
  last took its queue (\<open>s_missed\<close>; the code only warns of such a failure), its queue is empty, every
  accepted job was run, all message memory was freed and nobody has asked it to stop.
\<close>

theorem worker_no_lost_wakeup:
  assumes "worker_reach H app0 s" and "s_pc s = In_Dispatch" and "s_notify s = 0" and "s_inflight s = 0" and "\<not> s_missed s"
  shows "pending_head (s_w s) = None \<and> s_done s = s_accepted s \<and>
    st_msgs (s_st s) = Map.empty \<and> st_bufs (s_st s) = Map.empty \<and> \<not> w_stopping (s_w s)"
proof -
  obtain b q where h: "heap_inv H app0 s b q" and wk: "wake_inv s q" using assms(1) by (rule worker_reach_inv)
  have "q = []" "\<not> w_stopping (s_w s)" using wk assms(2-5) by (auto simp: wake_inv_def draining_def)
  moreover have "b = []" using heap_inv_parts(5) [OF h] assms(2) by (simp add: batch_ptr_def)
  ultimately show ?thesis using heap_inv_parts [OF h] by (auto dest: store_ok_Nil)
qed

theorem worker_no_lost_wakeup_witness:
  "worker_reach log_handlers [] run_end \<and> s_done run_end = [run_job0] \<and> st_msgs (s_st run_end) = Map.empty"
  using worker_no_lost_wakeup [OF run_reach_end] run_reach_end by (simp add: run_end_def run_start_def)

text \<open>After such a failure the worker does sleep with a client in its queue.\<close>

definition run_missed :: "int list sys" where
  "run_missed = run_queued\<lparr>s_inflight := 0, s_missed := True\<rparr>"

lemma worker_missed_wakeup:
  "worker_reach log_handlers [] run_missed \<and> s_pc run_missed = In_Dispatch \<and> s_notify run_missed = 0 \<and>
   s_inflight run_missed = 0 \<and> pending_head (s_w run_missed) \<noteq> None"
proof -
  have "worker_step log_handlers run_queued run_missed"
    using worker_step.notify [of run_queued "\<lambda>_. Some EPIPE" "Some EPIPE" 0 log_handlers]
    by (simp add: run_missed_def run_queued_def run_start_def notify_worker_def)
  then have "worker_reach log_handlers [] run_missed"
    using run_reach_queued unfolding worker_reach_def by (rule reach_step [rotated])
  then show ?thesis by (simp add: run_missed_def run_queued_def run_start_def)
qed

text \<open>
  C15. No interleaving makes the program use freed memory or free it twice: the message the worker
  is about to run can be run and freed, and a message just allocated can be queued, or freed when
  the worker is stopping.
\<close>

theorem worker_never_faults:
  assumes "worker_reach H app0 s"
  shows "(s_pc s = Running (Some a) \<longrightarrow> worker_process_one H (s_w s) a (s_st s) (s_app s) \<noteq> None) \<and>
    (fresh_job m j (s_st s) \<longrightarrow>
       (if w_stopping (s_w s) then free_worker_msg m (put_job m j (s_st s)) \<noteq> None
        else enqueue_locked (s_w s) m (put_job m j (s_st s)) \<noteq> None))"
proof -
  obtain b q where h: "heap_inv H app0 s b q" using assms by (rule worker_reach_inv)
  have "worker_process_one H (s_w s) a (s_st s) (s_app s) \<noteq> None" if "s_pc s = Running (Some a)"
    using process_ok [OF h that] by (metis option.distinct(1))
  moreover have "free_worker_msg m (put_job m j (s_st s)) \<noteq> None" if "fresh_job m j (s_st s)"
    using refuse_ok [OF h that] by (metis option.distinct(1))
  moreover have "enqueue_locked (s_w s) m (put_job m j (s_st s)) \<noteq> None"
    if "fresh_job m j (s_st s)" "\<not> w_stopping (s_w s)"
    using enqueue_locked_ok [OF h that] by (metis option.distinct(1))
  ultimately show ?thesis by simp
qed

theorem worker_never_faults_witness:
  "worker_reach log_handlers [] run_running \<and>
   worker_process_one log_handlers (s_w run_running) 1 (s_st run_running) (s_app run_running) \<noteq> None \<and>
   enqueue_locked (s_w run_running) 2 (put_job 2 run_job0 (s_st run_running)) \<noteq> None"
proof -
  have "s_pc run_running = Running (Some 1)" "fresh_job 2 run_job0 (s_st run_running)"
    "\<not> w_stopping (s_w run_running)"
    by (simp_all add: run_defs fresh_job_def)
  then show ?thesis
    using worker_never_faults [OF run_reach_running, of 1 2 run_job0] run_reach_running by simp
qed

section \<open>Who owns the socket of a new client\<close>

lemma worker_append_seq:
  assumes "queue_ok w st q" and "store_ok st q" and "fresh_job a j st"
  obtains w' st' where "worker_append w a (put_job a j st) = Some (w', st')"
    and "queue_ok w' st' (q @ [a])" and "store_ok st' (q @ [a])" and "jobs st' (q @ [a]) = jobs st q @ [j]"
    and "st_trace st' = st_trace st"
proof -
  note put = put_job_ok [OF assms(2,3)]
  have "queue_ok w (put_job a j st) q" "chain (put_job a j st) None []" "store_ok (put_job a j st) ([] @ q @ [a])"
    using assms(1) put(1,3) by (simp_all add: queue_ok_def)
  then obtain w' st' where app: "worker_append w a (put_job a j st) = Some (w', st')"
    "queue_ok w' st' (q @ [a])" "same_payloads (put_job a j st) st'"
    by (rule worker_append_ok)
  have "st_trace st' = st_trace st" using app(3) by (simp add: same_payloads_def put_job_def)
  moreover have "store_ok st' (q @ [a])" "jobs st' (q @ [a]) = jobs st q @ [j]"
    unfolding same_payloads_ok [OF app(3)] by (rule put)+
  ultimately show thesis using app(1,2) that by blast
qed

lemma free_put_job:
  assumes "queue_ok w st q" and "store_ok st q" and "fresh_job a j st"
  obtains st' where "free_worker_msg a (put_job a j st) = Some st'"
    and "queue_ok w st' q" and "store_ok st' q" and "jobs st' q = jobs st q"
    and "st_trace st' = st_trace st @ fd_events (fst j)"
proof -
  note put = put_job_ok [OF assms(2,3)]
  obtain st1 where st1: "dispose a (put_job a j st) = Some st1" "store_ok st1 q"
    "\<And>p xs. set xs \<subseteq> set q \<Longrightarrow> chain st1 p xs = chain (put_job a j st) p xs"
    "\<And>xs. set xs \<subseteq> set q \<Longrightarrow> jobs st1 xs = jobs (put_job a j st) xs"
    "st_trace st1 = st_trace (put_job a j st)"
    by (rule dispose_ok [OF put(4)]) blast
  have "st_msgs (put_job a j st) a = Some \<lparr>next_msg = None, payload = fst j\<rparr>" by (simp add: put_job_def)
  from free_worker_dispose [OF this] st1(1)
  have "free_worker_msg a (put_job a j st) = Some (log_res (fd_events (fst j)) st1)" by simp
  moreover have "jobs (put_job a j st) q = jobs st q" using put(2) by simp
  moreover have "st_trace (put_job a j st) = st_trace st" by (simp add: put_job_def)
  ultimately show thesis
    using st1 put(3) assms(1) by (intro that [of "log_res (fd_events (fst j)) st1"]) (simp_all add: queue_ok_def)
qed

text \<open>The return code of the enqueue functions, \<open>0\<close> as \<open>Inr ()\<close>.\<close>

definition enqueue_rc :: "bool \<Rightarrow> bool \<Rightarrow> bool \<Rightarrow> unit result" where
  "enqueue_rc valid allocated stopping =
     (if \<not> valid then Inl EINVAL else if \<not> allocated then Inl ENOMEM
      else if stopping then Inl ECANCELED else Inr ())"

text \<open>
  On success the client is the last job of the queue and its socket is open. On \<^verbatim>\<open>EINVAL\<close> and \<^verbatim>\<open>ENOMEM\<close> nothing has
  changed, so the socket is still the caller's. On \<^verbatim>\<open>ECANCELED\<close>, returned exactly when the worker is stopping, the queue is
  unchanged and the socket has already been closed.
\<close>

lemma enqueue_stream_client_outcome:
  assumes "queue_ok w st q" and "store_ok st q" and "list_all (\<lambda>a. st_msgs st a = None) (case calloc of None \<Rightarrow> [] | Some a \<Rightarrow> [a])"
  shows "\<exists>w' st' n' rc. worker_enqueue_stream_client send calloc w (Some r) fd addr addr_len st n = Some (rc, w', st', n') \<and>
    rc = enqueue_rc (socket_is_valid fd \<and> addr_len \<le> SIZEOF_SS) (calloc \<noteq> None) (w_stopping w) \<and>
    (case rc of
       Inr _ \<Rightarrow> queue_ok w' st' (q @ [the calloc]) \<and> store_ok st' (q @ [the calloc]) \<and>
         jobs st' (q @ [the calloc]) = jobs st q @ [(stream_client_payload r fd addr addr_len, [])] \<and>
         st_trace st' = st_trace st
     | Inl e \<Rightarrow> w' = w \<and> queue_ok w st' q \<and> store_ok st' q \<and> jobs st' q = jobs st q \<and>
         st_trace st' = st_trace st @ (if e = ECANCELED then [Release (R_fd fd)] else []))"
proof (cases "socket_is_valid fd \<and> addr_len \<le> SIZEOF_SS \<and> calloc \<noteq> None")
  case False
  then show ?thesis
    using assms by (auto simp: worker_enqueue_stream_client_def enqueue_rc_def not_le)
next
  case True
  then obtain a where a: "calloc = Some a" by blast
  let ?j = "(stream_client_payload r fd addr addr_len, []) :: job"
  have ptr: "data_ptr (fst ?j) = None" by (simp add: stream_client_payload_def)
  have fresh: "fresh_job a ?j st" using assms(3) a ptr by (simp add: fresh_job_def)
  have code: "worker_enqueue_stream_client send calloc w (Some r) fd addr addr_len st n =
      worker_enqueue_msg send w a (put_job a ?j st) n"
    using True a ptr by (simp add: worker_enqueue_stream_client_def put_job_def)
  show ?thesis
  proof (cases "w_stopping w")
    case stopping: True
    have ev: "fd_events (fst ?j) = [Release (R_fd fd)]"
      using True by (simp add: fd_events_def stream_client_payload_def split: option.split)
    obtain st' where "free_worker_msg a (put_job a ?j st) = Some st'" "queue_ok w st' q" "store_ok st' q"
      "jobs st' q = jobs st q" "st_trace st' = st_trace st @ fd_events (fst ?j)"
      by (rule free_put_job [OF assms(1,2) fresh])
    then show ?thesis
      using True a stopping ev unfolding code
      by (simp add: worker_enqueue_msg_def enqueue_locked_def enqueue_rc_def)
  next
    case False
    obtain w' st' where "worker_append w a (put_job a ?j st) = Some (w', st')" "queue_ok w' st' (q @ [a])"
      "store_ok st' (q @ [a])" "jobs st' (q @ [a]) = jobs st q @ [?j]" "st_trace st' = st_trace st"
      by (rule worker_append_seq [OF assms(1,2) fresh])
    then show ?thesis
      using True a False unfolding code
      by (simp add: worker_enqueue_msg_def enqueue_locked_def enqueue_rc_def)
  qed
qed

end
