(* ===== verification/Worker_Pool.thy ===== *)
theory Worker_Pool
  imports Worker
begin

text \<open>
  The pool of workers (\<^verbatim>\<open>src/worker_pool.c\<close>): creation with clean-up of the workers already made
  when one fails, start with the same, stop, join, release, and the round-robin choice of the
  worker for the next client. Messages never move between workers, so each worker is kept with its
  own region of the heap and its own notify socket.
\<close>

section \<open>Data\<close>

record slot =
  sl_worker :: worker
  sl_store :: store
  sl_notify :: nat

record worker_pool =
  pool_workers :: "slot list option"
  pool_count :: nat
  pool_next :: "64 word"

definition worker_pool_zero :: worker_pool where
  "worker_pool_zero = \<lparr>pool_workers = None, pool_count = 0, pool_next = 0\<rparr>"

definition store_empty :: store where
  "store_empty = \<lparr>st_msgs = Map.empty, st_bufs = Map.empty, st_trace = []\<rparr>"

section \<open>Operations\<close>

text \<open>\<^verbatim>\<open>worker_free\<close>, \<^verbatim>\<open>worker_stop\<close> and \<^verbatim>\<open>worker_join\<close> on a slot.\<close>

definition slot_free ::
  "(nat \<Rightarrow> errno option) \<Rightarrow> (worker \<times> store \<Rightarrow> worker \<times> store) \<Rightarrow> slot \<Rightarrow> slot option" where
  "slot_free send until_exit s =
     map_option (\<lambda>(w, st). s\<lparr>sl_worker := w, sl_store := st\<rparr>)
       (worker_free send until_exit (sl_worker s) (sl_store s) (sl_notify s))"

definition slot_stop :: "(nat \<Rightarrow> errno option) \<Rightarrow> slot \<Rightarrow> slot" where
  "slot_stop send s =
     (let (w, n) = worker_stop send (sl_worker s) (sl_notify s) in s\<lparr>sl_worker := w, sl_notify := n\<rparr>)"

definition slot_join :: "(worker \<times> store \<Rightarrow> worker \<times> store) \<Rightarrow> slot \<Rightarrow> slot" where
  "slot_join until_exit s =
     (let (w, st) = worker_join until_exit (sl_worker s, sl_store s) in s\<lparr>sl_worker := w, sl_store := st\<rparr>)"

fun slots_free ::
  "(nat \<Rightarrow> errno option) \<Rightarrow> (worker \<times> store \<Rightarrow> worker \<times> store) \<Rightarrow> slot list \<Rightarrow> slot list option" where
  "slots_free send until_exit [] = Some []"
| "slots_free send until_exit (s # ss) = do {
     s \<leftarrow> slot_free send until_exit s;
     ss \<leftarrow> slots_free send until_exit ss;
     Some (s # ss) }"

text \<open>
  The loop of \<^verbatim>\<open>worker_pool_init\<close> with \<open>k\<close> workers to go and \<open>made\<close> those that were made. On a failure
  they are freed from the last to the first. The slots are returned in either case, to
  show what became of them.
\<close>

fun pool_init_loop ::
  "(nat \<Rightarrow> errno option) \<Rightarrow> (worker \<times> store \<Rightarrow> worker \<times> store) \<Rightarrow> (nat \<Rightarrow> init_calls) \<Rightarrow> nat \<Rightarrow> slot list \<Rightarrow>
   (unit result \<times> slot list) option" where
  "pool_init_loop send until_exit calls 0 made = Some (Inr (), made)"
| "pool_init_loop send until_exit calls (Suc k) made =
     (let i = length made;
          (rc, w, st) = worker_init (calls i) (word_of_nat (i + 1)) store_empty;
          s = \<lparr>sl_worker = w, sl_store = st, sl_notify = 0\<rparr> in
      case rc of
        Inl e \<Rightarrow> map_option (\<lambda>ss. (Inl e, s # ss)) (slots_free send until_exit (rev made))
      | Inr _ \<Rightarrow> pool_init_loop send until_exit calls k (made @ [s]))"

text \<open>\<open>pool\<close> is what the caller's structure holds before the call, which a count of 0 leaves as it is.\<close>

definition worker_pool_init ::
  "(nat \<Rightarrow> errno option) \<Rightarrow> (worker \<times> store \<Rightarrow> worker \<times> store) \<Rightarrow> bool \<Rightarrow> (nat \<Rightarrow> init_calls) \<Rightarrow> worker_pool \<Rightarrow> nat \<Rightarrow>
   (unit result \<times> worker_pool \<times> slot list) option" where
  "worker_pool_init send until_exit calloc calls pool count =
     (if count = 0 then Some (Inl EINVAL, pool, [])
      else if \<not> calloc then Some (Inl ENOMEM, worker_pool_zero, [])
      else do {
        (rc, ss) \<leftarrow> pool_init_loop send until_exit calls count [];
        Some (case rc of
            Inl e \<Rightarrow> (Inl e, worker_pool_zero, ss)
          | Inr _ \<Rightarrow> (Inr (), worker_pool_zero\<lparr>pool_workers := Some ss, pool_count := count\<rparr>, [])) })"

text \<open>The loop of \<^verbatim>\<open>worker_pool_start\<close>; on a failure the started workers are stopped and joined.\<close>

fun pool_start_loop ::
  "(nat \<Rightarrow> errno option) \<Rightarrow> (worker \<times> store \<Rightarrow> worker \<times> store) \<Rightarrow> (nat \<Rightarrow> errno option) \<Rightarrow>
   slot list \<Rightarrow> slot list \<Rightarrow> unit result \<times> slot list" where
  "pool_start_loop send until_exit create started [] = (Inr (), started)"
| "pool_start_loop send until_exit create started (s # ss) =
     (case worker_start (create (length started)) (sl_worker s) of
        (Inl rc, w) \<Rightarrow>
          (Inl rc, map (slot_join until_exit \<circ> slot_stop send) started @ s\<lparr>sl_worker := w\<rparr> # ss)
      | (Inr _, w) \<Rightarrow> pool_start_loop send until_exit create (started @ [s\<lparr>sl_worker := w\<rparr>]) ss)"

definition worker_pool_start ::
  "(nat \<Rightarrow> errno option) \<Rightarrow> (worker \<times> store \<Rightarrow> worker \<times> store) \<Rightarrow> (nat \<Rightarrow> errno option) \<Rightarrow>
   worker_pool \<Rightarrow> unit result \<times> worker_pool" where
  "worker_pool_start send until_exit create pool =
     (case pool_workers pool of
        None \<Rightarrow> (Inl EINVAL, pool)
      | Some ss \<Rightarrow>
          let (rc, ss) = pool_start_loop send until_exit create [] ss in
          (rc, pool\<lparr>pool_workers := Some ss\<rparr>))"

definition worker_pool_stop :: "(nat \<Rightarrow> errno option) \<Rightarrow> worker_pool \<Rightarrow> worker_pool" where
  "worker_pool_stop send pool = pool\<lparr>pool_workers := map_option (map (slot_stop send)) (pool_workers pool)\<rparr>"

definition worker_pool_join :: "(worker \<times> store \<Rightarrow> worker \<times> store) \<Rightarrow> worker_pool \<Rightarrow> worker_pool" where
  "worker_pool_join until_exit pool =
     pool\<lparr>pool_workers := map_option (map (slot_join until_exit)) (pool_workers pool)\<rparr>"

text \<open>\<^verbatim>\<open>worker_pool_free\<close> returns the pool and what the freed workers left.\<close>

definition worker_pool_free ::
  "(nat \<Rightarrow> errno option) \<Rightarrow> (worker \<times> store \<Rightarrow> worker \<times> store) \<Rightarrow> worker_pool \<Rightarrow>
   (worker_pool \<times> slot list) option" where
  "worker_pool_free send until_exit pool =
     (case pool_workers pool of
        None \<Rightarrow> Some (pool, [])
      | Some ss \<Rightarrow> map_option (Pair worker_pool_zero) (slots_free send until_exit ss))"

text \<open>\<^verbatim>\<open>worker_pool_next\<close>: the index of the worker, \<open>None\<close> for the null pointer.\<close>

definition worker_pool_next :: "worker_pool \<Rightarrow> nat option \<times> worker_pool" where
  "worker_pool_next pool =
     (if pool_workers pool = None \<or> pool_count pool = 0 then (None, pool)
      else (Some (unat (pool_next pool) mod pool_count pool), pool\<lparr>pool_next := pool_next pool + 1\<rparr>))"

text \<open>The worker in a slot, and its replacement.\<close>

definition pool_slot :: "worker_pool \<Rightarrow> nat \<Rightarrow> slot" where
  "pool_slot pool i = the (pool_workers pool) ! i"

definition set_slot :: "worker_pool \<Rightarrow> nat \<Rightarrow> slot \<Rightarrow> worker_pool" where
  "set_slot pool i s = pool\<lparr>pool_workers := map_option (\<lambda>ss. ss[i := s]) (pool_workers pool)\<rparr>"

section \<open>Round robin\<close>

fun next_workers :: "nat \<Rightarrow> worker_pool \<Rightarrow> nat option list \<times> worker_pool" where
  "next_workers 0 pool = ([], pool)"
| "next_workers (Suc n) pool =
     (let (i, pool) = worker_pool_next pool; (rest, pool) = next_workers n pool in (i # rest, pool))"

definition pool_ok :: "worker_pool \<Rightarrow> bool" where
  "pool_ok pool \<longleftrightarrow> (case pool_workers pool of
     None \<Rightarrow> False | Some ss \<Rightarrow> length ss = pool_count pool \<and> 0 < pool_count pool)"

lemma unat_plus1: "unat (w :: 64 word) + 1 < 2 ^ 64 \<Longrightarrow> unat (w + 1) = unat w + 1"
  by (subst unat_add_lem [THEN iffD1]) simp_all

lemma next_workers_eq:
  assumes "pool_workers pool \<noteq> None" and "0 < pool_count pool" and "unat (pool_next pool) + n < 2 ^ 64"
  shows "fst (next_workers n pool) = map (\<lambda>i. Some ((unat (pool_next pool) + i) mod pool_count pool)) [0..<n]"
  using assms
proof (induction n arbitrary: pool)
  case (Suc n)
  let ?pool = "pool\<lparr>pool_next := pool_next pool + 1\<rparr>"
  have nx: "unat (pool_next pool + 1) = unat (pool_next pool) + 1"
    using Suc.prems(3) by (intro unat_plus1) simp
  have "fst (next_workers n ?pool) =
      map (\<lambda>i. Some ((unat (pool_next ?pool) + i) mod pool_count ?pool)) [0..<n]"
    using Suc.prems nx by (intro Suc.IH) simp_all
  then show ?case
    using Suc.prems(1,2) nx
    by (simp add: worker_pool_next_def case_prod_beta map_upt_Suc del: upt_Suc)
qed simp

lemma mod_window_surj:
  fixes i k c :: nat
  assumes "i < c"
  shows "\<exists>j < c. (k + j) mod c = i"
proof -
  let ?j = "(i + (c - k mod c)) mod c"
  have "(k + ?j) mod c = (k mod c + (i + (c - k mod c))) mod c" by (simp add: mod_add_left_eq mod_add_right_eq)
  also have "k mod c + (i + (c - k mod c)) = i + c" using assms mod_less_divisor [of c k] by linarith
  finally have "(k + ?j) mod c = i" using assms by simp
  moreover have "?j < c" using assms by simp
  ultimately show ?thesis by blast
qed

lemma mod_window:
  fixes k c :: nat
  assumes "0 < c"
  shows "set (map (\<lambda>i. (k + i) mod c) [0..<c]) = {0..<c}" and "distinct (map (\<lambda>i. (k + i) mod c) [0..<c])"
proof -
  let ?f = "\<lambda>i. (k + i) mod c"
  have img: "?f ` {0..<c} = {0..<c}"
  proof
    show "{0..<c} \<subseteq> ?f ` {0..<c}"
    proof
      fix i assume "i \<in> {0..<c}"
      then obtain j where "j < c" "?f j = i" using mod_window_surj [of i c k] by auto
      then show "i \<in> ?f ` {0..<c}" by force
    qed
  qed (use assms in auto)
  then show "set (map ?f [0..<c]) = {0..<c}" by simp
  from img show "distinct (map ?f [0..<c])" by (simp add: distinct_map eq_card_imp_inj_on)
qed

text \<open>
  As many consecutive choices as the pool has workers give every worker exactly once, from any
  position of the counter, as long as the counter does not wrap around in between.
\<close>

lemma worker_pool_round_robin:
  assumes "pool_ok pool" and "unat (pool_next pool) + pool_count pool < 2 ^ 64"
  shows "distinct (fst (next_workers (pool_count pool) pool)) \<and>
    set (fst (next_workers (pool_count pool) pool)) = Some ` {0..<pool_count pool}"
proof -
  let ?c = "pool_count pool" and ?k = "unat (pool_next pool)"
  have ok: "pool_workers pool \<noteq> None" "0 < ?c" using assms(1) by (auto simp: pool_ok_def split: option.splits)
  note eq = next_workers_eq [OF ok assms(2)]
  let ?is = "map (\<lambda>i. (?k + i) mod ?c) [0..<?c]"
  have "fst (next_workers ?c pool) = map Some ?is" unfolding eq by simp
  then show ?thesis using mod_window [OF ok(2), of ?k] by (simp only: set_map distinct_map) simp
qed

lemma worker_pool_round_robin_example:
  "fst (next_workers 3 \<lparr>pool_workers = Some (replicate 3 \<lparr>sl_worker = worker_zero, sl_store = store_empty, sl_notify = 0\<rparr>),
     pool_count = 3, pool_next = 7\<rparr>) = [Some 1, Some 2, Some 0] \<and>
   set (fst (next_workers 3 \<lparr>pool_workers = Some (replicate 3 \<lparr>sl_worker = worker_zero, sl_store = store_empty, sl_notify = 0\<rparr>),
     pool_count = 3, pool_next = 7\<rparr>)) = Some ` {0..<3}"
  (is "fst (next_workers 3 ?p) = _ \<and> _")
proof
  show "fst (next_workers 3 ?p) = [Some 1, Some 2, Some 0]"
    by code_simp
  have "pool_ok ?p" "unat (pool_next ?p) + pool_count ?p < 2 ^ 64" by (simp_all add: pool_ok_def)
  from worker_pool_round_robin [OF this] show "set (fst (next_workers 3 ?p)) = Some ` {0..<3}" by simp
qed

section \<open>Creation and release\<close>

definition slot_fresh :: "nat \<Rightarrow> slot \<Rightarrow> bool" where
  "slot_fresh i s \<longleftrightarrow> init_outcome (word_of_nat (i + 1)) (Inr ()) (sl_worker s) (sl_store s)"

text \<open>Nothing is left of a slot: no memory, no event base, no resource, and nothing was released twice.\<close>

definition slot_clean :: "slot \<Rightarrow> bool" where
  "slot_clean s \<longleftrightarrow> st_msgs (sl_store s) = Map.empty \<and> st_bufs (sl_store s) = Map.empty \<and>
     \<not> w_base (sl_worker s) \<and> ledger [] (st_trace (sl_store s)) = Some []"

lemma worker_init_slot:
  assumes "calls_ok c" and "worker_init c (word_of_nat (i + 1)) store_empty = (rc, w, st)"
  shows "case rc of
      Inl _ \<Rightarrow> slot_clean \<lparr>sl_worker = w, sl_store = st, sl_notify = 0\<rparr>
    | Inr _ \<Rightarrow> slot_fresh i \<lparr>sl_worker = w, sl_store = st, sl_notify = 0\<rparr>"
  using worker_init_outcome [OF assms(1), of "word_of_nat (i + 1)" rc w st] assms(2)
  by (auto simp: store_empty_def init_outcome_def slot_clean_def slot_fresh_def split: sum.splits)

lemma slot_free_fresh:
  assumes "slot_fresh i s"
  shows "\<exists>s'. slot_free send until_exit s = Some s' \<and> slot_clean s'"
proof -
  let ?w = "(sl_worker s)\<lparr>w_stopping := True\<rparr>" and ?st = "sl_store s"
  have s: "ledger [] (st_trace ?st) = Some (worker_resources (sl_worker s))" "worker_ready ?w" "queue_ok ?w ?st []"
    "store_ok ?st []" "\<not> w_started (sl_worker s)"
    using assms by (auto simp: slot_fresh_def init_outcome_def worker_ready_def queue_ok_def store_ok_def)
  have "worker_free send until_exit (sl_worker s) ?st (sl_notify s) = worker_release ?w ?st"
    using s(5) by (simp add: worker_free_def worker_stop_def worker_join_def Let_def)
  with worker_release_ok [OF s(2-4)] s(1,2) show ?thesis
    by (auto simp: slot_free_def slot_clean_def ledger_append worker_resources_def worker_ready_def client_fds_def)
qed

lemma slots_free_fresh:
  "list_all (\<lambda>s. \<exists>i. slot_fresh i s) ss \<Longrightarrow>
   \<exists>ss'. slots_free send until_exit ss = Some ss' \<and> list_all slot_clean ss'"
proof (induction ss)
  case (Cons s ss)
  then obtain i where "slot_fresh i s" by auto
  with Cons slot_free_fresh [of i s send until_exit] show ?case by auto
qed simp

definition init_loop_ok :: "nat \<Rightarrow> unit result \<times> slot list \<Rightarrow> bool" where
  "init_loop_ok n r = (case fst r of
     Inl _ \<Rightarrow> list_all slot_clean (snd r)
   | Inr _ \<Rightarrow> length (snd r) = n \<and> (\<forall>i < n. slot_fresh i (snd r ! i)))"

lemma pool_init_loop_ok:
  assumes calls: "\<forall>i. calls_ok (calls i)" and made: "\<forall>i < length made. slot_fresh i (made ! i)"
  shows "\<exists>r. pool_init_loop send until_exit calls k made = Some r \<and> init_loop_ok (length made + k) r"
  using made
proof (induction k arbitrary: made)
  case 0
  then show ?case by (simp add: init_loop_ok_def)
next
  case (Suc k)
  let ?init = "worker_init (calls (length made)) (word_of_nat (length made + 1)) store_empty"
  obtain rc w st where init: "?init = (rc, w, st)" by (cases ?init) auto
  let ?s = "\<lparr>sl_worker = w, sl_store = st, sl_notify = 0\<rparr>"
  note out = worker_init_slot [OF calls [rule_format] init]
  show ?case
  proof (cases rc)
    case (Inl e)
    have "list_all (\<lambda>s. \<exists>i. slot_fresh i s) (rev made)"
      using Suc.prems by (metis (no_types, lifting) list_all_iff in_set_conv_nth set_rev)
    from slots_free_fresh [OF this, of send until_exit] init out Inl show ?thesis
      by (auto simp: Let_def init_loop_ok_def)
  next
    case (Inr u)
    then have "\<forall>i < length (made @ [?s]). slot_fresh i ((made @ [?s]) ! i)"
      using Suc.prems out by (auto simp: nth_append less_Suc_eq)
    from Suc.IH [OF this] init Inr show ?thesis by (simp add: Let_def)
  qed
qed

lemma worker_pool_init_ok:
  assumes "\<forall>i. calls_ok (calls i)"
  shows "\<exists>rc pool ss. worker_pool_init send until_exit calloc calls old count = Some (rc, pool, ss) \<and>
    (case rc of
       Inl _ \<Rightarrow> pool = (if count = 0 then old else worker_pool_zero) \<and> list_all slot_clean ss
     | Inr _ \<Rightarrow> pool_ok pool \<and> pool_count pool = count \<and> pool_next pool = 0 \<and>
         (\<forall>i < count. slot_fresh i (the (pool_workers pool) ! i)))"
proof -
  obtain r where "pool_init_loop send until_exit calls count [] = Some r" "init_loop_ok count r"
    using pool_init_loop_ok [OF assms, of "[]" send until_exit count] by auto
  then show ?thesis
    by (cases r; cases "fst r") (auto simp: worker_pool_init_def init_loop_ok_def pool_ok_def worker_pool_zero_def)
qed

text \<open>
  C31. For any mix of failing and succeeding calls \<^verbatim>\<open>worker_pool_init\<close> returns, and either the pool is
  empty (or untouched, for a count of 0) and every worker that had been made was released completely and only once, or the pool
  holds \<open>count\<close> workers that are ready, with the ids 1 to \<open>count\<close> (as 32-bit numbers), and the choice starts at the first.
\<close>

theorem worker_pool_init_clean:
  assumes "\<forall>i. calls_ok (calls i)"
  shows "\<exists>rc pool ss. worker_pool_init send until_exit calloc calls old count = Some (rc, pool, ss) \<and>
    (case rc of
       Inl _ \<Rightarrow> pool = (if count = 0 then old else worker_pool_zero) \<and> list_all slot_clean ss
     | Inr _ \<Rightarrow> pool_ok pool \<and> pool_count pool = count \<and> pool_next pool = 0 \<and>
         (\<forall>i < count. slot_fresh i (the (pool_workers pool) ! i)))"
  by (rule worker_pool_init_ok [OF assms])

definition example_calls :: "nat \<Rightarrow> init_calls" where
  "example_calls i = \<lparr>ic_event_base_new = True, ic_mutex_init = True, ic_errno = None,
     ic_socketpair = Inr (2 * int i + 4, 2 * int i + 5), ic_event_new = True, ic_event_add = i < 1\<rparr>"

theorem worker_pool_init_clean_witness:
  "map_option (\<lambda>(rc, pool, ss). (rc, length ss, list_all slot_clean ss))
     (worker_pool_init (\<lambda>_. None) id True example_calls worker_pool_zero 2) = Some (Inl EINVAL, 2, True)"
proof -
  have calls: "\<forall>i. calls_ok (example_calls i)"
    by (simp add: calls_ok_def example_calls_def socket_is_valid_def EVUTIL_INVALID_SOCKET_def)
  have "map_option (\<lambda>(rc, pool, ss). (rc, length ss)) (worker_pool_init (\<lambda>_. None) id True example_calls worker_pool_zero 2) =
      Some (Inl EINVAL, 2)"
    by (simp add: worker_pool_init_def numeral_2_eq_2 example_calls_def worker_init_def Let_def slot_free_def
      worker_free_def worker_stop_def worker_join_def worker_release_def worker_take_pending_def
      free_pending_loop.simps worker_zero_def)
  with worker_pool_init_clean [OF calls, of "\<lambda>_. None" id True worker_pool_zero 2] show ?thesis by auto
qed

end
