(* ===== verification/Stream_Listener.thy ===== *)
theory Stream_Listener
  imports Worker_System Worker_Pool Bind
begin

text \<open>
  The listening side of a stream route (\<^verbatim>\<open>src/stream_listener.c\<close>, \<^verbatim>\<open>src/stream_route.c\<close>): an
  accepted client is given to the next worker, and the listening sockets are opened, configured and
  bound with every failure closing what was opened. The results of the system calls are arguments.
\<close>

section \<open>Accepting a client\<close>

text \<open>\<^verbatim>\<open>dispatch_client_fd\<close> on the worker in slot \<open>i\<close>.\<close>

definition dispatch_client_fd ::
  "(nat \<Rightarrow> errno option) \<Rightarrow> addr option \<Rightarrow> worker_pool \<Rightarrow> nat \<Rightarrow> route \<Rightarrow> int \<Rightarrow> sockaddr \<Rightarrow> nat \<Rightarrow>
   (unit result \<times> worker_pool) option" where
  "dispatch_client_fd send calloc pool i r fd addr addr_len =
     (let s = pool_slot pool i in
      map_option (\<lambda>(rc, w, st, n). (rc, set_slot pool i \<lparr>sl_worker = w, sl_store = st, sl_notify = n\<rparr>))
        (worker_enqueue_stream_client send calloc (sl_worker s) (Some r) fd (Some addr) addr_len
           (sl_store s) (sl_notify s)))"

text \<open>\<^verbatim>\<open>accept_cb\<close>: the pool afterwards, and the sockets that the callback itself closes.\<close>

definition accept_cb ::
  "(nat \<Rightarrow> errno option) \<Rightarrow> addr option \<Rightarrow> worker_pool \<Rightarrow> route \<Rightarrow> int \<Rightarrow> sockaddr option \<Rightarrow> int \<Rightarrow>
   (worker_pool \<times> int list) option" where
  "accept_cb send calloc pool r client_fd addr socklen =
     (case addr of
        None \<Rightarrow> Some (pool, [client_fd])
      | Some a \<Rightarrow>
          if socklen \<le> 0 \<or> nat socklen > SIZEOF_SS then Some (pool, [client_fd])
          else (case worker_pool_next pool of
             (None, pool) \<Rightarrow> Some (pool, [client_fd])
           | (Some i, pool) \<Rightarrow>
               map_option (\<lambda>(rc, pool). (pool, case rc of Inl _ \<Rightarrow> [client_fd] | Inr _ \<Rightarrow> []))
                 (dispatch_client_fd send calloc pool i r client_fd a (nat socklen))))"

text \<open>
  \<^verbatim>\<open>accept_error_cb\<close>: the listener is disabled and the loop is left. The argument and result \<open>enabled\<close> tell
  whether the listener accepts.
\<close>

definition accept_error_cb :: "bool \<times> event_loop \<Rightarrow> bool \<times> event_loop" where
  "accept_error_cb = (\<lambda>(enabled, accept_base). (False, accept_base\<lparr>el_exit := True\<rparr>))"

section \<open>How often the socket is closed\<close>

definition released :: "int \<Rightarrow> res_event list \<Rightarrow> nat" where
  "released fd es = length (filter (\<lambda>e. e = Release (R_fd fd)) es)"

text \<open>
  C26. What becomes of an accepted socket. The callback always returns. With an unusable address, or when
  no memory is left, the socket is closed once; when the chosen worker runs, it is
  handed over and not closed. But when the chosen worker is stopping the socket is closed twice: once
  by the worker, which frees the message, and once more by the callback.
\<close>

theorem accept_cb_closes:
  assumes "pool_ok pool" and "socket_is_valid fd"
    and "i = unat (pool_next pool) mod pool_count pool"
    and "queue_ok (sl_worker (pool_slot pool i)) (sl_store (pool_slot pool i)) q" and "store_ok (sl_store (pool_slot pool i)) q"
    and "st_trace (sl_store (pool_slot pool i)) = []"
    and "list_all (\<lambda>a. st_msgs (sl_store (pool_slot pool i)) a = None) (case calloc of None \<Rightarrow> [] | Some a \<Rightarrow> [a])"
  shows "\<exists>pool' closed. accept_cb send calloc pool r fd addr socklen = Some (pool', closed) \<and>
    length (filter (\<lambda>x. x = fd) closed) + released fd (st_trace (sl_store (pool_slot pool' i))) =
      (if addr = None \<or> socklen \<le> 0 \<or> SIZEOF_SS < nat socklen \<or> calloc = None then 1
       else if w_stopping (sl_worker (pool_slot pool i)) then 2 else 0)"
proof (cases "addr = None \<or> socklen \<le> 0 \<or> SIZEOF_SS < nat socklen")
  case True
  then have "accept_cb send calloc pool r fd addr socklen = Some (pool, [fd])"
    by (auto simp: accept_cb_def split: option.split)
  then show ?thesis using True assms(6) by (auto simp: released_def)
next
  case False
  then obtain a where a: "addr = Some a" by (cases addr) auto
  obtain ss where ss: "pool_workers pool = Some ss" "length ss = pool_count pool" "0 < pool_count pool"
    using assms(1) by (auto simp: pool_ok_def split: option.splits)
  let ?s = "pool_slot pool i" and ?pool1 = "pool\<lparr>pool_next := pool_next pool + 1\<rparr>"
  have nx: "worker_pool_next pool = (Some i, ?pool1)" using ss assms(3) by (simp add: worker_pool_next_def)
  have i: "i < length ss" using ss(2,3) assms(3) by simp
  have s1: "pool_slot ?pool1 i = ?s" by (simp add: pool_slot_def)
  have slot: "pool_slot (set_slot ?pool1 i s) i = s" for s using ss(1) i by (simp add: pool_slot_def set_slot_def)
  have valid: "socket_is_valid fd \<and> nat socklen \<le> SIZEOF_SS" using False assms(2) by simp
  obtain w' st' n' rc where enq: "worker_enqueue_stream_client send calloc (sl_worker ?s) (Some r) fd (Some a) (nat socklen)
      (sl_store ?s) (sl_notify ?s) = Some (rc, w', st', n')"
    and rc: "rc = enqueue_rc (socket_is_valid fd \<and> nat socklen \<le> SIZEOF_SS) (calloc \<noteq> None) (w_stopping (sl_worker ?s))"
    and cs: "case rc of
       Inr _ \<Rightarrow> queue_ok w' st' (q @ [the calloc]) \<and> store_ok st' (q @ [the calloc]) \<and>
         jobs st' (q @ [the calloc]) = jobs (sl_store ?s) q @ [(stream_client_payload r fd (Some a) (nat socklen), [])] \<and>
         st_trace st' = st_trace (sl_store ?s)
     | Inl e \<Rightarrow> w' = sl_worker ?s \<and> queue_ok (sl_worker ?s) st' q \<and> store_ok st' q \<and> jobs st' q = jobs (sl_store ?s) q \<and>
         st_trace st' = st_trace (sl_store ?s) @ (if e = ECANCELED then [Release (R_fd fd)] else [])"
    using enqueue_stream_client_outcome [OF assms(4,5,7), of send r fd "Some a" "nat socklen" "sl_notify ?s"] by blast
  have tr: "case rc of Inr _ \<Rightarrow> st_trace st' = [] | Inl e \<Rightarrow> st_trace st' = (if e = ECANCELED then [Release (R_fd fd)] else [])"
    using cs assms(6) by (cases rc) simp_all
  have "accept_cb send calloc pool r fd addr socklen =
      Some (set_slot ?pool1 i \<lparr>sl_worker = w', sl_store = st', sl_notify = n'\<rparr>, case rc of Inl _ \<Rightarrow> [fd] | Inr _ \<Rightarrow> [])"
    using False a enq by (simp add: accept_cb_def nx dispatch_client_fd_def s1)
  then show ?thesis
    using tr rc valid False a by (auto simp: slot released_def enqueue_rc_def)
qed

theorem accept_cb_closes_witness:
  "map_option (\<lambda>(pool, closed). (closed, st_trace (sl_store (pool_slot pool 0))))
     (accept_cb (\<lambda>_. None) (Some 1)
        \<lparr>pool_workers = Some [\<lparr>sl_worker = worker_zero\<lparr>w_stopping := True\<rparr>, sl_store = store_empty, sl_notify = 0\<rparr>],
         pool_count = 1, pool_next = 0\<rparr> route_zero 9 (Some (mk_sin 5000 [10, 0, 0, 1])) 16) =
   Some ([9], [Release (R_fd 9)])"
proof -
  let ?p = "\<lparr>pool_workers = Some [\<lparr>sl_worker = worker_zero\<lparr>w_stopping := True\<rparr>, sl_store = store_empty, sl_notify = 0\<rparr>],
         pool_count = 1, pool_next = 0\<rparr>"
  have "pool_ok ?p" "socket_is_valid 9" "(0 :: nat) = unat (pool_next ?p) mod pool_count ?p"
    "queue_ok (sl_worker (pool_slot ?p 0)) (sl_store (pool_slot ?p 0)) []" "store_ok (sl_store (pool_slot ?p 0)) []"
    "st_trace (sl_store (pool_slot ?p 0)) = []"
    "list_all (\<lambda>a. st_msgs (sl_store (pool_slot ?p 0)) a = None) (case Some 1 of None \<Rightarrow> [] | Some a \<Rightarrow> [a])"
    by (simp_all add: pool_ok_def socket_is_valid_def EVUTIL_INVALID_SOCKET_def pool_slot_def queue_ok_def store_ok_def
      worker_zero_def store_empty_def)
  from accept_cb_closes [OF this, of "\<lambda>_. None" route_zero "Some (mk_sin 5000 [10, 0, 0, 1])" 16]
  have "accept_cb (\<lambda>_. None) (Some 1) ?p route_zero 9 (Some (mk_sin 5000 [10, 0, 0, 1])) 16 \<noteq> None" by auto
  moreover have "accept_cb (\<lambda>_. None) (Some 1) ?p route_zero 9 (Some (mk_sin 5000 [10, 0, 0, 1])) 16 =
      Some (set_slot (?p\<lparr>pool_next := 1\<rparr>) 0 \<lparr>sl_worker = worker_zero\<lparr>w_stopping := True\<rparr>,
        sl_store = log_res [Release (R_fd 9)] (store_empty\<lparr>st_msgs := (Map.empty)(1 := None)\<rparr>), sl_notify = 0\<rparr>, [9])"
    by (simp add: accept_cb_def worker_pool_next_def dispatch_client_fd_def pool_slot_def worker_enqueue_stream_client_def
      worker_enqueue_msg_def enqueue_locked_def free_worker_msg_def free_msg_def stream_client_payload_def socket_is_valid_def
      EVUTIL_INVALID_SOCKET_def log_res_def store_empty_def sizeof_defs)
  ultimately show ?thesis by (simp add: pool_slot_def set_slot_def store_empty_def)
qed

section \<open>Opening the listener\<close>

text \<open>
  The results of the calls, in the order they are made. A failed call leaves an error number, \<open>None\<close> when
  it is 0, which the program reports as \<^verbatim>\<open>EIO\<close>.
\<close>

record listen_calls =
  lc_pton4 :: "string \<Rightarrow> byte list option"
  lc_pton6 :: "string \<Rightarrow> byte list option"
  lc_unlink :: "errno option"
  lc_socket :: "errno option + int"
  lc_reuseable :: "errno option + unit"
  lc_nonblocking :: "errno option + unit"
  lc_bind :: "nat \<Rightarrow> bind_attempt"
  lc_listen :: "errno option + unit"
  lc_listener_new :: "errno option + unit"

definition or_eio :: "errno option \<Rightarrow> errno" where
  "or_eio e = (case e of Some e \<Rightarrow> e | None \<Rightarrow> EIO)"

text \<open>The result is the listening socket, the error, and the log of the socket.\<close>

type_synonym listen_result = "int result \<times> res_event list"

definition fail_close :: "int \<Rightarrow> errno \<Rightarrow> listen_result" where
  "fail_close fd e = (Inl e, [Acquire (R_fd fd), Release (R_fd fd)])"

definition bind_tcp_stream_listener :: "listen_calls \<Rightarrow> route \<Rightarrow> listen_result option" where
  "bind_tcp_stream_listener k r =
     (case endpoint_to_sockaddr (lc_pton4 k) (lc_pton6 k) (listen r) of
        Inl e \<Rightarrow> Some (Inl e, [])
      | Inr _ \<Rightarrow>
          (case lc_socket k of
             Inl e \<Rightarrow> Some (Inl (or_eio e), [])
           | Inr fd \<Rightarrow>
               (case lc_reuseable k of
                  Inl e \<Rightarrow> Some (fail_close fd (or_eio e))
                | Inr _ \<Rightarrow>
                    (case lc_nonblocking k of
                       Inl e \<Rightarrow> Some (fail_close fd (or_eio e))
                     | Inr _ \<Rightarrow>
                         (case bind_with_wait (lc_bind k) r of
                            None \<Rightarrow> None
                          | Some (Inl rc, _) \<Rightarrow> Some (fail_close fd rc)
                          | Some (Inr _, _) \<Rightarrow>
                              (case lc_listen k of
                                 Inl e \<Rightarrow> Some (fail_close fd (or_eio e))
                               | Inr _ \<Rightarrow>
                                   (case lc_listener_new k of
                                      Inl e \<Rightarrow> Some (fail_close fd (or_eio e))
                                    | Inr _ \<Rightarrow> Some (Inr fd, [Acquire (R_fd fd)]))))))))"

text \<open>
  The part of \<^verbatim>\<open>bind_unix_stream_listener\<close> after the socket was made. The error number after
  \<^verbatim>\<open>evutil_make_listen_socket_reuseable\<close> is returned as it is, so a failure with the number
  0 is reported as success without a listener.
\<close>

definition unix_listen_rest :: "listen_calls \<Rightarrow> int \<Rightarrow> int option result \<times> res_event list" where
  "unix_listen_rest k fd =
     (let closing = (\<lambda>rc. (rc, [Acquire (R_fd fd), Release (R_fd fd)])) in
      case lc_reuseable k of
        Inl (Some e) \<Rightarrow> closing (Inl e)
      | Inl None \<Rightarrow> closing (Inr None)
      | Inr _ \<Rightarrow>
          (case lc_nonblocking k of
             Inl e \<Rightarrow> closing (Inl (or_eio e))
           | Inr _ \<Rightarrow>
               (case lc_bind k 0 of
                  Inl e \<Rightarrow> closing (Inl (or_eio e))
                | Inr _ \<Rightarrow>
                    (case lc_listener_new k of
                       Inl e \<Rightarrow> closing (Inl (or_eio e))
                     | Inr _ \<Rightarrow> (Inr (Some fd), [Acquire (R_fd fd)])))))"

definition bind_unix_stream_listener :: "listen_calls \<Rightarrow> route \<Rightarrow> int option result \<times> res_event list" where
  "bind_unix_stream_listener k r =
     (let path = ep_path (listen r) in
      if path = [] then (Inl EINVAL, [])
      else if length path \<ge> SIZEOF_SUN_PATH then (Inl ENAMETOOLONG, [])
      else case lc_unlink k of
        Some err \<Rightarrow>
          (if err \<noteq> ENOENT then (Inl err, [])
           else (case lc_socket k of Inl e \<Rightarrow> (Inl (or_eio e), []) | Inr fd \<Rightarrow> unix_listen_rest k fd))
      | None \<Rightarrow> (case lc_socket k of Inl e \<Rightarrow> (Inl (or_eio e), []) | Inr fd \<Rightarrow> unix_listen_rest k fd))"

text \<open>\<^verbatim>\<open>bind_stream_listener\<close>: the listener that the route context holds afterwards.\<close>

definition bind_stream_listener :: "listen_calls \<Rightarrow> route \<Rightarrow> (int option result \<times> res_event list) option" where
  "bind_stream_listener k r =
     (case ep_kind (listen r) of
        ENDPOINT_INET \<Rightarrow> map_option (\<lambda>(rc, es). (map_sum id Some rc, es)) (bind_tcp_stream_listener k r)
      | ENDPOINT_INET6 \<Rightarrow> map_option (\<lambda>(rc, es). (map_sum id Some rc, es)) (bind_tcp_stream_listener k r)
      | ENDPOINT_UNIX \<Rightarrow> Some (bind_unix_stream_listener k r)
      | _ \<Rightarrow> Some (Inl ENOTSUP, []))"

section \<open>The stream route\<close>

record stream_route_ctx =
  sr_route :: "route option"
  sr_listener :: "int option"

definition stream_route_ctx_zero :: stream_route_ctx where
  "stream_route_ctx_zero = \<lparr>sr_route = None, sr_listener = None\<rparr>"

text \<open>
  \<^verbatim>\<open>start_stream_route\<close>. When a bind reports success without a listener, the next call,
  \<^verbatim>\<open>evconnlistener_set_error_cb\<close>, gets a null pointer: \<open>None\<close>.
\<close>

definition start_stream_route ::
  "listen_calls \<Rightarrow> route \<Rightarrow> (unit result \<times> stream_route_ctx \<times> res_event list) option" where
  "start_stream_route k r =
     (case bind_stream_listener k r of
        None \<Rightarrow> None
      | Some (Inl e, es) \<Rightarrow> Some (Inl e, stream_route_ctx_zero, es)
      | Some (Inr None, es) \<Rightarrow> None
      | Some (Inr (Some fd), es) \<Rightarrow> Some (Inr (), \<lparr>sr_route = Some r, sr_listener = Some fd\<rparr>, es))"

text \<open>\<^verbatim>\<open>evconnlistener_free\<close> closes the socket (\<^verbatim>\<open>LEV_OPT_CLOSE_ON_FREE\<close>).\<close>

definition stop_stream_route_listener :: "stream_route_ctx \<Rightarrow> stream_route_ctx \<times> res_event list" where
  "stop_stream_route_listener ctx =
     (case sr_listener ctx of
        None \<Rightarrow> (ctx, [])
      | Some fd \<Rightarrow> (ctx\<lparr>sr_listener := None\<rparr>, [Release (R_fd fd)]))"

text \<open>
  \<^verbatim>\<open>stop_unix_stream_route\<close>: the path that is removed. \<open>lstat\<close> tells whether the path exists and then
  whether it is a socket.
\<close>

definition stop_unix_stream_route :: "(string \<Rightarrow> bool option) \<Rightarrow> stream_route_ctx \<Rightarrow> string list" where
  "stop_unix_stream_route lstat ctx =
     (case sr_route ctx of
        None \<Rightarrow> []
      | Some r \<Rightarrow>
          if ep_kind (listen r) \<noteq> ENDPOINT_UNIX then []
          else if ep_path (listen r) = [] then []
          else (case lstat (ep_path (listen r)) of
             None \<Rightarrow> []
           | Some is_socket \<Rightarrow> if \<not> is_socket then [] else [ep_path (listen r)]))"

definition free_stream_route :: "(string \<Rightarrow> bool option) \<Rightarrow> stream_route_ctx \<Rightarrow> stream_route_ctx \<times> string list" where
  "free_stream_route lstat ctx = (stream_route_ctx_zero, stop_unix_stream_route lstat ctx)"

definition listen_calls_ok :: "listen_calls \<Rightarrow> bool" where
  "listen_calls_ok k \<longleftrightarrow> lc_reuseable k \<noteq> Inl None"

definition listen_owner :: "int option result \<times> res_event list \<Rightarrow> bool" where
  "listen_owner x = (case fst x of
     Inl _ \<Rightarrow> ledger [] (snd x) = Some [] | Inr None \<Rightarrow> False | Inr (Some fd) \<Rightarrow> snd x = [Acquire (R_fd fd)])"

lemma bind_stream_listener_owner:
  assumes "listen_calls_ok k" and "0 \<le> bind_wait_sec (opts r)" and "bind_wait_sec (opts r) \<le> 2147483"
  shows "\<exists>x. bind_stream_listener k r = Some x \<and> listen_owner x"
proof -
  obtain rc w n where b: "bind_with_wait (lc_bind k) r = Some (rc, w, n)"
    using bind_with_wait_total [OF assms(2,3)] by blast
  have "\<exists>x. bind_tcp_stream_listener k r = Some x \<and> listen_owner (map_sum id Some (fst x), snd x)"
    using b by (auto simp: bind_tcp_stream_listener_def fail_close_def listen_owner_def split: sum.split)
  moreover have "listen_owner (bind_unix_stream_listener k r)"
    using assms(1)
    by (auto simp: bind_unix_stream_listener_def unix_listen_rest_def listen_calls_ok_def listen_owner_def Let_def
      split: sum.split option.split)
  moreover have "listen_owner (Inl ENOTSUP, [])" by (simp add: listen_owner_def)
  ultimately show ?thesis
    by (cases "ep_kind (listen r)") (auto simp: bind_stream_listener_def case_prod_beta)
qed

text \<open>
  C36. Opening the listener of a stream route never leaks a socket. With an error number for every
  failure and a wait that does not overflow, \<^verbatim>\<open>start_stream_route\<close> returns; it fails with every socket it opened closed once and a cleared context, or succeeds
  with exactly one open socket, which the context holds, and stopping the listener closes it.
\<close>

theorem start_stream_route_owner:
  assumes "listen_calls_ok k" and "0 \<le> bind_wait_sec (opts r)" and "bind_wait_sec (opts r) \<le> 2147483"
  shows "\<exists>rc ctx es. start_stream_route k r = Some (rc, ctx, es) \<and>
    (case rc of
       Inl _ \<Rightarrow> ledger [] es = Some [] \<and> ctx = stream_route_ctx_zero
     | Inr _ \<Rightarrow> (\<exists>fd. sr_listener ctx = Some fd \<and> ledger [] es = Some [R_fd fd]) \<and>
         ledger [] (es @ snd (stop_stream_route_listener ctx)) = Some [])"
proof -
  obtain x where "bind_stream_listener k r = Some x" "listen_owner x"
    using bind_stream_listener_owner [OF assms] by blast
  then show ?thesis
    by (cases "fst x"; cases x)
      (auto simp: start_stream_route_def stop_stream_route_listener_def listen_owner_def split: option.splits)
qed

definition example_listen_calls :: listen_calls where
  "example_listen_calls = \<lparr>lc_pton4 = (\<lambda>_. Some [0, 0, 0, 0]), lc_pton6 = (\<lambda>_. None), lc_unlink = None,
     lc_socket = Inr 4, lc_reuseable = Inr (), lc_nonblocking = Inr (), lc_bind = (\<lambda>_. Inr ()),
     lc_listen = Inl None, lc_listener_new = Inr ()\<rparr>"

theorem start_stream_route_owner_witness:
  "map_option (\<lambda>(rc, ctx, es). (rc, ledger [] es))
     (start_stream_route example_listen_calls (route_zero\<lparr>listen := endpoint_zero\<lparr>ep_kind := ENDPOINT_INET\<rparr>\<rparr>)) =
   Some (Inl EIO, Some [])"
proof -
  let ?r = "route_zero\<lparr>listen := endpoint_zero\<lparr>ep_kind := ENDPOINT_INET\<rparr>\<rparr>"
  have ok: "listen_calls_ok example_listen_calls" "0 \<le> bind_wait_sec (opts ?r)" "bind_wait_sec (opts ?r) \<le> 2147483"
    by (simp_all add: listen_calls_ok_def example_listen_calls_def route_zero_def route_options_zero_def)
  have "map_option (\<lambda>(rc, ctx, es). rc) (start_stream_route example_listen_calls ?r) = Some (Inl EIO)"
    by (simp add: start_stream_route_def bind_stream_listener_def bind_tcp_stream_listener_def endpoint_to_sockaddr_def
      bind_with_wait_def int_result_def in_int_def INT_MAX_def bind_loop.simps fail_close_def or_eio_def
      example_listen_calls_def route_zero_def route_options_zero_def endpoint_zero_def)
  with start_stream_route_owner [OF ok] show ?thesis by auto
qed

end
