(* ===== verification/Proxy_V2.thy ===== *)
theory Proxy_V2
  imports Sockaddr
begin

unbundle bit_operations_syntax

text \<open>
  \<^verbatim>\<open>src/proxy_proto_v2.c\<close>: the PROXY protocol version 2 header that precedes a client's
  bytes. The specification is a receiver: \<open>pp2_decode\<close> reads a header off the front of a byte
  stream as the protocol describes, and the header the program builds decodes to the addresses,
  ports and transport it was built from, leaving the payload untouched.
\<close>

section \<open>The builder\<close>

definition PROXY_V2_SIG :: "byte list" where
  "PROXY_V2_SIG = [0x0D, 0x0A, 0x0D, 0x0A, 0x00, 0x0D, 0x0A, 0x51, 0x55, 0x49, 0x54, 0x0A]"

definition PP2_VERSION_CMD_PROXY :: byte where "PP2_VERSION_CMD_PROXY = 0x21"
definition PP2_FAM_INET :: byte where "PP2_FAM_INET = 0x10"
definition PP2_FAM_INET6 :: byte where "PP2_FAM_INET6 = 0x20"
definition PP2_TRANS_STREAM :: byte where "PP2_TRANS_STREAM = 0x01"
definition PP2_TRANS_DGRAM :: byte where "PP2_TRANS_DGRAM = 0x02"

lemmas pp2_defs = PROXY_V2_SIG_def PP2_VERSION_CMD_PROXY_def PP2_FAM_INET_def PP2_FAM_INET6_def
  PP2_TRANS_STREAM_def PP2_TRANS_DGRAM_def

definition SOCK_STREAM :: nat where "SOCK_STREAM = 1"
definition SOCK_DGRAM :: nat where "SOCK_DGRAM = 2"

lemmas sock_defs = SOCK_STREAM_def SOCK_DGRAM_def

definition put_u16 :: "16 word \<Rightarrow> byte list" where
  "put_u16 v = [ucast (drop_bit 8 v), ucast (v AND 0xff)]"

text \<open>
  \<^verbatim>\<open>proxy_v2_build\<close>. A null pointer is \<open>None\<close>; \<open>buf\<close> is otherwise the size of the buffer and
  \<open>out_len\<close> tells whether the output pointer is given. The result is the bytes written to the
  front of the buffer, whose number is stored through \<open>out_len\<close>.
\<close>

definition proxy_v2_build ::
  "nat option \<Rightarrow> sockaddr option \<Rightarrow> nat \<Rightarrow> sockaddr option \<Rightarrow> nat \<Rightarrow> nat \<Rightarrow> bool \<Rightarrow> byte list result" where
  "proxy_v2_build buf src src_len dst dst_len sock_type out_len =
     (case (buf, src, dst) of
        (Some buf_len, Some s, Some d) \<Rightarrow>
          if \<not> out_len then Inl EINVAL
          else if ss_family s \<noteq> ss_family d then Inl EAFNOSUPPORT
          else if sock_type \<noteq> SOCK_STREAM \<and> sock_type \<noteq> SOCK_DGRAM then Inl EPROTONOSUPPORT
          else
            let fam_proto = (if sock_type = SOCK_STREAM then PP2_TRANS_STREAM else PP2_TRANS_DGRAM) in
            if ss_family s = AF_INET then
              (if src_len < SIZEOF_SIN \<or> dst_len < SIZEOF_SIN then Inl EINVAL
               else if buf_len < 16 + 12 then Inl ENOSPC
               else Inr (PROXY_V2_SIG @ [PP2_VERSION_CMD_PROXY, PP2_FAM_INET OR fam_proto] @
                      put_u16 12 @ sin_addr s @ sin_addr d @ sin_port s @ sin_port d))
            else if ss_family s = AF_INET6 then
              (if src_len < SIZEOF_SIN6 \<or> dst_len < SIZEOF_SIN6 then Inl EINVAL
               else if buf_len < 16 + 36 then Inl ENOSPC
               else Inr (PROXY_V2_SIG @ [PP2_VERSION_CMD_PROXY, PP2_FAM_INET6 OR fam_proto] @
                      put_u16 36 @ sin6_addr s @ sin6_addr d @ sin6_port s @ sin6_port d))
            else Inl EAFNOSUPPORT
      | _ \<Rightarrow> Inl EINVAL)"

section \<open>A receiver\<close>

text \<open>
  What a receiver of the header learns. A header is 16 fixed bytes (signature, version and
  command, family and transport, length of the rest) and then the two addresses and ports.
\<close>

record pp2_info =
  pp2_family :: nat
  pp2_transport :: nat
  pp2_src :: "byte list"
  pp2_dst :: "byte list"
  pp2_sport :: "16 word"
  pp2_dport :: "16 word"

definition pp2_addrs :: "nat \<Rightarrow> nat \<Rightarrow> nat \<Rightarrow> byte list \<Rightarrow> pp2_info" where
  "pp2_addrs fam tr alen body =
     \<lparr>pp2_family = fam, pp2_transport = tr,
      pp2_src = take alen body, pp2_dst = take alen (drop alen body),
      pp2_sport = of_be16 (take 2 (drop (2 * alen) body)),
      pp2_dport = of_be16 (take 2 (drop (2 * alen + 2) body))\<rparr>"

definition pp2_decode :: "byte list \<Rightarrow> (pp2_info \<times> byte list) option" where
  "pp2_decode bs =
     (if length bs < 16 \<or> take 12 bs \<noteq> PROXY_V2_SIG \<or> bs ! 12 \<noteq> 0x21 then None
      else let fam = bs ! 13 AND 0xF0; tr = unat (bs ! 13 AND 0x0F);
               len = unat (of_be16 [bs ! 14, bs ! 15]);
               body = take len (drop 16 bs); rest = drop (16 + len) bs in
           if length body < len then None
           else if fam = 0x10 \<and> 12 \<le> len then Some (pp2_addrs AF_INET tr 4 body, rest)
           else if fam = 0x20 \<and> 36 \<le> len then Some (pp2_addrs AF_INET6 tr 16 body, rest)
           else None)"

lemma put_u16_be16: "put_u16 v = be16 v"
proof -
  have m: "(0xff :: 16 word) = mask 8" by (simp add: mask_eq_exp_minus_1)
  have "unat (ucast (v AND 0xff) :: byte) = unat (ucast v :: byte)"
    unfolding m take_bit_eq_mask [symmetric]
    by (simp add: unat_ucast_mod unsigned_take_bit_eq take_bit_eq_mod unat_mod_distrib)
  then show ?thesis by (simp add: put_u16_def be16_def word_unat_eq_iff)
qed

lemma be16_of_be16_list: "length p = 2 \<Longrightarrow> of_be16 (take 2 (p @ q)) = of_be16 p"
  by simp

lemma pp2_decode_inet:
  assumes "length a = 4" "length b = 4" "length p = 2" "length q = 2" "t = 1 \<or> t = 2"
  shows "pp2_decode (PROXY_V2_SIG @ [0x21, 0x10 OR t] @ be16 12 @ a @ b @ p @ q @ payload) =
    Some (\<lparr>pp2_family = AF_INET, pp2_transport = unat t, pp2_src = a, pp2_dst = b,
           pp2_sport = of_be16 p, pp2_dport = of_be16 q\<rparr>, payload)"
  using assms
  by (auto simp: pp2_decode_def PROXY_V2_SIG_def be16_def pp2_addrs_def of_be16_def Let_def)

lemma pp2_decode_inet6:
  assumes "length a = 16" "length b = 16" "length p = 2" "length q = 2" "t = 1 \<or> t = 2"
  shows "pp2_decode (PROXY_V2_SIG @ [0x21, 0x20 OR t] @ be16 36 @ a @ b @ p @ q @ payload) =
    Some (\<lparr>pp2_family = AF_INET6, pp2_transport = unat t, pp2_src = a, pp2_dst = b,
           pp2_sport = of_be16 p, pp2_dport = of_be16 q\<rparr>, payload)"
  using assms
  by (auto simp: pp2_decode_def PROXY_V2_SIG_def be16_def pp2_addrs_def of_be16_def Let_def)

section \<open>The header decodes to what it was built from\<close>

definition pp2_spec :: "sockaddr \<Rightarrow> sockaddr \<Rightarrow> nat \<Rightarrow> pp2_info" where
  "pp2_spec s d sock_type =
     (if ss_family s = AF_INET
      then \<lparr>pp2_family = AF_INET, pp2_transport = sock_type, pp2_src = sin_addr s,
            pp2_dst = sin_addr d, pp2_sport = of_be16 (sin_port s), pp2_dport = of_be16 (sin_port d)\<rparr>
      else \<lparr>pp2_family = AF_INET6, pp2_transport = sock_type, pp2_src = sin6_addr s,
            pp2_dst = sin6_addr d, pp2_sport = of_be16 (sin6_port s),
            pp2_dport = of_be16 (sin6_port d)\<rparr>)"

lemma proxy_v2_build_inet:
  assumes "proxy_v2_build (Some n) (Some s) src_len (Some d) dst_len sock_type True = Inr hdr"
    and "src_len \<le> length s" and "dst_len \<le> length d" and "ss_family s = AF_INET"
  shows "length hdr = 28 \<and> 28 \<le> n \<and> pp2_decode (hdr @ payload) = Some (pp2_spec s d sock_type, payload)"
proof -
  from assms(1,4) have st: "sock_type = 1 \<or> sock_type = 2" and n: "28 \<le> n"
    and len: "SIZEOF_SIN \<le> src_len" "SIZEOF_SIN \<le> dst_len"
    and hdr: "hdr = PROXY_V2_SIG @ [0x21, 0x10 OR word_of_nat sock_type] @ be16 12 @
      sin_addr s @ sin_addr d @ sin_port s @ sin_port d"
    by (auto simp: proxy_v2_build_def Let_def sock_defs put_u16_be16 PP2_FAM_INET_def
        PP2_TRANS_STREAM_def PP2_TRANS_DGRAM_def PP2_VERSION_CMD_PROXY_def split: if_splits)
  note fl = sin_field_lengths [OF order_trans [OF len(1) assms(2)]]
    sin_field_lengths [OF order_trans [OF len(2) assms(3)]]
  have "length hdr = 28" using fl by (simp add: hdr PROXY_V2_SIG_def)
  moreover have "pp2_decode (hdr @ payload) = Some (pp2_spec s d sock_type, payload)"
    using pp2_decode_inet [of "sin_addr s" "sin_addr d" "sin_port s" "sin_port d"
        "word_of_nat sock_type" payload] fl st assms(4)
    by (auto simp: hdr pp2_spec_def)
  ultimately show ?thesis using n by simp
qed

lemma proxy_v2_build_inet6:
  assumes "proxy_v2_build (Some n) (Some s) src_len (Some d) dst_len sock_type True = Inr hdr"
    and "src_len \<le> length s" and "dst_len \<le> length d" and "ss_family s = AF_INET6"
  shows "length hdr = 52 \<and> 52 \<le> n \<and> pp2_decode (hdr @ payload) = Some (pp2_spec s d sock_type, payload)"
proof -
  from assms(1,4) have st: "sock_type = 1 \<or> sock_type = 2" and n: "52 \<le> n"
    and len: "SIZEOF_SIN6 \<le> src_len" "SIZEOF_SIN6 \<le> dst_len"
    and hdr: "hdr = PROXY_V2_SIG @ [0x21, 0x20 OR word_of_nat sock_type] @ be16 36 @
      sin6_addr s @ sin6_addr d @ sin6_port s @ sin6_port d"
    by (auto simp: proxy_v2_build_def Let_def sock_defs af_defs put_u16_be16 PP2_FAM_INET6_def
        PP2_TRANS_STREAM_def PP2_TRANS_DGRAM_def PP2_VERSION_CMD_PROXY_def split: if_splits)
  note fl = sin6_field_lengths [OF order_trans [OF len(1) assms(2)]]
    sin6_field_lengths [OF order_trans [OF len(2) assms(3)]]
  have "length hdr = 52" using fl by (simp add: hdr PROXY_V2_SIG_def)
  moreover have "pp2_decode (hdr @ payload) = Some (pp2_spec s d sock_type, payload)"
    using pp2_decode_inet6 [of "sin6_addr s" "sin6_addr d" "sin6_port s" "sin6_port d"
        "word_of_nat sock_type" payload] fl st assms(4)
    by (auto simp: hdr pp2_spec_def af_defs)
  ultimately show ?thesis using n by simp
qed

text \<open>
  C13. The header \<^verbatim>\<open>proxy_v2_build\<close> writes fits its buffer, and a receiver that decodes it off the
  front of the stream recovers the address family, the transport, both addresses and both ports
  of the socket addresses it was built from, and then sees exactly the payload.
\<close>

theorem proxy_v2_build_decode:
  assumes "proxy_v2_build (Some n) (Some s) src_len (Some d) dst_len sock_type True = Inr hdr"
    and "src_len \<le> length s" and "dst_len \<le> length d"
  shows "length hdr \<le> n \<and> pp2_decode (hdr @ payload) = Some (pp2_spec s d sock_type, payload)"
proof (cases "ss_family s = AF_INET")
  case True
  from proxy_v2_build_inet [OF assms True] show ?thesis by simp
next
  case False
  with assms(1) have "ss_family s = AF_INET6"
    by (auto simp: proxy_v2_build_def Let_def split: if_splits)
  from proxy_v2_build_inet6 [OF assms this] show ?thesis by simp
qed

theorem proxy_v2_build_decode_witness:
  "proxy_v2_build (Some 256) (Some (mk_sin 4660 [10, 0, 0, 1])) 16 (Some (mk_sin 443 [10, 0, 1, 1])) 16
     1 True = Inr (projr (proxy_v2_build (Some 256) (Some (mk_sin 4660 [10, 0, 0, 1])) 16
                    (Some (mk_sin 443 [10, 0, 1, 1])) 16 1 True)) \<and>
   pp2_decode (projr (proxy_v2_build (Some 256) (Some (mk_sin 4660 [10, 0, 0, 1])) 16
                 (Some (mk_sin 443 [10, 0, 1, 1])) 16 1 True) @ [1, 2]) =
     Some (pp2_spec (mk_sin 4660 [10, 0, 0, 1]) (mk_sin 443 [10, 0, 1, 1]) 1, [1, 2])"
proof -
  let ?b = "proxy_v2_build (Some 256) (Some (mk_sin 4660 [10, 0, 0, 1])) 16
    (Some (mk_sin 443 [10, 0, 1, 1])) 16 1 True"
  have ok: "?b = Inr (projr ?b)"
    by (simp add: proxy_v2_build_def Let_def sock_defs SIZEOF_SIN_def)
  from proxy_v2_build_decode [OF ok, of "[1, 2]"] ok show ?thesis
    by (simp add: SIZEOF_SS_def)
qed

definition pp2_size :: "nat \<Rightarrow> nat" where
  "pp2_size family = (if family = AF_INET then 28 else 52)"

text \<open>
  \<^verbatim>\<open>proxy_v2_build\<close> succeeds exactly when every pointer is given, both addresses are of the
  same supported family and long enough for it, the socket type is a stream or a datagram, and
  the buffer holds the whole header; otherwise it returns one of its four errors.
\<close>

lemma proxy_v2_build_succeeds:
  "\<not> isl (proxy_v2_build buf src src_len dst dst_len sock_type out_len) \<longleftrightarrow>
   (\<exists>n s d. buf = Some n \<and> src = Some s \<and> dst = Some d \<and> out_len \<and>
      ss_family s = ss_family d \<and> sock_type \<in> {SOCK_STREAM, SOCK_DGRAM} \<and>
      (ss_family s = AF_INET \<and> SIZEOF_SIN \<le> src_len \<and> SIZEOF_SIN \<le> dst_len \<or>
       ss_family s = AF_INET6 \<and> SIZEOF_SIN6 \<le> src_len \<and> SIZEOF_SIN6 \<le> dst_len) \<and>
      pp2_size (ss_family s) \<le> n)"
  by (cases buf; cases src; cases dst)
    (auto simp: proxy_v2_build_def Let_def pp2_size_def af_defs split: if_splits)

end
