(* ===== verification/Datagram_Raw.thy ===== *)
theory Datagram_Raw
  imports Route
begin

unbundle bit_operations_syntax

text \<open>
  Replies sent through a raw IPv4 socket (\<^verbatim>\<open>src/datagram_raw.c\<close>): the Internet checksum on 32-bit
  arithmetic, the IPv4 and UDP headers as bytes of the little-endian Linux layout, and the packet
  that is handed to the socket. The lemmas relate the checksum to the sum of the 16-bit words
  modulo 65535, and show what a receiver reads in the packet.
\<close>

section \<open>The checksum\<close>

definition word16 :: "byte \<Rightarrow> byte \<Rightarrow> 32 word" where
  "word16 a b = push_bit 8 (ucast a) OR ucast b"

fun sum_words :: "byte list \<Rightarrow> 32 word \<Rightarrow> 32 word" where
  "sum_words (a # b # p) acc = sum_words p (acc + word16 a b)"
| "sum_words [a] acc = acc + push_bit 8 (ucast a)"
| "sum_words [] acc = acc"

text \<open>The loop that folds the carries back terminates, since each turn makes the sum smaller.\<close>

lemma fold_carry_less:
  assumes "drop_bit 16 s \<noteq> (0 :: 32 word)"
  shows "unat ((s AND 0xffff) + drop_bit 16 s) = unat s mod 65536 + unat s div 65536"
    and "unat s mod 65536 + unat s div 65536 < unat s"
proof -
  have low: "unat (s AND 0xffff) = unat s mod 65536"
    using take_bit_eq_mask [of 16 s] unsigned_take_bit_eq [of 16 s]
    by (simp add: take_bit_eq_mod mask_eq_exp_minus_1)
  have high: "unat (drop_bit 16 s) = unat s div 65536"
    by (simp add: drop_bit_eq_div unat_div_distrib)
  have bound: "unat s < 4294967296" using unsigned_less [of s] by simp
  then have "unat s mod 65536 + unat s div 65536 < 4294967296"
    using mod_less_divisor [of 65536 "unat s"] by linarith
  then show "unat ((s AND 0xffff) + drop_bit 16 s) = unat s mod 65536 + unat s div 65536"
    by (simp add: unat_word_ariths low high)
  have "unat s div 65536 \<noteq> 0" using assms high by (metis unsigned_0 word_unat_eq_iff)
  moreover have "unat s = unat s div 65536 * 65536 + unat s mod 65536" by simp
  ultimately show "unat s mod 65536 + unat s div 65536 < unat s" by linarith
qed

function fold_carries :: "32 word \<Rightarrow> 32 word" where
  "fold_carries acc =
     (if drop_bit 16 acc \<noteq> 0 then fold_carries ((acc AND 0xffff) + drop_bit 16 acc) else acc)"
  by pat_completeness auto
termination
  by (relation "measure unat") (use fold_carry_less in auto)

declare fold_carries.simps [simp del]

definition checksum16 :: "byte list \<Rightarrow> 16 word" where
  "checksum16 data = ucast (NOT (fold_carries (sum_words data 0)))"

section \<open>The packet\<close>

text \<open>
  The two headers, byte by byte. A 16-bit field assigned with \<^verbatim>\<open>htons\<close> is stored in network order;
  a field assigned a plain number is stored in host order, low byte first.
\<close>

definition le16 :: "16 word \<Rightarrow> byte list" where
  "le16 v = [ucast v, ucast (drop_bit 8 v)]"

definition IPPROTO_UDP :: byte where "IPPROTO_UDP = 17"

definition SIZEOF_IP :: nat where "SIZEOF_IP = 20"
definition SIZEOF_UDP :: nat where "SIZEOF_UDP = 8"

definition raw_ipv4_hdr :: "16 word \<Rightarrow> byte list \<Rightarrow> byte list \<Rightarrow> byte list \<Rightarrow> byte list" where
  "raw_ipv4_hdr len ck src dst =
     [push_bit 4 4 OR 5, 0] @ be16 len @ le16 0 @ be16 0 @ [64, IPPROTO_UDP] @ ck @ src @ dst"

definition raw_udp_hdr :: "byte list \<Rightarrow> byte list \<Rightarrow> 16 word \<Rightarrow> byte list" where
  "raw_udp_hdr sport dport len = sport @ dport @ be16 len @ le16 0"

definition endpoint_to_sockaddr_in :: "(string \<Rightarrow> byte list option) \<Rightarrow> endpoint \<Rightarrow> sockaddr result" where
  "endpoint_to_sockaddr_in pton4 ep =
     (if ep_kind ep \<noteq> ENDPOINT_INET then Inl EINVAL
      else case pton4 (ep_host ep) of
        None \<Rightarrow> Inl EINVAL
      | Some a \<Rightarrow> Inr (take SIZEOF_SIN (mk_sin (ep_port ep) a)))"

definition raw_packet :: "sockaddr \<Rightarrow> sockaddr \<Rightarrow> byte list \<Rightarrow> byte list" where
  "raw_packet src dst data =
     (let len = word_of_nat (SIZEOF_IP + SIZEOF_UDP + length data);
          ip0 = raw_ipv4_hdr len (le16 0) (sin_addr src) (sin_addr dst) in
      raw_ipv4_hdr len (le16 (checksum16 ip0)) (sin_addr src) (sin_addr dst) @
      raw_udp_hdr (sin_port src) (sin_port dst) (word_of_nat (SIZEOF_UDP + length data)) @ data)"

text \<open>
  \<^verbatim>\<open>datagram_raw_send_udp_ipv4\<close>. \<open>calloc\<close> is the result of the allocation; \<open>sendto\<close> gives the number
  of bytes sent or an error, for the packet and its destination. The packet that was passed to
  \<^verbatim>\<open>sendto\<close> is returned too.
\<close>

definition datagram_raw_send_udp_ipv4 ::
  "(string \<Rightarrow> byte list option) \<Rightarrow> bool \<Rightarrow> (byte list \<Rightarrow> sockaddr \<Rightarrow> nat result) \<Rightarrow>
   int \<Rightarrow> endpoint option \<Rightarrow> sockaddr option \<Rightarrow> nat \<Rightarrow> byte list option \<Rightarrow>
   unit result \<times> (byte list \<times> sockaddr) option" where
  "datagram_raw_send_udp_ipv4 pton4 calloc sendto raw_fd src_ep dst_addr dst_addr_len data =
     (case (src_ep, dst_addr, data) of
        (Some src_ep, Some dst, Some data) \<Rightarrow>
          if raw_fd < 0 then (Inl EINVAL, None)
          else if dst_addr_len < SIZEOF_SIN then (Inl EINVAL, None)
          else if ss_family dst \<noteq> AF_INET then (Inl EAFNOSUPPORT, None)
          else (case endpoint_to_sockaddr_in pton4 src_ep of
             Inl e \<Rightarrow> (Inl e, None)
           | Inr src \<Rightarrow>
               if length data > 65535 - SIZEOF_IP - SIZEOF_UDP then (Inl EMSGSIZE, None)
               else if \<not> calloc then (Inl ENOMEM, None)
               else
                 let packet = raw_packet src dst data;
                     send_dst = take SIZEOF_SIN (mk_sin 0 (sin_addr dst)) in
                 (case sendto packet send_dst of
                    Inl e \<Rightarrow> (Inl e, Some (packet, send_dst))
                  | Inr n \<Rightarrow> (if n \<noteq> length packet then Inl EIO else Inr (), Some (packet, send_dst))))
      | _ \<Rightarrow> (Inl EINVAL, None))"

text \<open>\<^verbatim>\<open>datagram_raw_open_ipv4\<close>: the socket, or the error, and the sockets closed on the way.\<close>

definition datagram_raw_open_ipv4 :: "int result \<Rightarrow> errno option \<Rightarrow> bool \<Rightarrow> int result \<times> int list" where
  "datagram_raw_open_ipv4 socket setsockopt out_fd =
     (if \<not> out_fd then (Inl EINVAL, [])
      else case socket of
        Inl e \<Rightarrow> (Inl e, [])
      | Inr fd \<Rightarrow>
          (case setsockopt of
             Some e \<Rightarrow> (Inl e, [fd])
           | None \<Rightarrow> (Inr fd, [])))"

section \<open>The checksum as a sum modulo 65535\<close>

fun nat_sum :: "byte list \<Rightarrow> nat" where
  "nat_sum (a # b # p) = 256 * unat a + unat b + nat_sum p"
| "nat_sum [a] = 256 * unat a"
| "nat_sum [] = 0"

lemma unat_word16: "unat (word16 a b) = 256 * unat a + unat b"
proof -
  have a: "unat a < 256" and b: "unat b < 256" by (rule unat_byte_less)+
  have "push_bit 8 (ucast a) AND (ucast b :: 32 word) = 0"
    by (rule bit_eqI) (auto simp: bit_simps dest: bit_imp_le_length)
  then have "word16 a b = push_bit 8 (ucast a) + ucast b"
    by (simp add: word16_def disjunctive_add_eq_or)
  moreover have "unat (push_bit 8 (ucast a :: 32 word)) = 256 * unat a"
    using a by (simp add: push_bit_eq_mult unat_word_ariths unat_ucast_mod)
  ultimately show ?thesis using a b by (simp add: unat_word_ariths unat_ucast_mod)
qed

lemma nat_sum_bound: "nat_sum bs \<le> 65535 * ((length bs + 1) div 2)"
proof (induction bs rule: nat_sum.induct)
  case (1 a b p)
  then show ?case using unat_byte_le [of a] unat_byte_le [of b] by simp
next
  case (2 a)
  then show ?case using unat_byte_le [of a] by simp
qed simp

lemma sum_words_nat:
  "unat s + nat_sum bs < 4294967296 \<Longrightarrow> unat (sum_words bs s) = unat s + nat_sum bs"
proof (induction bs s rule: sum_words.induct)
  case (1 a b p s)
  have "unat (s + word16 a b) = unat s + (256 * unat a + unat b)"
    using 1(2) by (simp add: unat_word_ariths unat_word16)
  with 1 show ?case by simp
next
  case (2 a s)
  have "unat (push_bit 8 (ucast a :: 32 word)) = 256 * unat a"
    using unat_byte_less [of a] by (simp add: push_bit_eq_mult unat_word_ariths unat_ucast_mod)
  with 2 show ?case by (simp add: unat_word_ariths)
qed simp

text \<open>The folded sum is the residue modulo 65535, with 65535 in place of 0 for a sum that is not 0.\<close>

definition residue :: "nat \<Rightarrow> nat" where
  "residue n = (if n = 0 then 0 else (n - 1) mod 65535 + 1)"

lemma residue_small: "n < 65536 \<Longrightarrow> residue n = n"
  by (auto simp: residue_def)

lemma residue_carry:
  assumes "65536 \<le> n" shows "residue (n mod 65536 + n div 65536) = residue n"
proof -
  let ?m = "n mod 65536 + n div 65536"
  have pos: "0 < n div 65536" using assms by (simp add: div_greater_zero_iff)
  have "65536 * (n div 65536) + n mod 65536 = n" by simp
  then have "n = 65535 * (n div 65536) + ?m" by linarith
  then have "n - 1 = (?m - 1) + 65535 * (n div 65536)" using pos by linarith
  then have "(n - 1) mod 65535 = (?m - 1) mod 65535" by (metis mod_mult_self2)
  moreover have "n \<noteq> 0" "?m \<noteq> 0" using assms pos by linarith+
  ultimately show ?thesis unfolding residue_def by presburger
qed

lemma fold_carries_residue: "unat (fold_carries s) = residue (unat s)"
proof (induction s rule: fold_carries.induct)
  case (1 s)
  have high: "drop_bit 16 s = 0 \<longleftrightarrow> unat s < 65536"
  proof -
    have "unat (drop_bit 16 s) = unat s div 65536" by (simp add: drop_bit_eq_div unat_div_distrib)
    moreover have "drop_bit 16 s = 0 \<longleftrightarrow> unat (drop_bit 16 s) = 0" by (metis unsigned_0 word_unat_eq_iff)
    ultimately show ?thesis by (simp add: div_eq_0_iff)
  qed
  show ?case
  proof (cases "drop_bit 16 s = 0")
    case True
    then show ?thesis using high by (subst fold_carries.simps) (simp add: residue_small)
  next
    case False
    then have "unat (fold_carries ((s AND 0xffff) + drop_bit 16 s)) = residue (unat s mod 65536 + unat s div 65536)"
      using "1.IH" fold_carry_less(1) by simp
    also have "\<dots> = residue (unat s)" using False high by (intro residue_carry) simp
    finally show ?thesis using False by (subst fold_carries.simps) simp
  qed
qed

lemma residue_less: "residue n < 65536"
  using mod_less_divisor [of 65535 "n - 1"] by (auto simp: residue_def)

lemma unat_checksum16:
  assumes "length bs < 131072"
  shows "unat (checksum16 bs) = 65535 - residue (nat_sum bs)"
proof -
  let ?f = "fold_carries (sum_words bs 0)"
  have "(length bs + 1) div 2 \<le> 65536" using assms by linarith
  then have "nat_sum bs \<le> 65535 * 65536" using nat_sum_bound [of bs] by linarith
  then have "unat ?f = residue (nat_sum bs)"
    by (simp add: fold_carries_residue sum_words_nat)
  moreover have "unat (NOT ?f) = 4294967295 - unat ?f"
  proof -
    have "NOT ?f = - 1 - ?f" by (simp add: not_eq_complement)
    moreover have "unat (- 1 - ?f) = unat (- 1 :: 32 word) - unat ?f" by (rule unat_sub) simp
    moreover have "unat (- 1 :: 32 word) = 4294967295"
      by (simp add: unsigned_minus_1_eq_mask mask_eq_exp_minus_1)
    ultimately show ?thesis by simp
  qed
  moreover have "(4294967295 - r) mod 65536 = 65535 - r" if "r < 65536" for r :: nat
  proof -
    have "4294967295 - r = (65535 - r) + 65536 * 65535" using that by linarith
    then have "(4294967295 - r) mod 65536 = (65535 - r) mod 65536" by (metis mod_mult_self2)
    with that show ?thesis by simp
  qed
  ultimately show ?thesis
    using residue_less [of "nat_sum bs"]
    by (simp add: checksum16_def unat_ucast_mod)
qed


lemma nat_sum_append: "even (length xs) \<Longrightarrow> nat_sum (xs @ ys) = nat_sum xs + nat_sum ys"
  by (induction xs rule: nat_sum.induct) auto

lemma nat_sum_be16: "nat_sum (be16 v) = unat v"
  unfolding be16_def nat_sum.simps unat_be16_hi unfolding unat_be16_lo by simp

lemma nat_sum_le16: "nat_sum (le16 v) = 256 * (unat v mod 256) + unat v div 256"
  unfolding le16_def nat_sum.simps unat_be16_hi unfolding unat_be16_lo by simp

lemma length_le16 [simp]: "length (le16 v) = 2"
  by (simp add: le16_def)

lemma residue_top: "residue n = 65535 \<longleftrightarrow> 0 < n \<and> 65535 dvd n"
proof (cases "n = 0")
  case False
  have "(n - 1) mod 65535 = 65534 \<longleftrightarrow> n mod 65535 = 0"
    using False by (cases n) (auto simp: mod_Suc)
  with False show ?thesis by (auto simp: residue_def dvd_eq_mod_eq_0)
qed (simp add: residue_def)

lemma residue_complement: "65535 dvd n + (65535 - residue n)"
proof (cases "n = 0")
  case False
  define r q where "r = (n - 1) mod 65535" and "q = (n - 1) div 65535"
  have n: "n = 65535 * q + r + 1" using False mult_div_mod_eq [of 65535 "n - 1"] unfolding r_def q_def by linarith
  have "r < 65535" "residue n = r + 1" using False by (simp_all add: r_def residue_def)
  moreover have "65535 * q + r + 1 + (65535 - (r + 1)) = 65535 * (q + 1)" if "r < 65535" using that by simp
  ultimately have "n + (65535 - residue n) = 65535 * (q + 1)" using n by metis
  then show ?thesis by (metis dvd_triv_left)
qed (simp add: residue_def)

text \<open>The sum of a header with a checksum field \<open>ck\<close> at an even offset.\<close>

lemma nat_sum_field:
  assumes "even (length pre)" and "length ck = 2"
  shows "nat_sum (pre @ ck @ post) = nat_sum pre + nat_sum ck + nat_sum post"
  using assms nat_sum_append [of pre "ck @ post"] nat_sum_append [of ck post] by simp

text \<open>
  The Internet checksum as RFC 1071 defines it: the bytes are paired to 16-bit numbers, the first byte the
  high one, a last single byte is padded with a zero, and the numbers are added in one's complement
  arithmetic, where a carry out of the 16 bits is added back at the low end.
\<close>

definition rfc1071_words :: "byte list \<Rightarrow> nat list" where
  "rfc1071_words bs = (let p = bs @ (if odd (length bs) then [0] else []) in
     map (\<lambda>i. 256 * unat (p ! (2 * i)) + unat (p ! (2 * i + 1))) [0..<length p div 2])"

definition ones_add :: "nat \<Rightarrow> nat \<Rightarrow> nat" where
  "ones_add s w = (if s + w > 65535 then s + w - 65536 + 1 else s + w)"

definition rfc1071_sum :: "byte list \<Rightarrow> nat" where
  "rfc1071_sum bs = foldl ones_add 0 (rfc1071_words bs)"

lemma rfc1071_words_rec [simp]:
  "rfc1071_words [] = []" "rfc1071_words [a] = [256 * unat a]"
  "rfc1071_words (a # b # p) = (256 * unat a + unat b) # rfc1071_words p"
proof -
  show "rfc1071_words [] = []" "rfc1071_words [a] = [256 * unat a]" by (simp_all add: rfc1071_words_def)
  define q where "q = p @ (if odd (length p) then [0] else [])"
  have "(a # b # p) @ (if odd (length (a # b # p)) then [0] else []) = a # b # q" by (simp add: q_def)
  moreover have "[0..<length (a # b # q) div 2] = 0 # map Suc [0..<length q div 2]"
    by (simp add: map_Suc_upt upt_conv_Cons del: upt_Suc)
  ultimately show "rfc1071_words (a # b # p) = (256 * unat a + unat b) # rfc1071_words p"
    unfolding rfc1071_words_def Let_def q_def [symmetric] by simp
qed

lemma nat_sum_words: "nat_sum bs = sum_list (rfc1071_words bs)" and words_less: "\<forall>w \<in> set (rfc1071_words bs). w < 65536"
proof (induction bs rule: nat_sum.induct)
  case (1 a b p)
  {
    case 1
    then show ?case using "1.IH" by simp
  next
    case 2
    then show ?case using "1.IH"(2) unat_byte_less [of a] unat_byte_less [of b] by simp
  }
next
  case (2 a)
  {
    case 2
    then show ?case using unat_byte_less [of a] by simp
  }
qed simp_all

lemma ones_add_residue: "s < 65536 \<Longrightarrow> w < 65536 \<Longrightarrow> ones_add s w = residue (s + w)"
proof -
  assume "s < 65536" and "w < 65536"
  moreover have "(s + w - 1) mod 65535 = s + w - 1 - 65535" if "65535 < s + w" "s + w \<le> 131070"
    using that by (simp add: mod_if)
  ultimately show ?thesis by (simp add: ones_add_def residue_def)
qed

lemma residue_add: "residue (residue n + m) = residue (n + m)"
proof (cases "n = 0")
  case False
  then have "residue n + m - 1 = (n - 1) mod 65535 + m" "n + m - 1 = n - 1 + m" by (simp_all add: residue_def)
  then have "(residue n + m - 1) mod 65535 = (n + m - 1) mod 65535" by (simp add: mod_simps)
  with False show ?thesis by (simp add: residue_def)
qed (simp add: residue_def)

lemma foldl_ones_add: "\<forall>w \<in> set ws. w < 65536 \<Longrightarrow> foldl ones_add (residue n) ws = residue (n + sum_list ws)"
proof (induction ws arbitrary: n)
  case (Cons w ws)
  then have "ones_add (residue n) w = residue (n + w)" by (simp add: ones_add_residue residue_less residue_add)
  with Cons show ?case by (simp add: add.assoc)
qed simp

lemma rfc1071_sum_residue: "rfc1071_sum bs = residue (nat_sum bs)"
  using foldl_ones_add [OF words_less, of 0 bs] by (simp add: rfc1071_sum_def nat_sum_words residue_def)

text \<open>
  C39. \<^verbatim>\<open>checksum16\<close> is the Internet checksum of RFC 1071 for all data of up to 131071 bytes, of even and of odd length: the one's
  complement of the one's complement sum of the 16-bit numbers. So when the value computed over data with a zeroed
  16-bit field at an even offset is put into the field in network order, the data verifies: its sum is 65535, all ones.
\<close>

theorem checksum16_verifies:
  assumes "length bs < 131072"
  shows "unat (checksum16 bs) = 65535 - rfc1071_sum bs \<and>
    (\<forall>pre post. bs = pre @ [0, 0] @ post \<and> even (length pre) \<longrightarrow> rfc1071_sum (pre @ be16 (checksum16 bs) @ post) = 65535)"
proof (intro conjI allI impI)
  show c: "unat (checksum16 bs) = 65535 - rfc1071_sum bs"
    using unat_checksum16 [OF assms] by (simp add: rfc1071_sum_residue)
  fix pre post assume bs: "bs = pre @ [0, 0] @ post \<and> even (length pre)"
  let ?S = "nat_sum bs" and ?c = "checksum16 bs"
  have "?S = nat_sum pre + nat_sum post" using nat_sum_field [of pre "[0, 0]" post] bs by simp
  moreover have "nat_sum (pre @ be16 ?c @ post) = nat_sum pre + unat ?c + nat_sum post"
    using nat_sum_field [of pre "be16 ?c" post] bs by (simp add: nat_sum_be16)
  ultimately have sum': "nat_sum (pre @ be16 ?c @ post) = ?S + (65535 - residue ?S)"
    using c by (simp add: rfc1071_sum_residue)
  have "0 < ?S + (65535 - residue ?S)" by (simp add: residue_def)
  then show "rfc1071_sum (pre @ be16 ?c @ post) = 65535"
    unfolding rfc1071_sum_residue sum' residue_top using residue_complement by blast
qed

text \<open>Seven bytes, so that the last one is padded, with the field at offset 2.\<close>

theorem checksum16_verifies_witness:
  "unat (checksum16 [0x45, 0, 0, 0, 10, 0, 3]) = 0xadff \<and>
   rfc1071_sum ([0x45, 0] @ be16 (checksum16 [0x45, 0, 0, 0, 10, 0, 3]) @ [10, 0, 3]) = 65535"
proof -
  have "length [0x45, 0, 0, 0, 10, 0, 3 :: byte] < 131072" by simp
  from checksum16_verifies [OF this] have c: "unat (checksum16 [0x45, 0, 0, 0, 10, 0, 3]) = 65535 - rfc1071_sum [0x45, 0, 0, 0, 10, 0, 3]"
    and f: "\<And>pre post. [0x45, 0, 0, 0, 10, 0, 3] = pre @ [0, 0] @ post \<Longrightarrow> even (length pre) \<Longrightarrow>
      rfc1071_sum (pre @ be16 (checksum16 [0x45, 0, 0, 0, 10, 0, 3]) @ post) = 65535" by blast+
  have "rfc1071_sum [0x45, 0, 0, 0, 10, 0, 3] = 0x5200" by (simp add: rfc1071_sum_def ones_add_def)
  with c f [of "[0x45, 0]" "[10, 0, 3]"] show ?thesis by simp
qed

section \<open>The packet on the wire\<close>

text \<open>A swapped field verifies only when its two bytes are equal.\<close>

lemma swap_dvd:
  fixes S lo hi :: nat
  assumes "65535 dvd S + (256 * hi + lo)" and "lo < 256" and "hi < 256"
  shows "65535 dvd S + (256 * lo + hi) \<longleftrightarrow> lo = hi"
proof
  assume "65535 dvd S + (256 * lo + hi)"
  then have "int 65535 dvd int (S + (256 * lo + hi)) - int (S + (256 * hi + lo))"
    using assms(1) by (intro dvd_diff) (simp_all only: int_dvd_int_iff)
  also have "int (S + (256 * lo + hi)) - int (S + (256 * hi + lo)) = 255 * (int lo - int hi)" by simp
  finally have "(255 :: int) * 257 dvd 255 * (int lo - int hi)" by simp
  then have dvd: "(257 :: int) dvd int lo - int hi" by (subst (asm) dvd_mult_cancel_left) simp
  show "lo = hi"
  proof (rule ccontr)
    assume "lo \<noteq> hi"
    then have "\<bar>257 :: int\<bar> \<le> \<bar>int lo - int hi\<bar>" by (intro dvd_imp_le_int [OF _ dvd]) simp
    with assms(2,3) show False by linarith
  qed
qed (use assms(1) in simp)

text \<open>What a receiver of an IPv4 packet with a UDP datagram reads.\<close>

record udp_view =
  uv_len :: nat
  uv_src :: "byte list"
  uv_dst :: "byte list"
  uv_sport :: "byte list"
  uv_dport :: "byte list"
  uv_data :: "byte list"

definition udp_decode :: "byte list \<Rightarrow> udp_view option" where
  "udp_decode p =
     (if length p < 28 \<or> p ! 0 \<noteq> 0x45 \<or> p ! 9 \<noteq> 17 \<or> unat (of_be16 (take 2 (drop 2 p))) \<noteq> length p \<or>
         unat (of_be16 (take 2 (drop 24 p))) \<noteq> length p - 20
      then None
      else Some \<lparr>uv_len = length p, uv_src = take 4 (drop 12 p), uv_dst = take 4 (drop 16 p),
                 uv_sport = take 2 (drop 20 p), uv_dport = take 2 (drop 22 p), uv_data = drop 28 p\<rparr>)"

lemma length_raw_ipv4_hdr:
  "length ck = 2 \<Longrightarrow> length src = 4 \<Longrightarrow> length dst = 4 \<Longrightarrow> length (raw_ipv4_hdr len ck src dst) = 20"
  by (simp add: raw_ipv4_hdr_def)

lemma raw_packet_split:
  "raw_packet src dst data =
     raw_ipv4_hdr (word_of_nat (28 + length data))
       (le16 (checksum16 (raw_ipv4_hdr (word_of_nat (28 + length data)) [0, 0] (sin_addr src) (sin_addr dst))))
       (sin_addr src) (sin_addr dst) @
     raw_udp_hdr (sin_port src) (sin_port dst) (word_of_nat (8 + length data)) @ data"
proof -
  have "le16 0 = [0, 0]" by (simp add: le16_def)
  then show ?thesis by (simp add: raw_packet_def Let_def SIZEOF_IP_def SIZEOF_UDP_def)
qed

lemma raw_packet_decodes:
  assumes "SIZEOF_SIN \<le> length src" and "SIZEOF_SIN \<le> length dst" and "length data \<le> 65507"
  shows "udp_decode (raw_packet src dst data) =
      Some \<lparr>uv_len = 28 + length data, uv_src = sin_addr src, uv_dst = sin_addr dst,
            uv_sport = sin_port src, uv_dport = sin_port dst, uv_data = data\<rparr>"
proof -
  note len = sin_field_lengths [OF assms(1)] sin_field_lengths [OF assms(2)]
  have unat16: "unat (word_of_nat n :: 16 word) = n" if "n < 65536" for n
    using that by (simp add: unsigned_of_nat take_bit_eq_mod)
  have un: "unat (word_of_nat (28 + length data) :: 16 word) = 28 + length data"
    "unat (word_of_nat (8 + length data) :: 16 word) = 8 + length data"
    by (rule unat16, use assms(3) in linarith)+
  show ?thesis
    unfolding raw_packet_split udp_decode_def using len un
    by (simp add: raw_ipv4_hdr_def raw_udp_hdr_def IPPROTO_UDP_def be16_def [of 0] le16_def nth_append)
qed

text \<open>
  C38. The packet built for a reply is a well-formed IPv4 packet with a UDP datagram: a receiver reads
  in it the address and port of the listener as the source, those of the client as the
  destination, consistent lengths, and exactly the data. But its header checksum is stored in host byte
  order, so that on a little-endian machine the header verifies only when both bytes of
  the checksum happen to be equal.
\<close>

theorem raw_packet_on_wire:
  assumes "SIZEOF_SIN \<le> length src" and "SIZEOF_SIN \<le> length dst" and "length data \<le> 65507"
  defines "c \<equiv> checksum16 (raw_ipv4_hdr (word_of_nat (28 + length data)) [0, 0] (sin_addr src) (sin_addr dst))"
  shows "udp_decode (raw_packet src dst data) =
      Some \<lparr>uv_len = 28 + length data, uv_src = sin_addr src, uv_dst = sin_addr dst,
            uv_sport = sin_port src, uv_dport = sin_port dst, uv_data = data\<rparr> \<and>
    (checksum16 (take 20 (raw_packet src dst data)) = 0 \<longleftrightarrow> unat c mod 256 = unat c div 256)"
proof
  show "udp_decode (raw_packet src dst data) =
      Some \<lparr>uv_len = 28 + length data, uv_src = sin_addr src, uv_dst = sin_addr dst,
            uv_sport = sin_port src, uv_dport = sin_port dst, uv_data = data\<rparr>"
    using assms(1-3) by (rule raw_packet_decodes)
  let ?len = "word_of_nat (28 + length data) :: 16 word"
  let ?hdr = "\<lambda>ck. raw_ipv4_hdr ?len ck (sin_addr src) (sin_addr dst)"
  note len = sin_field_lengths [OF assms(1)] sin_field_lengths [OF assms(2)]
  have pk: "raw_packet src dst data = ?hdr (le16 c) @ raw_udp_hdr (sin_port src) (sin_port dst) (word_of_nat (8 + length data)) @ data"
    unfolding raw_packet_split c_def ..
  let ?pre = "[push_bit 4 4 OR 5, 0] @ be16 ?len @ le16 0 @ be16 0 @ [64, IPPROTO_UDP]"
  have split: "?hdr ck = ?pre @ ck @ (sin_addr src @ sin_addr dst)" for ck by (simp add: raw_ipv4_hdr_def)
  have field: "nat_sum (?hdr ck) = nat_sum (?hdr [0, 0]) + nat_sum ck" if "length ck = 2" for ck
  proof -
    have "even (length ?pre)" by simp
    from nat_sum_field [OF this that] nat_sum_field [OF this, of "[0, 0]"] show ?thesis
      unfolding split by simp
  qed
  have take: "take 20 (raw_packet src dst data) = ?hdr (le16 c)" unfolding pk using len by (simp add: length_raw_ipv4_hdr)
  have c: "unat c = 65535 - residue (nat_sum (?hdr [0, 0]))"
    unfolding c_def using len by (intro unat_checksum16) (simp add: length_raw_ipv4_hdr)
  let ?S = "nat_sum (?hdr [0, 0])" and ?lo = "unat c mod 256" and ?hi = "unat c div 256"
  have ck: "unat (checksum16 (?hdr (le16 c))) = 65535 - residue (nat_sum (?hdr (le16 c)))"
    using len by (intro unat_checksum16) (simp add: length_raw_ipv4_hdr)
  have pos: "0 < nat_sum (?hdr (le16 c))"
    by (simp add: raw_ipv4_hdr_def)
  have "checksum16 (?hdr (le16 c)) = 0 \<longleftrightarrow> residue (nat_sum (?hdr (le16 c))) = 65535"
    using ck residue_less [of "nat_sum (?hdr (le16 c))"] by (auto simp: word_unat_eq_iff)
  also have "\<dots> \<longleftrightarrow> 65535 dvd ?S + (256 * ?lo + ?hi)"
    using pos field [of "le16 c"] by (simp add: residue_top nat_sum_le16)
  also have "\<dots> \<longleftrightarrow> ?lo = ?hi"
  proof (rule swap_dvd)
    have "256 * ?hi + ?lo = unat c" by simp
    then show "65535 dvd ?S + (256 * ?hi + ?lo)" using residue_complement [of ?S] c by simp
    show "?hi < 256" using unat_u16_less [of c] by (simp add: less_mult_imp_div_less)
  qed simp
  finally show "checksum16 (take 20 (raw_packet src dst data)) = 0 \<longleftrightarrow> ?lo = ?hi" unfolding take .
qed

definition example_src :: sockaddr where "example_src = take SIZEOF_SIN (mk_sin 53 [10, 0, 0, 1])"
definition example_dst :: sockaddr where "example_dst = take SIZEOF_SIN (mk_sin 5000 [10, 0, 0, 2])"

theorem raw_packet_on_wire_witness:
  "udp_decode (raw_packet example_src example_dst [7]) =
     Some \<lparr>uv_len = 29, uv_src = [10, 0, 0, 1], uv_dst = [10, 0, 0, 2],
       uv_sport = be16 53, uv_dport = be16 5000, uv_data = [7]\<rparr> \<and>
   checksum16 (take 20 (raw_packet example_src example_dst [7])) \<noteq> 0"
proof -
  have f: "sin_addr example_src = [10, 0, 0, 1]" "sin_addr example_dst = [10, 0, 0, 2]"
    "sin_port example_src = be16 53" "sin_port example_dst = be16 5000"
    "SIZEOF_SIN \<le> length example_src" "SIZEOF_SIN \<le> length example_dst"
    by (simp_all add: example_src_def example_dst_def mk_sin_def sin_addr_def sin_port_def family_bytes_def sizeof_defs be16_def)
  let ?h = "raw_ipv4_hdr 29 [0, 0] [10, 0, 0, 1] [10, 0, 0, 2]"
  have "unat (checksum16 ?h) = 65535 - residue (nat_sum ?h)"
    by (intro unat_checksum16) (simp add: raw_ipv4_hdr_def)
  moreover have "nat_sum ?h = 0x9931"
    by (simp add: raw_ipv4_hdr_def be16_def le16_def IPPROTO_UDP_def)
  ultimately have c: "unat (checksum16 ?h) = 0x66ce" by (simp add: residue_small)
  show ?thesis
    using raw_packet_on_wire [OF f(5,6), of "[7]"] c by (simp add: f)
qed

end
