(* ===== verification/Datagram_Client.thy ===== *)
theory Datagram_Client
  imports Ledger Proxy_V2 Datagram_Raw
begin

text \<open>
  The clients of a datagram route (\<^verbatim>\<open>src/datagram_client.c\<close>, \<^verbatim>\<open>src/datagram_client.h\<close>): one socket to
  the upstream for every client address that was seen, kept in a linked list that hangs off the
  route's context, with idle clients removed. Clients are objects on an explicit heap, so that using or
  freeing one that is not live is the value \<open>None\<close>. The interface \<open>client_table\<close> states the
  list as a table of entries; it is interpreted on the pointer operations. The theory also holds
  \<^verbatim>\<open>src/env.c\<close>, the directory of the local ends of Unix datagram sockets.
\<close>

section \<open>Data\<close>

text \<open>
  A client. The event is registered with the event base of a worker, given by the id of the
  worker; \<open>None\<close> is the null pointer. The pointer to the context is left out: all clients of a heap belong
  to one context.
\<close>

record datagram_client =
  dc_fd :: int
  dc_ev :: "32 word option"
  dc_unix_local_path :: string
  dc_client_addr :: sockaddr
  dc_client_addr_len :: nat
  dc_last_seen :: int
  dc_next :: "addr option"

record datagram_route_ctx =
  dg_worker_pool :: bool
  dg_route :: "route option"
  dg_listen_fd :: int
  dg_listen_ev :: bool
  dg_local_addr :: sockaddr
  dg_local_addr_len :: nat
  dg_clients :: "addr option"
  dg_raw_fd :: int

record dstore =
  ds_clients :: "addr \<rightharpoonup> datagram_client"
  ds_trace :: "res_event list"
  ds_unlinked :: "string list"

definition put_client :: "addr \<Rightarrow> datagram_client \<Rightarrow> dstore \<Rightarrow> dstore" where
  "put_client a x st = st\<lparr>ds_clients := (ds_clients st)(a \<mapsto> x)\<rparr>"

definition log_ds :: "res_event list \<Rightarrow> string list \<Rightarrow> dstore \<Rightarrow> dstore" where
  "log_ds es us st = st\<lparr>ds_trace := ds_trace st @ es, ds_unlinked := ds_unlinked st @ us\<rparr>"

section \<open>The runtime directory\<close>

definition TINYPROXY_DEFAULT_RUNTIME_DIR :: string where
  "TINYPROXY_DEFAULT_RUNTIME_DIR = ''/tmp/tinyproxy''"

definition tinyproxy_runtime_dir :: "(string \<Rightarrow> string option) \<Rightarrow> string" where
  "tinyproxy_runtime_dir getenv =
     (case getenv ''TINYPROXY_RUNTIME_DIR'' of
        Some v \<Rightarrow> if v \<noteq> [] then v else TINYPROXY_DEFAULT_RUNTIME_DIR
      | None \<Rightarrow> TINYPROXY_DEFAULT_RUNTIME_DIR)"

section \<open>Freeing, finding and expiring clients\<close>

definition free_datagram_client :: "addr option \<Rightarrow> dstore \<Rightarrow> dstore option" where
  "free_datagram_client c st =
     (case c of
        None \<Rightarrow> Some st
      | Some a \<Rightarrow>
          (case ds_clients st a of
             None \<Rightarrow> None
           | Some x \<Rightarrow>
               Some (log_ds
                 ((if dc_ev x \<noteq> None then [Release (R_client_event a)] else []) @
                  (if dc_fd x \<ge> 0 then [Release (R_fd (dc_fd x))] else []))
                 (if dc_unix_local_path x \<noteq> [] then [dc_unix_local_path x] else [])
                 (st\<lparr>ds_clients := (ds_clients st)(a := None)\<rparr>))))"

definition sockaddr_equal :: "sockaddr \<Rightarrow> nat \<Rightarrow> sockaddr \<Rightarrow> nat \<Rightarrow> bool" where
  "sockaddr_equal a a_len b b_len =
     (if a_len \<noteq> b_len then False
      else if ss_family a \<noteq> ss_family b then False
      else take a_len a = take a_len b)"

text \<open>
  The pointer to a pointer of the clean-up loop is either the head of the list in the context or the next
  field of a client. Times come from \<^verbatim>\<open>time\<close> and are not negative, so their
  difference does not overflow.
\<close>

datatype link = Clients_Field | Next_Field addr

definition read_link :: "link \<Rightarrow> datagram_route_ctx \<Rightarrow> dstore \<Rightarrow> addr option option" where
  "read_link pp ctx st =
     (case pp of
        Clients_Field \<Rightarrow> Some (dg_clients ctx)
      | Next_Field a \<Rightarrow> map_option dc_next (ds_clients st a))"

definition write_link ::
  "link \<Rightarrow> addr option \<Rightarrow> datagram_route_ctx \<Rightarrow> dstore \<Rightarrow> (datagram_route_ctx \<times> dstore) option" where
  "write_link pp p ctx st =
     (case pp of
        Clients_Field \<Rightarrow> Some (ctx\<lparr>dg_clients := p\<rparr>, st)
      | Next_Field a \<Rightarrow> map_option (\<lambda>x. (ctx, put_client a (x\<lparr>dc_next := p\<rparr>) st)) (ds_clients st a))"

partial_function (option) cleanup_loop ::
  "int \<Rightarrow> int \<Rightarrow> link \<Rightarrow> datagram_route_ctx \<Rightarrow> dstore \<Rightarrow> (datagram_route_ctx \<times> dstore) option" where
  "cleanup_loop now timeout pp ctx st = do {
     p \<leftarrow> read_link pp ctx st;
     (case p of
        None \<Rightarrow> Some (ctx, st)
      | Some c \<Rightarrow> do {
          x \<leftarrow> ds_clients st c;
          (if now - dc_last_seen x \<le> timeout then cleanup_loop now timeout (Next_Field c) ctx st
           else do {
             cs \<leftarrow> write_link pp (dc_next x) ctx st;
             x \<leftarrow> ds_clients (snd cs) c;
             st \<leftarrow> free_datagram_client (Some c) (put_client c (x\<lparr>dc_next := None\<rparr>) (snd cs));
             cleanup_loop now timeout pp (fst cs) st }) }) }"

definition cleanup_idle_datagram_clients ::
  "int \<Rightarrow> datagram_route_ctx \<Rightarrow> dstore \<Rightarrow> (datagram_route_ctx \<times> dstore) option" where
  "cleanup_idle_datagram_clients now ctx st = do {
     r \<leftarrow> dg_route ctx;
     cleanup_loop now (idle_timeout_sec (opts r)) Clients_Field ctx st }"

partial_function (option) find_loop ::
  "addr option \<Rightarrow> dstore \<Rightarrow> sockaddr \<Rightarrow> nat \<Rightarrow> addr option option" where
  "find_loop p st sa sa_len =
     (case p of
        None \<Rightarrow> Some None
      | Some c \<Rightarrow> do {
          x \<leftarrow> ds_clients st c;
          (if sockaddr_equal (dc_client_addr x) (dc_client_addr_len x) sa sa_len then Some (Some c)
           else find_loop (dc_next x) st sa sa_len) })"

definition find_datagram_client ::
  "datagram_route_ctx \<Rightarrow> dstore \<Rightarrow> sockaddr \<Rightarrow> nat \<Rightarrow> addr option option" where
  "find_datagram_client ctx st sa sa_len = find_loop (dg_clients ctx) st sa sa_len"

section \<open>Connecting to the upstream\<close>

text \<open>
  The results of the calls made for a new client. \<open>gc_show_ptr\<close> is how \<^verbatim>\<open>%p\<close> prints a pointer;
  \<open>gc_connect\<close> and \<open>gc_bind\<close> get the address and its length.
\<close>

record dg_calls =
  gc_pton4 :: "string \<Rightarrow> byte list option"
  gc_pton6 :: "string \<Rightarrow> byte list option"
  gc_getenv :: "string \<Rightarrow> string option"
  gc_pid :: int
  gc_show_ptr :: "addr \<Rightarrow> string"
  gc_socket :: "int result"
  gc_bind :: "sockaddr \<Rightarrow> nat \<Rightarrow> errno option"
  gc_connect :: "sockaddr \<Rightarrow> nat \<Rightarrow> errno option"
  gc_nonblocking :: bool
  gc_event_new :: bool
  gc_event_add :: bool
  gc_time :: int

text \<open>The result, the client afterwards, and the log of sockets and of removed paths.\<close>

type_synonym connect_result = "unit result \<times> datagram_client \<times> res_event list \<times> string list"

definition connect_inet_upstream :: "dg_calls \<Rightarrow> endpoint \<Rightarrow> datagram_client \<Rightarrow> connect_result" where
  "connect_inet_upstream k u x =
     (case endpoint_to_sockaddr (gc_pton4 k) (gc_pton6 k) u of
        Inl rc \<Rightarrow> (Inl rc, x, [], [])
      | Inr (sa, len) \<Rightarrow>
          (case gc_socket k of
             Inl e \<Rightarrow> (Inl e, x\<lparr>dc_fd := - 1\<rparr>, [], [])
           | Inr fd \<Rightarrow>
               (case gc_connect k sa len of
                  Some e \<Rightarrow> (Inl e, x\<lparr>dc_fd := - 1\<rparr>, [Acquire (R_fd fd), Release (R_fd fd)], [])
                | None \<Rightarrow> (Inr (), x\<lparr>dc_fd := fd\<rparr>, [Acquire (R_fd fd)], []))))"

definition unix_local_text :: "dg_calls \<Rightarrow> addr \<Rightarrow> string" where
  "unix_local_text k a = tinyproxy_runtime_dir (gc_getenv k) @ ''/udp-'' @ show_int (gc_pid k) @ ''-'' @
     gc_show_ptr k a @ ''.sock''"

definition connect_unix_upstream :: "dg_calls \<Rightarrow> addr \<Rightarrow> endpoint \<Rightarrow> datagram_client \<Rightarrow> connect_result" where
  "connect_unix_upstream k a u x =
     (if ep_path u = [] then (Inl EINVAL, x, [], [])
      else if length (ep_path u) \<ge> SIZEOF_SUN_PATH then (Inl ENAMETOOLONG, x, [], [])
      else case gc_socket k of
        Inl e \<Rightarrow> (Inl e, x\<lparr>dc_fd := - 1\<rparr>, [], [])
      | Inr fd \<Rightarrow>
          let text = unix_local_text k a;
              path = snprintf_buf SIZEOF_SUN_PATH text;
              x = x\<lparr>dc_fd := fd, dc_unix_local_path := path\<rparr>;
              es = [Acquire (R_fd fd)] in
          if length text \<ge> SIZEOF_SUN_PATH then (Inl ENAMETOOLONG, x, es, [])
          else (case gc_bind k (mk_sun path) SIZEOF_SUN of
             Some e \<Rightarrow> (Inl e, x, es, [path])
           | None \<Rightarrow>
               (case gc_connect k (mk_sun (ep_path u)) SIZEOF_SUN of
                  Some e \<Rightarrow> (Inl e, x, es, [path])
                | None \<Rightarrow> (Inr (), x, es, [path]))))"

definition connect_datagram_upstream ::
  "dg_calls \<Rightarrow> addr \<Rightarrow> endpoint \<Rightarrow> datagram_client \<Rightarrow> connect_result" where
  "connect_datagram_upstream k a u x =
     (case ep_kind u of
        ENDPOINT_INET \<Rightarrow> connect_inet_upstream k u x
      | ENDPOINT_INET6 \<Rightarrow> connect_inet_upstream k u x
      | ENDPOINT_UNIX_DGRAM \<Rightarrow> connect_unix_upstream k a u x
      | _ \<Rightarrow> (Inl ENOTSUP, x, [], []))"

section \<open>Creating a client\<close>

text \<open>The client after \<^verbatim>\<open>calloc\<close> and the assignments to its fields.\<close>

definition fresh_client :: "dg_calls \<Rightarrow> sockaddr \<Rightarrow> nat \<Rightarrow> datagram_client" where
  "fresh_client k client_addr client_addr_len =
     \<lparr>dc_fd = - 1, dc_ev = None, dc_unix_local_path = [], dc_client_addr = client_addr,
      dc_client_addr_len = client_addr_len, dc_last_seen = gc_time k, dc_next = None\<rparr>"

definition create_datagram_client ::
  "dg_calls \<Rightarrow> addr option \<Rightarrow> 32 word \<Rightarrow> sockaddr \<Rightarrow> nat \<Rightarrow> datagram_route_ctx \<Rightarrow> dstore \<Rightarrow>
   (addr option \<times> datagram_route_ctx \<times> dstore) option" where
  "create_datagram_client k calloc base client_addr client_addr_len ctx st = do {
     r \<leftarrow> dg_route ctx;
     (case calloc of
        None \<Rightarrow> Some (None, ctx, st)
      | Some a \<Rightarrow>
          let (rc, x, es, us) = connect_datagram_upstream k a (upstream r) (fresh_client k client_addr client_addr_len);
              st = log_ds es us (put_client a x st);
              fail = (\<lambda>st. map_option (\<lambda>st. (None, ctx, st)) (free_datagram_client (Some a) st)) in
          case rc of
            Inl _ \<Rightarrow> fail st
          | Inr _ \<Rightarrow>
              if \<not> gc_nonblocking k then fail st
              else if \<not> gc_event_new k then fail st
              else
                let x = x\<lparr>dc_ev := Some base\<rparr>;
                    st = log_ds [Acquire (R_client_event a)] [] (put_client a x st) in
                if \<not> gc_event_add k then fail st
                else Some (Some a, ctx\<lparr>dg_clients := Some a\<rparr>, put_client a (x\<lparr>dc_next := dg_clients ctx\<rparr>) st)) }"

section \<open>Sending\<close>

text \<open>What was handed to the sockets: with \<^verbatim>\<open>send\<close>, with \<^verbatim>\<open>sendto\<close>, or through the raw socket.\<close>

datatype dg_send =
    Send int "byte list"
  | Sendto int "byte list" sockaddr nat
  | Raw_Send int "byte list" sockaddr

text \<open>\<open>send fd data\<close> is the error of the call, \<open>None\<close> when the datagram was taken.\<close>

definition send_datagram_payload_to_upstream ::
  "(int \<Rightarrow> byte list \<Rightarrow> errno option) \<Rightarrow> datagram_route_ctx \<Rightarrow> route \<Rightarrow> datagram_client \<Rightarrow> byte list \<Rightarrow>
   unit result \<times> dg_send list" where
  "send_datagram_payload_to_upstream send ctx r x bytes =
     (let send_rc = (\<lambda>out. case send (dc_fd x) out of
            Some e \<Rightarrow> (Inl e, []) | None \<Rightarrow> (Inr (), [Send (dc_fd x) out])) in
      if \<not> proxy_v2 (opts r) then send_rc bytes
      else if ss_family (dc_client_addr x) \<noteq> AF_INET \<or> ss_family (dg_local_addr ctx) \<noteq> AF_INET
      then (Inl EAFNOSUPPORT, [])
      else case proxy_v2_build (Some 256) (Some (dc_client_addr x)) (dc_client_addr_len x)
                  (Some (dg_local_addr ctx)) (dg_local_addr_len ctx) SOCK_DGRAM True of
        Inl rc \<Rightarrow> (Inl rc, [])
      | Inr hdr \<Rightarrow>
          if length hdr + length bytes > UDP_MAX_PACKET then (Inl EMSGSIZE, [])
          else send_rc (hdr @ bytes))"

text \<open>
  The calls of the reply path: \<open>rc_sendto\<close> gives the number of bytes sent or the error, for the plain
  and for the raw socket.
\<close>

record reply_calls =
  rc_pton4 :: "string \<Rightarrow> byte list option"
  rc_calloc :: bool
  rc_sendto :: "byte list \<Rightarrow> sockaddr \<Rightarrow> nat result"

definition send_datagram_payload_to_client ::
  "reply_calls \<Rightarrow> datagram_route_ctx \<Rightarrow> route \<Rightarrow> datagram_client \<Rightarrow> byte list \<Rightarrow> unit result \<times> dg_send list" where
  "send_datagram_payload_to_client k ctx r x data =
     (if broadcast_reply (opts r) = BROADCAST_REPLY_UPSTREAM then
        (case datagram_raw_send_udp_ipv4 (rc_pton4 k) (rc_calloc k) (rc_sendto k) (dg_raw_fd ctx)
                (Some (upstream r)) (Some (dc_client_addr x)) (dc_client_addr_len x) (Some data) of
           (rc, Some (packet, dst)) \<Rightarrow> (rc, if rc = Inr () then [Raw_Send (dg_raw_fd ctx) packet dst] else [])
         | (rc, None) \<Rightarrow> (rc, []))
      else (case rc_sendto k data (dc_client_addr x) of
          Inl e \<Rightarrow> (Inl e, [])
        | Inr n \<Rightarrow> if n \<noteq> length data then (Inl EIO, [])
                   else (Inr (), [Sendto (dg_listen_fd ctx) data (dc_client_addr x) (dc_client_addr_len x)])))"

text \<open>
  The loop of \<^verbatim>\<open>upstream_read_cb\<close> on the results of its calls of \<^verbatim>\<open>recv\<close>; when they are used up the
  non-blocking socket reports \<^verbatim>\<open>EAGAIN\<close>. A datagram longer than the buffer is cut. \<open>k n\<close> are the calls made to
  send the \<open>n\<close>-th datagram. The results that were not consumed are returned.
\<close>

fun upstream_read_loop ::
  "(nat \<Rightarrow> reply_calls) \<Rightarrow> datagram_route_ctx \<Rightarrow> route \<Rightarrow> datagram_client \<Rightarrow> byte list result list \<Rightarrow>
   dg_send list \<times> byte list result list" where
  "upstream_read_loop k ctx r x [] = ([], [])"
| "upstream_read_loop k ctx r x (Inl e # rs) = ([], rs)"
| "upstream_read_loop k ctx r x (Inr d # rs) =
     (let buf = take UDP_MAX_PACKET d in
      if length buf = 0 then ([], rs)
      else case send_datagram_payload_to_client (k 0) ctx r x buf of
        (Inl _, out) \<Rightarrow> (out, rs)
      | (Inr _, out) \<Rightarrow> (let (out', rs) = upstream_read_loop (\<lambda>n. k (Suc n)) ctx r x rs in (out @ out', rs)))"

text \<open>
  \<^verbatim>\<open>upstream_read_cb\<close> reads the client's context before it takes the lock; \<open>upstream_read_locked\<close> is the part
  under the lock, which uses the client again only to send a datagram that \<^verbatim>\<open>recv\<close> delivered. A client
  that is not live then is a fault.
\<close>

definition upstream_read_locked ::
  "(nat \<Rightarrow> reply_calls) \<Rightarrow> addr \<Rightarrow> byte list result list \<Rightarrow> datagram_route_ctx \<Rightarrow> dstore \<Rightarrow>
   (dg_send list \<times> byte list result list) option" where
  "upstream_read_locked k c recvs ctx st =
     (case recvs of
        [] \<Rightarrow> Some ([], [])
      | Inl e # rs \<Rightarrow> Some ([], rs)
      | Inr d # rs \<Rightarrow>
          if length (take UDP_MAX_PACKET d) = 0 then Some ([], rs)
          else do {
            x \<leftarrow> ds_clients st c;
            r \<leftarrow> dg_route ctx;
            Some (upstream_read_loop k ctx r x recvs) })"

lemma upstream_read_locked_live:
  "ds_clients st c = Some x \<Longrightarrow> dg_route ctx = Some r \<Longrightarrow>
   upstream_read_locked k c recvs ctx st = Some (upstream_read_loop k ctx r x recvs)"
  by (cases "(k, ctx, r, x, recvs)" rule: upstream_read_loop.cases) (auto simp: upstream_read_locked_def UDP_MAX_PACKET_def min_def split: if_splits)

section \<open>The list of clients as a table\<close>

text \<open>
  What the pointers represent: the addresses in list order with the clients, without their next
  pointers. The heap holds no other client, and the resources held are those of the context and of
  the clients.
\<close>

type_synonym client_entry = "addr \<times> datagram_client"

definition links :: "dstore \<Rightarrow> addr \<Rightarrow> addr option option" where
  "links st a = map_option dc_next (ds_clients st a)"

definition entry :: "dstore \<Rightarrow> addr \<Rightarrow> client_entry" where
  "entry st a = (a, (the (ds_clients st a))\<lparr>dc_next := None\<rparr>)"

definition client_res :: "client_entry \<Rightarrow> resource list" where
  "client_res e = (if dc_ev (snd e) \<noteq> None then [R_client_event (fst e)] else []) @
     (if dc_fd (snd e) \<ge> 0 then [R_fd (dc_fd (snd e))] else [])"

definition ctx_res :: "datagram_route_ctx \<Rightarrow> resource list" where
  "ctx_res ctx = R_clients_mu # (if dg_listen_ev ctx then [R_listen_event] else []) @
     (if dg_listen_fd ctx \<noteq> EVUTIL_INVALID_SOCKET then [R_fd (dg_listen_fd ctx)] else []) @
     (if dg_raw_fd ctx \<noteq> EVUTIL_INVALID_SOCKET then [R_fd (dg_raw_fd ctx)] else [])"

definition table_res :: "datagram_route_ctx \<Rightarrow> client_entry list \<Rightarrow> resource list" where
  "table_res ctx es = ctx_res ctx @ concat (map client_res es)"

definition table_heap :: "datagram_route_ctx \<Rightarrow> dstore \<Rightarrow> client_entry list \<Rightarrow> bool" where
  "table_heap ctx st es \<longleftrightarrow> linked (links st) (dg_clients ctx) (map fst es) \<and> distinct (map fst es) \<and>
     dom (ds_clients st) = fst ` set es \<and> es = map (entry st \<circ> fst) es"

definition table :: "datagram_route_ctx \<times> dstore \<Rightarrow> client_entry list \<Rightarrow> bool" where
  "table t es \<longleftrightarrow> table_heap (fst t) (snd t) es \<and> holds (ds_trace (snd t)) (table_res (fst t) es)"

lemma entry_simps [simp]: "fst (entry st a) = a" "snd (entry st a) = (the (ds_clients st a))\<lparr>dc_next := None\<rparr>"
  by (simp_all add: entry_def)

lemma client_res_entry: "client_res (a, x\<lparr>dc_next := p\<rparr>) = client_res (a, x)"
  by (simp add: client_res_def)

lemma free_datagram_client_live:
  assumes "ds_clients st a = Some x"
  obtains st' where "free_datagram_client (Some a) st = Some st'"
    and "ds_clients st' = (ds_clients st)(a := None)" and "ds_trace st' = ds_trace st @ map Release (client_res (a, x))"
    and "ds_unlinked st' = ds_unlinked st @ (if dc_unix_local_path x \<noteq> [] then [dc_unix_local_path x] else [])"
  using assms
  by (intro that [of "the (free_datagram_client (Some a) st)"])
    (simp_all add: free_datagram_client_def log_ds_def client_res_def)

lemma find_loop_ok:
  assumes "linked (links st) p as"
  shows "find_loop p st sa sa_len =
    Some (List.find (\<lambda>a. sockaddr_equal (dc_client_addr (the (ds_clients st a))) (dc_client_addr_len (the (ds_clients st a))) sa sa_len) as)"
  using assms
proof (induction as arbitrary: p)
  case (Cons a as)
  then obtain x where "p = Some a" "ds_clients st a = Some x" "linked (links st) (dc_next x) as"
    using linked_Cons [of "links st" p a as] by (auto simp: links_def [of st a])
  with Cons.IH show ?case by (subst find_loop.simps) simp
qed (simp add: find_loop.simps)

section \<open>The clean-up loop\<close>

definition expired :: "int \<Rightarrow> int \<Rightarrow> datagram_client \<Rightarrow> bool" where
  "expired now timeout x \<longleftrightarrow> now - dc_last_seen x > timeout"

text \<open>The heap after the list behind \<open>pp\<close>, which consisted of \<open>as\<close>, was changed to start with \<open>p\<close>.\<close>

definition relinked ::
  "link \<Rightarrow> addr option \<Rightarrow> addr list \<Rightarrow> datagram_route_ctx \<times> dstore \<Rightarrow> datagram_route_ctx \<times> dstore \<Rightarrow> bool" where
  "relinked pp p as t t' \<longleftrightarrow>
     (\<forall>a. a \<notin> set as \<longrightarrow> ds_clients (snd t') a =
        (if pp = Next_Field a then map_option (\<lambda>x. x\<lparr>dc_next := p\<rparr>) (ds_clients (snd t) a) else ds_clients (snd t) a)) \<and>
     fst t' = (if pp = Clients_Field then (fst t)\<lparr>dg_clients := p\<rparr> else fst t)"

definition outside :: "link \<Rightarrow> addr list \<Rightarrow> bool" where
  "outside pp as \<longleftrightarrow> (\<forall>b. pp = Next_Field b \<longrightarrow> b \<notin> set as)"

definition cleaned :: "int \<Rightarrow> int \<Rightarrow> link \<Rightarrow> addr list \<Rightarrow> datagram_route_ctx \<times> dstore \<Rightarrow> datagram_route_ctx \<times> dstore \<Rightarrow> bool" where
  "cleaned now timeout pp as t t' \<longleftrightarrow>
     (let live = (\<lambda>a. \<not> expired now timeout (the (ds_clients (snd t) a))) in
      \<exists>p. linked (links (snd t')) p (filter live as) \<and> relinked pp p as t t' \<and>
        map (entry (snd t')) (filter live as) = map (entry (snd t)) (filter live as) \<and>
        (\<forall>a \<in> set as. \<not> live a \<longrightarrow> ds_clients (snd t') a = None) \<and>
        (\<forall>a \<in> set as. live a \<longrightarrow> ds_clients (snd t') a \<noteq> None) \<and>
        ds_trace (snd t') = ds_trace (snd t) @
          map Release (concat (map (client_res \<circ> entry (snd t)) (filter (\<lambda>a. \<not> live a) as))))"

lemma write_link_relinked:
  assumes "read_link pp ctx st \<noteq> None" and "outside pp [c]"
  obtains ctx' st' where "write_link pp p ctx st = Some (ctx', st')" and "relinked pp p [] (ctx, st) (ctx', st')"
    and "ds_clients st' c = ds_clients st c" and "ds_trace st' = ds_trace st"
  using assms
  by (cases pp) (auto simp: read_link_def write_link_def relinked_def outside_def put_client_def)

lemma cleanup_keep_step:
  assumes "cleaned now timeout (Next_Field c) as (ctx, st) t'" and "ds_clients st c = Some x" "\<not> expired now timeout x"
    and "c \<notin> set as" "outside pp (c # as)" "read_link pp ctx st = Some (Some c)"
  shows "cleaned now timeout pp (c # as) (ctx, st) t'"
proof -
  let ?live = "\<lambda>a. \<not> expired now timeout (the (ds_clients st a))"
  obtain p where p: "linked (links (snd t')) p (filter ?live as)" "relinked (Next_Field c) p as (ctx, st) t'"
    "map (entry (snd t')) (filter ?live as) = map (entry st) (filter ?live as)"
    "\<forall>a \<in> set as. \<not> ?live a \<longrightarrow> ds_clients (snd t') a = None"
    "\<forall>a \<in> set as. ?live a \<longrightarrow> ds_clients (snd t') a \<noteq> None"
    "ds_trace (snd t') = ds_trace st @ map Release (concat (map (client_res \<circ> entry st) (filter (\<lambda>a. \<not> ?live a) as)))"
    using assms(1) by (auto simp: cleaned_def Let_def)
  have c: "ds_clients (snd t') c = Some (x\<lparr>dc_next := p\<rparr>)" using p(2) assms(2,4) by (simp add: relinked_def)
  have "relinked pp (Some c) (c # as) (ctx, st) t'"
    using p(2) assms(5,6)
    by (cases pp) (auto simp: relinked_def outside_def read_link_def)
  moreover have "entry (snd t') c = entry st c" using c assms(2) by (simp add: entry_def)
  ultimately show ?thesis using p(1,3-6) c assms(2,3)
    by (auto simp: cleaned_def Let_def links_def intro!: exI [of _ "Some c"])
qed

lemma cleanup_drop_step:
  assumes "cleaned now timeout pp as (ctx2, st2) t'" and "ds_clients st c = Some x" "expired now timeout x"
    and "c \<notin> set as" "outside pp (c # as)" and "relinked pp q [] (ctx, st) (ctx2, st1)"
    and "ds_clients st2 = (ds_clients st1)(c := None)"
    and "ds_trace st2 = ds_trace st @ map Release (client_res (c, x))"
  shows "cleaned now timeout pp (c # as) (ctx, st) t'"
proof -
  have same: "a \<in> set as \<Longrightarrow> ds_clients st2 a = ds_clients st a" for a
    using assms(4-7) by (auto simp: relinked_def outside_def)
  then have live: "filter (\<lambda>a. P (the (ds_clients st2 a))) as = filter (\<lambda>a. P (the (ds_clients st a))) as" for P
    by (auto intro: filter_cong)
  have ent: "a \<in> set as \<Longrightarrow> entry st2 a = entry st a" for a using same by (simp add: entry_def)
  have rel: "relinked pp p (c # as) (ctx, st) t'" if "relinked pp p as (ctx2, st2) t'" for p
    using that assms(5-7) by (auto simp: relinked_def outside_def option.map_comp comp_def split: if_splits)
  let ?live = "\<lambda>a. \<not> expired now timeout (the (ds_clients st a))"
  have es: "map (entry st2) (filter Q as) = map (entry st) (filter Q as)"
    "map (client_res \<circ> entry st2) (filter Q as) = map (client_res \<circ> entry st) (filter Q as)" for Q
    using ent by auto
  obtain p where p: "linked (links (snd t')) p (filter ?live as)" "relinked pp p as (ctx2, st2) t'"
    "map (entry (snd t')) (filter ?live as) = map (entry st) (filter ?live as)"
    "\<forall>a \<in> set as. \<not> ?live a \<longrightarrow> ds_clients (snd t') a = None"
    "\<forall>a \<in> set as. ?live a \<longrightarrow> ds_clients (snd t') a \<noteq> None"
    "ds_trace (snd t') = ds_trace st2 @ map Release (concat (map (client_res \<circ> entry st) (filter (\<lambda>a. \<not> ?live a) as)))"
    using assms(1) same by (auto simp: cleaned_def Let_def live [of "\<lambda>x. \<not> expired now timeout x"] live [of "expired now timeout"] es simp del: map_eq_conv)
  have "ds_clients (snd t') c = None"
    using p(2) assms(4,5,7) by (auto simp: relinked_def outside_def)
  with p rel [OF p(2)] assms(2,3,8) show ?thesis
    by (auto simp: cleaned_def Let_def entry_def client_res_entry intro!: exI [of _ p])
qed

lemma cleanup_loop_ok:
  assumes "linked (links st) p as" and "read_link pp ctx st = Some p" and "distinct as" and "outside pp as"
  shows "\<exists>t'. cleanup_loop now timeout pp ctx st = Some t' \<and> cleaned now timeout pp as (ctx, st) t'"
  using assms
proof (induction as arbitrary: p pp ctx st)
  case Nil
  then show ?case
    by (subst cleanup_loop.simps) (auto simp: cleaned_def relinked_def read_link_def split: link.splits option.splits)
next
  case (Cons c as)
  obtain x where x: "p = Some c" "ds_clients st c = Some x" "linked (links st) (dc_next x) as"
    using Cons.prems(1) linked_Cons [of "links st" p c as] by (auto simp: links_def [of st c])
  show ?case
  proof (cases "expired now timeout x")
    case False
    then have eq: "cleanup_loop now timeout pp ctx st = cleanup_loop now timeout (Next_Field c) ctx st"
      using x Cons.prems(2) by (subst cleanup_loop.simps) (simp add: expired_def)
    have "\<exists>t'. cleanup_loop now timeout (Next_Field c) ctx st = Some t' \<and> cleaned now timeout (Next_Field c) as (ctx, st) t'"
      using x Cons.prems by (intro Cons.IH) (auto simp: read_link_def outside_def)
    with eq cleanup_keep_step [OF _ x(2) False] Cons.prems x(1) show ?thesis by auto
  next
    case True
    obtain ctx2 st1 where w: "write_link pp (dc_next x) ctx st = Some (ctx2, st1)"
      "relinked pp (dc_next x) [] (ctx, st) (ctx2, st1)" "ds_clients st1 c = ds_clients st c" "ds_trace st1 = ds_trace st"
      using write_link_relinked [of pp ctx st c "dc_next x"] Cons.prems(2,4) by (auto simp: outside_def)
    let ?st1 = "put_client c (x\<lparr>dc_next := None\<rparr>) st1"
    obtain st2 where f: "free_datagram_client (Some c) ?st1 = Some st2"
      "ds_clients st2 = (ds_clients ?st1)(c := None)"
      "ds_trace st2 = ds_trace ?st1 @ map Release (client_res (c, x\<lparr>dc_next := None\<rparr>))"
      using free_datagram_client_live [of ?st1 c] by (auto simp: put_client_def)
    have st2: "ds_clients st2 = (ds_clients st1)(c := None)" "ds_trace st2 = ds_trace st @ map Release (client_res (c, x))"
      using f(2,3) w(4) by (simp_all add: put_client_def client_res_entry)
    have eq: "cleanup_loop now timeout pp ctx st = cleanup_loop now timeout pp ctx2 st2"
      using x(1,2) Cons.prems(2) True w(1,3) f(1) by (subst cleanup_loop.simps) (simp add: expired_def)
    have out: "outside pp as" "c \<notin> set as" "distinct as" using Cons.prems(3,4) by (auto simp: outside_def)
    have "links st2 a = links st a" if "a \<in> set as" for a
      using that w(2) out Cons.prems(4) by (auto simp: links_def st2 relinked_def outside_def)
    then have "linked (links st2) (dc_next x) as" using x(3) linked_frame [of as "links st2" "links st"] by blast
    moreover have "read_link pp ctx2 st2 = Some (dc_next x)"
      using w(2) Cons.prems(2,4) st2 by (cases pp) (auto simp: read_link_def relinked_def outside_def)
    ultimately obtain t' where "cleanup_loop now timeout pp ctx2 st2 = Some t'" "cleaned now timeout pp as (ctx2, st2) t'"
      using Cons.IH out by blast
    with eq cleanup_drop_step [OF _ x(2) True out(2) Cons.prems(4) w(2) st2] show ?thesis by simp
  qed
qed

section \<open>The operations on the table\<close>

text \<open>What identifies a client: two addresses are equal exactly when their keys are.\<close>

definition addr_key :: "sockaddr \<Rightarrow> nat \<Rightarrow> nat \<times> nat \<times> byte list" where
  "addr_key sa len = (len, ss_family sa, take len sa)"

definition client_key :: "datagram_client \<Rightarrow> nat \<times> nat \<times> byte list" where
  "client_key x = addr_key (dc_client_addr x) (dc_client_addr_len x)"

lemma sockaddr_equal_key: "sockaddr_equal a a_len b b_len \<longleftrightarrow> addr_key a a_len = addr_key b b_len"
  by (auto simp: sockaddr_equal_def addr_key_def)

lemma client_key_next [simp]: "client_key (x\<lparr>dc_next := p\<rparr>) = client_key x"
  by (simp add: client_key_def)

lemma expired_next [simp]: "expired now timeout (x\<lparr>dc_next := p\<rparr>) = expired now timeout x"
  by (simp add: expired_def)

lemma table_heap_entry:
  assumes "table_heap ctx st es" and "(a, x) \<in> set es"
  obtains p where "ds_clients st a = Some (x\<lparr>dc_next := p\<rparr>)" and "dc_next x = None"
proof -
  have "a \<in> dom (ds_clients st)" using assms by (force simp: table_heap_def)
  then obtain y where y: "ds_clients st a = Some y" by blast
  have "(entry st \<circ> fst) (a, x) = (a, x)"
    using assms by (metis (no_types, lifting) map_eq_conv table_heap_def list.map_ident)
  then have "x = y\<lparr>dc_next := None\<rparr>" using y by (simp add: entry_def)
  then show thesis using y by (intro that [of "dc_next y"]) simp_all
qed

lemma table_heapI:
  assumes "linked (links st) (dg_clients ctx) as" and "distinct as" and "dom (ds_clients st) = set as"
  shows "table_heap ctx st (map (entry st) as)"
  using assms by (simp add: table_heap_def comp_def image_image)

lemma find_map: "List.find P (map f xs) = map_option f (List.find (P \<circ> f) xs)"
  by (induction xs) auto

lemma find_datagram_client_table:
  assumes "table t es"
  shows "find_datagram_client (fst t) (snd t) sa sa_len =
    Some (map_option fst (List.find (\<lambda>e. client_key (snd e) = addr_key sa sa_len) es))"
proof -
  let ?st = "snd t" and ?as = "map fst es"
  have h: "linked (links ?st) (dg_clients (fst t)) ?as" "es = map (entry ?st) ?as"
    using assms by (auto simp: table_def table_heap_def)
  have "List.find (\<lambda>e. client_key (snd e) = addr_key sa sa_len) es =
      map_option (entry ?st) (List.find (\<lambda>a. client_key (the (ds_clients ?st a)) = addr_key sa sa_len) ?as)"
    by (subst h(2)) (simp add: find_map comp_def option.map_comp)
  then show ?thesis
    by (simp add: find_datagram_client_def find_loop_ok [OF h(1)] sockaddr_equal_key client_key_def
      option.map_comp comp_def option.map_ident)
qed

lemma concat_filter_mset:
  "mset (concat (map f xs)) = mset (concat (map f (filter P xs))) + mset (concat (map f (filter (\<lambda>x. \<not> P x) xs)))"
  by (induction xs) auto

lemma table_res_clients [simp]: "ctx_res (ctx\<lparr>dg_clients := p\<rparr>) = ctx_res ctx"
  by (simp add: ctx_res_def)

lemma cleanup_table:
  assumes "table (ctx, st) es" and "dg_route ctx = Some r"
  shows "\<exists>p st'. cleanup_idle_datagram_clients now ctx st = Some (ctx\<lparr>dg_clients := p\<rparr>, st') \<and>
    table (ctx\<lparr>dg_clients := p\<rparr>, st') (filter (\<lambda>e. \<not> expired now (idle_timeout_sec (opts r)) (snd e)) es)"
proof -
  let ?as = "map fst es" and ?t = "idle_timeout_sec (opts r)"
  let ?live = "\<lambda>a. \<not> expired now ?t (the (ds_clients st a))"
  have h: "linked (links st) (dg_clients ctx) ?as" "distinct ?as" "dom (ds_clients st) = set ?as" "es = map (entry st) ?as"
    and hold: "holds (ds_trace st) (table_res ctx es)"
    using assms(1) by (auto simp: table_def table_heap_def)
  obtain ctx' st' where c: "cleanup_loop now ?t Clients_Field ctx st = Some (ctx', st')"
      "cleaned now ?t Clients_Field ?as (ctx, st) (ctx', st')"
    using cleanup_loop_ok [OF h(1) _ h(2), of Clients_Field ctx now ?t] by (auto simp: read_link_def outside_def)
  then obtain p where p: "linked (links st') p (filter ?live ?as)" "relinked Clients_Field p ?as (ctx, st) (ctx', st')"
    "map (entry st') (filter ?live ?as) = map (entry st) (filter ?live ?as)"
    "\<forall>a \<in> set ?as. \<not> ?live a \<longrightarrow> ds_clients st' a = None" "\<forall>a \<in> set ?as. ?live a \<longrightarrow> ds_clients st' a \<noteq> None"
    "ds_trace st' = ds_trace st @ map Release (concat (map (client_res \<circ> entry st) (filter (\<lambda>a. \<not> ?live a) ?as)))"
    by (auto simp: cleaned_def Let_def simp del: map_eq_conv)
  let ?keep = "\<lambda>e. \<not> expired now ?t (snd e)"
  have keep: "filter ?keep es = map (entry st) (filter ?live ?as)"
    by (subst h(4)) (simp add: filter_map comp_def del: map_map)
  have drop: "filter (\<lambda>e. \<not> ?keep e) es = map (entry st) (filter (\<lambda>a. \<not> ?live a) ?as)"
    by (subst h(4)) (simp add: filter_map comp_def del: map_map)
  have dom': "dom (ds_clients st') = set (filter ?live ?as)"
  proof -
    have "ds_clients st' a \<noteq> None \<longleftrightarrow> a \<in> set (filter ?live ?as)" for a
    proof (cases "a \<in> set ?as")
      case True
      with p(4,5) show ?thesis by auto
    next
      case False
      then show ?thesis using p(2) h(3) by (auto simp: relinked_def)
    qed
    then show ?thesis by auto
  qed
  have "mset (table_res ctx es) = mset (concat (map client_res (filter (\<lambda>e. \<not> ?keep e) es)) @ table_res ctx (filter ?keep es))"
    using concat_filter_mset [of client_res es ?keep] by (simp add: table_res_def)
  then have "holds (ds_trace st') (table_res ctx (filter ?keep es))"
    using holds_releases [OF hold] p(6) by (simp only: drop map_map)
  moreover have ctx': "ctx' = ctx\<lparr>dg_clients := p\<rparr>" using p(2) by (simp add: relinked_def)
  moreover have "table_heap ctx' st' (filter ?keep es)"
    unfolding keep p(3) [symmetric] using p(1) h(2) dom' ctx' by (intro table_heapI) simp_all
  ultimately have "table (ctx', st') (filter ?keep es)" by (simp add: table_def table_res_def)
  with c(1) assms(2) ctx' show ?thesis by (auto simp: cleanup_idle_datagram_clients_def)
qed

text \<open>The entry that \<^verbatim>\<open>create_datagram_client\<close> adds, \<open>None\<close> when it fails.\<close>

definition new_entry ::
  "dg_calls \<Rightarrow> addr option \<Rightarrow> 32 word \<Rightarrow> route \<Rightarrow> sockaddr \<Rightarrow> nat \<Rightarrow> client_entry option" where
  "new_entry k calloc base r sa len =
     (case calloc of
        None \<Rightarrow> None
      | Some a \<Rightarrow>
          let (rc, x, _) = connect_datagram_upstream k a (upstream r) (fresh_client k sa len) in
          if rc = Inr () \<and> gc_nonblocking k \<and> gc_event_new k \<and> gc_event_add k
          then Some (a, x\<lparr>dc_ev := Some base\<rparr>) else None)"

text \<open>The allocator and the kernel do not hand out what is in use.\<close>

definition calls_fresh :: "dg_calls \<Rightarrow> addr option \<Rightarrow> datagram_route_ctx \<Rightarrow> client_entry list \<Rightarrow> bool" where
  "calls_fresh k calloc ctx es \<longleftrightarrow>
     (\<forall>a. calloc = Some a \<longrightarrow> a \<notin> fst ` set es) \<and>
     (\<forall>fd. gc_socket k = Inr fd \<longrightarrow> 0 \<le> fd \<and> R_fd fd \<notin> set (table_res ctx es))"

definition connect_outcome :: "dg_calls \<Rightarrow> datagram_client \<Rightarrow> connect_result \<Rightarrow> bool" where
  "connect_outcome k x0 res = (case res of (rc, x, es, us) \<Rightarrow>
     x = x0\<lparr>dc_fd := dc_fd x, dc_unix_local_path := dc_unix_local_path x\<rparr> \<and>
     (rc \<noteq> Inr () \<and> dc_fd x = - 1 \<and> es = [] \<or>
      (\<exists>fd. gc_socket k = Inr fd \<and>
        (rc \<noteq> Inr () \<and> dc_fd x = - 1 \<and> es = [Acquire (R_fd fd), Release (R_fd fd)] \<or>
         dc_fd x = fd \<and> es = [Acquire (R_fd fd)]))))"

lemma connect_outcome:
  assumes "dc_fd x = - 1"
  shows "connect_outcome k x (connect_datagram_upstream k a u x)"
  using assms
  by (auto simp: connect_outcome_def connect_datagram_upstream_def connect_inet_upstream_def connect_unix_upstream_def Let_def
    split: endpoint_kind.splits sum.splits option.splits)

lemma connect_holds:
  assumes "holds tr rs" and "\<And>fd. gc_socket k = Inr fd \<Longrightarrow> 0 \<le> fd \<and> R_fd fd \<notin> set rs"
    and "connect_datagram_upstream k a u (fresh_client k sa len) = (rc, x, es, us)"
  shows "holds (tr @ es) (client_res (a, x) @ rs)" and "dc_ev x = None" and "dc_next x = None"
    and "dc_client_addr x = sa" "dc_client_addr_len x = len" "dc_last_seen x = gc_time k"
    and "rc = Inr () \<Longrightarrow> gc_socket k = Inr (dc_fd x)"
proof -
  have "connect_outcome k (fresh_client k sa len) (rc, x, es, us)"
    using connect_outcome [of "fresh_client k sa len" k a u] assms(3) by (simp add: fresh_client_def)
  then have x: "x = (fresh_client k sa len)\<lparr>dc_fd := dc_fd x, dc_unix_local_path := dc_unix_local_path x\<rparr>"
    and o: "rc \<noteq> Inr () \<and> dc_fd x = - 1 \<and> es = [] \<or>
      (\<exists>fd. gc_socket k = Inr fd \<and>
        (rc \<noteq> Inr () \<and> dc_fd x = - 1 \<and> es = [Acquire (R_fd fd), Release (R_fd fd)] \<or>
         dc_fd x = fd \<and> es = [Acquire (R_fd fd)]))"
    by (auto simp: connect_outcome_def)
  from x show fields: "dc_ev x = None" "dc_next x = None" "dc_client_addr x = sa" "dc_client_addr_len x = len"
    "dc_last_seen x = gc_time k"
    by (metis (no_types, lifting) fresh_client_def datagram_client.simps datagram_client.update_convs)+
  from o show "rc = Inr () \<Longrightarrow> gc_socket k = Inr (dc_fd x)" by auto
  have "holds (tr @ [Acquire (R_fd fd), Release (R_fd fd)]) rs" if "gc_socket k = Inr fd" for fd
    using holds_release [OF holds_acquire [OF assms(1)], of "R_fd fd" "R_fd fd"] assms(2) [OF that] by simp
  moreover have "holds (tr @ [Acquire (R_fd fd)]) (R_fd fd # rs)" if "gc_socket k = Inr fd" for fd
    using holds_acquire [OF assms(1)] assms(2) [OF that] by simp
  ultimately show "holds (tr @ es) (client_res (a, x) @ rs)"
    using o assms(1,2) fields(1) by (auto simp: client_res_def)
qed

lemma free_new_client:
  assumes "ds_clients st a = None" and "holds (ds_trace st @ es) (client_res (a, x) @ rs)"
  obtains st' where "free_datagram_client (Some a) (log_ds es us (put_client a x st)) = Some st'"
    and "ds_clients st' = ds_clients st" and "holds (ds_trace st') rs"
proof -
  let ?st = "log_ds es us (put_client a x st)"
  have "ds_clients ?st a = Some x" by (simp add: log_ds_def put_client_def)
  then obtain st' where st': "free_datagram_client (Some a) ?st = Some st'" "ds_clients st' = (ds_clients ?st)(a := None)"
    "ds_trace st' = ds_trace ?st @ map Release (client_res (a, x))"
    by (rule free_datagram_client_live)
  moreover have "ds_clients st' = ds_clients st"
    using st'(2) assms(1) by (simp add: log_ds_def put_client_def fun_upd_idem)
  moreover have "holds (ds_trace st') rs"
    using holds_releases [OF assms(2) refl] st'(3) by (simp add: log_ds_def put_client_def)
  ultimately show thesis using that by blast
qed

lemma table_same_heap: "table_heap ctx st es \<Longrightarrow> ds_clients st' = ds_clients st \<Longrightarrow> table_heap ctx st' es"
  by (simp add: table_heap_def links_def [abs_def] entry_def [abs_def])

lemma table_heap_cons:
  assumes "table_heap ctx st es" and "a \<notin> fst ` set es"
    and "ds_clients st' = (ds_clients st)(a \<mapsto> x\<lparr>dc_next := dg_clients ctx\<rparr>)" and "dc_next x = None"
  shows "table_heap (ctx\<lparr>dg_clients := Some a\<rparr>) st' ((a, x) # es)"
proof -
  have same: "links st' b = links st b" "entry st' b = entry st b" if "b \<in> fst ` set es" for b
    using that assms(2,3) by (auto simp: links_def entry_def)
  have "linked (links st') (dg_clients ctx) (map fst es)"
    using assms(1) linked_frame [of "map fst es" "links st'" "links st"] same(1) by (auto simp: table_heap_def)
  moreover have "map (entry st' \<circ> fst) es = map (entry st \<circ> fst) es" using same(2) by auto
  moreover have "entry st' a = (a, x)" using assms(3,4) by (simp add: entry_def)
  ultimately show ?thesis
    using assms by (auto simp: table_heap_def links_def [of st' a] simp del: map_eq_conv)
qed

lemma create_table:
  assumes "table (ctx, st) es" and "dg_route ctx = Some r" and "calls_fresh k calloc ctx es"
  shows "\<exists>p st'. create_datagram_client k calloc base sa len ctx st =
      Some (map_option fst (new_entry k calloc base r sa len), ctx\<lparr>dg_clients := p\<rparr>, st') \<and>
    table (ctx\<lparr>dg_clients := p\<rparr>, st') (case new_entry k calloc base r sa len of None \<Rightarrow> es | Some e \<Rightarrow> e # es)"
proof (cases calloc)
  case None
  with assms(1,2) show ?thesis
    by (intro exI [of _ "dg_clients ctx"] exI [of _ st]) (simp add: create_datagram_client_def new_entry_def)
next
  case (Some a)
  let ?rs = "table_res ctx es"
  obtain rc x tr us where con: "connect_datagram_upstream k a (upstream r) (fresh_client k sa len) = (rc, x, tr, us)"
    by (rule prod_cases4)
  have h: "table_heap ctx st es" "holds (ds_trace st) ?rs" using assms(1) by (simp_all add: table_def)
  have a: "a \<notin> fst ` set es" using assms(3) Some by (auto simp: calls_fresh_def)
  then have none: "ds_clients st a = None" using h(1) by (auto simp: table_heap_def dom_def)
  have "0 \<le> fd \<and> R_fd fd \<notin> set ?rs" if "gc_socket k = Inr fd" for fd
    using that assms(3) by (auto simp: calls_fresh_def)
  note ch = connect_holds [OF h(2) this con]
  have fail: "\<exists>st'. free_datagram_client (Some a) (log_ds es' us' (put_client a y st)) = Some st' \<and> table (ctx, st') es"
    if "holds (ds_trace st @ es') (client_res (a, y) @ ?rs)" for es' us' y
    using free_new_client [OF none that] table_same_heap [OF h(1)] by (metis table_def fst_conv snd_conv)
  let ?x = "x\<lparr>dc_ev := Some base\<rparr>"
  have "R_client_event a \<notin> set (client_res (a, x) @ ?rs)"
    using a ch(2) by (auto simp: client_res_def table_res_def ctx_res_def split: if_splits)
  from holds_acquire [OF ch(1) this]
  have ev: "holds (ds_trace st @ (tr @ [Acquire (R_client_event a)])) (client_res (a, ?x) @ ?rs)"
    using ch(2) by (simp add: client_res_def split: if_splits)
  have put: "log_ds [Acquire (R_client_event a)] [] (put_client a ?x (log_ds tr us (put_client a x st))) =
      log_ds (tr @ [Acquire (R_client_event a)]) us (put_client a ?x st)"
    by (simp add: log_ds_def put_client_def)
  let ?ok = "rc = Inr () \<and> gc_nonblocking k \<and> gc_event_new k \<and> gc_event_add k"
  have new: "new_entry k calloc base r sa len = (if ?ok then Some (a, ?x) else None)"
    using con Some by (simp add: new_entry_def)
  show ?thesis
  proof (cases ?ok)
    case True
    let ?st = "put_client a (?x\<lparr>dc_next := dg_clients ctx\<rparr>) (log_ds (tr @ [Acquire (R_client_event a)]) us (put_client a ?x st))"
    have "create_datagram_client k calloc base sa len ctx st = Some (Some a, ctx\<lparr>dg_clients := Some a\<rparr>, ?st)"
      using True con Some assms(2) put by (simp add: create_datagram_client_def Let_def)
    moreover have "table_heap (ctx\<lparr>dg_clients := Some a\<rparr>) ?st ((a, ?x) # es)"
      using h(1) a ch(3) by (intro table_heap_cons) (simp_all add: put_client_def log_ds_def)
    moreover have "holds (ds_trace ?st) (table_res (ctx\<lparr>dg_clients := Some a\<rparr>) ((a, ?x) # es))"
      using holds_perm [OF ev, of "table_res ctx ((a, ?x) # es)"]
      by (simp add: put_client_def log_ds_def table_res_def)
    ultimately show ?thesis using True new by (auto simp: table_def)
  next
    case False
    then show ?thesis
      using con Some assms(2) new fail [OF ch(1), of us] fail [OF ev, of us] put
      by (auto simp: create_datagram_client_def Let_def intro!: exI [of _ "dg_clients ctx"] split: sum.split)
  qed
qed

section \<open>The table as an interface\<close>

text \<open>
  What the packet handler relies on: a table represents a list of entries with different
  addresses; looking up a key finds the first entry that has it, purging removes exactly the idle entries, and
  stamping an entry keeps its key and makes it fresh. Inside, \<open>unique\<close> tells that no two entries have the
  same key.
\<close>

locale client_table =
  fixes rep :: "'t \<Rightarrow> ('a \<times> 'c) list \<Rightarrow> bool"
    and key :: "'c \<Rightarrow> 'k"
    and query :: "'q \<Rightarrow> 'k"
    and idle :: "'n \<Rightarrow> 'c \<Rightarrow> bool"
    and stamp :: "'n \<Rightarrow> 'c \<Rightarrow> 'c"
    and lookup :: "'q \<Rightarrow> 't \<Rightarrow> 'a option option"
    and purge :: "'n \<Rightarrow> 't \<Rightarrow> 't option"
    and touch :: "'n \<Rightarrow> 'a \<Rightarrow> 't \<Rightarrow> 't option"
  assumes rep_distinct: "rep t es \<Longrightarrow> distinct (map fst es)"
    and lookup_rep: "rep t es \<Longrightarrow> lookup q t = Some (map_option fst (List.find (\<lambda>e. key (snd e) = query q) es))"
    and purge_rep: "rep t es \<Longrightarrow> \<exists>t'. purge n t = Some t' \<and> rep t' (filter (\<lambda>e. \<not> idle n (snd e)) es)"
    and touch_rep: "rep t es \<Longrightarrow> a \<in> fst ` set es \<Longrightarrow>
      \<exists>t'. touch n a t = Some t' \<and> rep t' (map (\<lambda>(b, c). (b, if b = a then stamp n c else c)) es)"
    and key_stamp: "key (stamp n c) = key c"
    and fresh_stamp: "rep t es \<Longrightarrow> \<not> idle n (stamp n c)"
begin

lemma find_unique:
  assumes "distinct (map (key \<circ> snd) es)" and "(a, c) \<in> set es"
  shows "List.find (\<lambda>e. key (snd e) = key c) es = Some (a, c)"
  using assms
proof (induction es)
  case (Cons e es)
  show ?case
  proof (cases "key (snd e) = key c")
    case True
    then have "(a, c) \<notin> set es" using Cons.prems(1) by (force simp: image_iff)
    with Cons.prems(2) show ?thesis by auto
  next
    case False
    with Cons show ?thesis by auto
  qed
qed simp

lemma lookup_entry:
  assumes "rep t es" and "distinct (map (key \<circ> snd) es)" and "(a, c) \<in> set es" and "query q = key c"
  shows "lookup q t = Some (Some a)"
  using lookup_rep [OF assms(1)] find_unique [OF assms(2,3)] assms(4) by simp

lemma lookup_none: "rep t es \<Longrightarrow> lookup q t = Some None \<longleftrightarrow> query q \<notin> key ` snd ` set es"
  by (simp add: lookup_rep find_None_iff) force

lemma purge_unique:
  "distinct (map (key \<circ> snd) es) \<Longrightarrow> distinct (map (key \<circ> snd) (filter P es))"
  by (rule distinct_map_filter)

lemma touch_unique:
  "map (key \<circ> snd) (map (\<lambda>(b, c). (b, if b = a then stamp n c else c)) es) = map (key \<circ> snd) es"
  by (auto simp: key_stamp)

text \<open>An entry that was stamped is found after a purge at the same time.\<close>

lemma touch_survives:
  assumes "rep t es" and "distinct (map (key \<circ> snd) es)" and "(a, c) \<in> set es"
    and "query q = key c"
  shows "\<exists>t1 t2. touch n a t = Some t1 \<and> purge n t1 = Some t2 \<and> lookup q t2 = Some (Some a)"
proof -
  let ?es = "map (\<lambda>(b, c). (b, if b = a then stamp n c else c)) es"
  obtain t1 where t1: "touch n a t = Some t1" "rep t1 ?es" using touch_rep [OF assms(1)] assms(3) by force
  obtain t2 where t2: "purge n t1 = Some t2" "rep t2 (filter (\<lambda>e. \<not> idle n (snd e)) ?es)"
    using purge_rep [OF t1(2)] by blast
  have "(a, stamp n c) \<in> set (filter (\<lambda>e. \<not> idle n (snd e)) ?es)" using assms(3) fresh_stamp [OF assms(1)] by force
  moreover have "distinct (map (key \<circ> snd) ?es)" using assms(2) by (simp only: touch_unique)
  ultimately have "lookup q t2 = Some (Some a)"
    using assms(4) by (intro lookup_entry [OF t2(2) purge_unique, of a "stamp n c"]) (simp_all add: key_stamp)
  then show ?thesis using t1(1) t2(1) by (simp add: key_stamp)
qed

end

text \<open>The assignment to \<^verbatim>\<open>last_seen\<close>.\<close>

definition touch_client :: "int \<Rightarrow> addr \<Rightarrow> dstore \<Rightarrow> dstore option" where
  "touch_client now c st = map_option (\<lambda>x. put_client c (x\<lparr>dc_last_seen := now\<rparr>) st) (ds_clients st c)"

lemma touch_table:
  assumes "table (ctx, st) es" and "c \<in> fst ` set es"
  shows "\<exists>st'. touch_client now c st = Some st' \<and>
    table (ctx, st') (map (\<lambda>(b, x). (b, if b = c then x\<lparr>dc_last_seen := now\<rparr> else x)) es)"
proof -
  let ?f = "\<lambda>(b, x). (b, if b = c then x\<lparr>dc_last_seen := now\<rparr> else x :: datagram_client)"
  have h: "table_heap ctx st es" "holds (ds_trace st) (table_res ctx es)" using assms(1) by (simp_all add: table_def)
  obtain x where x: "(c, x) \<in> set es" using assms(2) by force
  obtain p where c: "ds_clients st c = Some (x\<lparr>dc_next := p\<rparr>)" using table_heap_entry [OF h(1) x] by blast
  let ?st = "put_client c (x\<lparr>dc_next := p, dc_last_seen := now\<rparr>) st"
  have st: "touch_client now c st = Some ?st" using c by (simp add: touch_client_def)
  have lk: "links ?st = links st" using c by (auto simp: links_def put_client_def)
  have f: "fst \<circ> ?f = fst" by (auto simp: case_prod_beta)
  have dom': "dom (ds_clients ?st) = dom (ds_clients st)" using c by (auto simp: put_client_def)
  have "map (entry ?st \<circ> fst) (map ?f es) = map ?f es"
  proof -
    have "entry ?st (fst (?f e)) = ?f e" if "e \<in> set es" for e
    proof -
      obtain b y where e: "e = (b, y)" by (cases e)
      with that obtain q where "ds_clients st b = Some (y\<lparr>dc_next := q\<rparr>)" "dc_next y = None"
        using table_heap_entry [OF h(1)] by blast
      moreover have "y = x" if "b = c"
        using that e x \<open>e \<in> set es\<close> h(1) by (auto simp: table_heap_def dest: eq_key_imp_eq_value)
      ultimately show ?thesis using e c by (auto simp: entry_def put_client_def)
    qed
    then show ?thesis by simp
  qed
  then have "table_heap ctx ?st (map ?f es)"
    using h(1) unfolding table_heap_def lk dom' map_map set_map image_comp f by (simp del: map_eq_conv)
  moreover have "map client_res (map ?f es) = map client_res es"
    by (auto simp: client_res_def split: if_splits)
  then have "table_res ctx (map ?f es) = table_res ctx es" by (simp only: table_res_def)
  ultimately show ?thesis using st h(2) by (auto simp: table_def put_client_def)
qed


interpretation datagram_table: client_table
  "\<lambda>t es. table t es \<and> dg_route (fst t) = Some r \<and> 0 \<le> idle_timeout_sec (opts r)" client_key
  "\<lambda>(sa, len). addr_key sa len" "\<lambda>now. expired now (idle_timeout_sec (opts r))" "\<lambda>now x. x\<lparr>dc_last_seen := now\<rparr>"
  "\<lambda>(sa, len) t. find_datagram_client (fst t) (snd t) sa len"
  "\<lambda>now t. cleanup_idle_datagram_clients now (fst t) (snd t)"
  "\<lambda>now a t. map_option (Pair (fst t)) (touch_client now a (snd t))" for r
proof (unfold_locales, goal_cases)
  case (1 t es)
  then show ?case by (simp add: table_def table_heap_def)
next
  case (2 t es q)
  then show ?case by (cases q) (simp add: find_datagram_client_table)
next
  case (3 t es now)
  then show ?case using cleanup_table [of "fst t" "snd t" es r now] by auto
next
  case (4 t es a now)
  then show ?case using touch_table [of "fst t" "snd t" es a now] by auto
next
  case (5 now c)
  show ?case by (simp add: client_key_def)
next
  case (6 t es now c)
  then show ?case by (simp add: expired_def)
qed

section \<open>What is sent\<close>

text \<open>
  C18. What reaches the upstream. A failed call sends nothing; a successful one sends exactly one datagram
  of at most 65535 bytes on the client's socket: the payload itself, or, with \<^verbatim>\<open>proxy_v2\<close>, a
  datagram that a PROXY receiver decodes to the client's address as source, the listener's as destination,
  the datagram transport, and exactly the payload. When the kernel takes the datagram the call fails only with
  \<^verbatim>\<open>proxy_v2\<close>, for addresses that are not IPv4 and for payloads longer than 65507 bytes.
\<close>

theorem send_to_upstream_wire:
  assumes "dc_client_addr_len x \<le> length (dc_client_addr x)" and "dg_local_addr_len ctx \<le> length (dg_local_addr ctx)"
    and "length bytes \<le> UDP_MAX_PACKET"
  shows "(case send_datagram_payload_to_upstream send ctx r x bytes of
       (Inl _, out) \<Rightarrow> out = []
     | (Inr _, out) \<Rightarrow> \<exists>w. out = [Send (dc_fd x) w] \<and> length w \<le> UDP_MAX_PACKET \<and>
         (if proxy_v2 (opts r)
          then pp2_decode w = Some (pp2_spec (dc_client_addr x) (dg_local_addr ctx) SOCK_DGRAM, bytes)
          else w = bytes)) \<and>
    ((\<forall>w. send (dc_fd x) w = None) \<longrightarrow>
      (fst (send_datagram_payload_to_upstream send ctx r x bytes) = Inr () \<longleftrightarrow>
        (proxy_v2 (opts r) \<longrightarrow> ss_family (dc_client_addr x) = AF_INET \<and> ss_family (dg_local_addr ctx) = AF_INET \<and>
           SIZEOF_SIN \<le> dc_client_addr_len x \<and> SIZEOF_SIN \<le> dg_local_addr_len ctx \<and> length bytes \<le> 65507)))"
proof -
  let ?build = "proxy_v2_build (Some 256) (Some (dc_client_addr x)) (dc_client_addr_len x)
    (Some (dg_local_addr ctx)) (dg_local_addr_len ctx) SOCK_DGRAM True"
  have b: "length hdr = 28 \<and> pp2_decode (hdr @ bytes) = Some (pp2_spec (dc_client_addr x) (dg_local_addr ctx) SOCK_DGRAM, bytes)"
    if "?build = Inr hdr" "ss_family (dc_client_addr x) = AF_INET" for hdr
    using proxy_v2_build_inet [OF that(1) assms(1,2) that(2)] by blast
  have ok: "(\<exists>hdr. ?build = Inr hdr) \<longleftrightarrow> SIZEOF_SIN \<le> dc_client_addr_len x \<and> SIZEOF_SIN \<le> dg_local_addr_len ctx"
    if "ss_family (dc_client_addr x) = AF_INET" "ss_family (dg_local_addr ctx) = AF_INET"
    using that by (auto simp: proxy_v2_build_def Let_def sock_defs not_less)
  show ?thesis
  proof (cases ?build)
    case (Inl e)
    then show ?thesis using ok assms(3)
      by (auto simp: send_datagram_payload_to_upstream_def Let_def split: option.split)
  next
    case (Inr hdr)
    then show ?thesis using ok b [OF Inr] assms(3)
      by (auto simp: send_datagram_payload_to_upstream_def Let_def UDP_MAX_PACKET_def split: option.split)
  qed
qed

definition example_client :: "sockaddr \<Rightarrow> datagram_client" where
  "example_client sa = \<lparr>dc_fd = 7, dc_ev = Some 1, dc_unix_local_path = [], dc_client_addr = sa,
     dc_client_addr_len = 16, dc_last_seen = 0, dc_next = None\<rparr>"

definition example_ctx :: "route \<Rightarrow> datagram_route_ctx" where
  "example_ctx r = \<lparr>dg_worker_pool = True, dg_route = Some r, dg_listen_fd = 5, dg_listen_ev = True,
     dg_local_addr = mk_sin 443 [10, 0, 1, 1], dg_local_addr_len = 16, dg_clients = None, dg_raw_fd = - 1\<rparr>"

theorem send_to_upstream_wire_witness:
  "\<exists>w. send_datagram_payload_to_upstream (\<lambda>_ _. None) (example_ctx route_zero)
      (route_zero\<lparr>opts := route_options_zero\<lparr>proxy_v2 := True\<rparr>\<rparr>) (example_client (mk_sin 4660 [10, 0, 0, 1])) [1, 2] =
      (Inr (), [Send 7 w]) \<and>
    pp2_decode w = Some (pp2_spec (mk_sin 4660 [10, 0, 0, 1]) (mk_sin 443 [10, 0, 1, 1]) 2, [1, 2])"
proof -
  let ?x = "example_client (mk_sin 4660 [10, 0, 0, 1])" and ?ctx = "example_ctx route_zero"
  have "dc_client_addr_len ?x \<le> length (dc_client_addr ?x)" "dg_local_addr_len ?ctx \<le> length (dg_local_addr ?ctx)"
    "length [1, 2 :: byte] \<le> UDP_MAX_PACKET"
    by (simp_all add: example_client_def example_ctx_def sizeof_defs UDP_MAX_PACKET_def)
  from send_to_upstream_wire [OF this, of "route_zero\<lparr>opts := route_options_zero\<lparr>proxy_v2 := True\<rparr>\<rparr>" "\<lambda>_ _. None"]
  show ?thesis
    by (auto simp: example_client_def example_ctx_def SIZEOF_SIN_def SOCK_DGRAM_def split: prod.splits sum.splits)
qed

text \<open>
  A reply carries the datagram \<open>d\<close> to the client: sent from the listening socket, or as a raw packet in
  which a receiver reads the upstream as the source.
\<close>

definition carries :: "(string \<Rightarrow> byte list option) \<Rightarrow> datagram_route_ctx \<Rightarrow> route \<Rightarrow> datagram_client \<Rightarrow> byte list \<Rightarrow> dg_send \<Rightarrow> bool" where
  "carries pton4 ctx r x d s \<longleftrightarrow>
     (if broadcast_reply (opts r) = BROADCAST_REPLY_UPSTREAM
      then \<exists>p. s = Raw_Send (dg_raw_fd ctx) p (take SIZEOF_SIN (mk_sin 0 (sin_addr (dc_client_addr x)))) \<and>
        udp_decode p = Some \<lparr>uv_len = 28 + length d, uv_src = the (pton4 (ep_host (upstream r))),
          uv_dst = sin_addr (dc_client_addr x), uv_sport = be16 (ep_port (upstream r)),
          uv_dport = sin_port (dc_client_addr x), uv_data = d\<rparr>
      else s = Sendto (dg_listen_fd ctx) d (dc_client_addr x) (dc_client_addr_len x))"

text \<open>
  When the datagram \<open>d\<close> gets to the kernel whole. A raw reply needs memory, the raw socket, an IPv4 upstream whose host is an
  address, an IPv4 client and at most 65507 bytes.
\<close>

definition reply_sent :: "reply_calls \<Rightarrow> datagram_route_ctx \<Rightarrow> route \<Rightarrow> datagram_client \<Rightarrow> byte list \<Rightarrow> bool" where
  "reply_sent k ctx r x d \<longleftrightarrow>
     (if broadcast_reply (opts r) = BROADCAST_REPLY_UPSTREAM then
        rc_calloc k \<and> 0 \<le> dg_raw_fd ctx \<and> ep_kind (upstream r) = ENDPOINT_INET \<and>
        rc_pton4 k (ep_host (upstream r)) \<noteq> None \<and> ss_family (dc_client_addr x) = AF_INET \<and>
        SIZEOF_SIN \<le> dc_client_addr_len x \<and> length d \<le> 65507 \<and>
        rc_sendto k (raw_packet (take SIZEOF_SIN (mk_sin (ep_port (upstream r)) (the (rc_pton4 k (ep_host (upstream r))))))
            (dc_client_addr x) d) (take SIZEOF_SIN (mk_sin 0 (sin_addr (dc_client_addr x)))) = Inr (28 + length d)
      else rc_sendto k d (dc_client_addr x) = Inr (length d))"

lemma take_mk_sin:
  assumes "length ip = 4"
  shows "sin_addr (take SIZEOF_SIN (mk_sin port ip)) = ip" "sin_port (take SIZEOF_SIN (mk_sin port ip)) = be16 port"
    "length (take SIZEOF_SIN (mk_sin port ip)) = SIZEOF_SIN"
  using assms by (simp_all add: mk_sin_def sin_addr_def sin_port_def family_bytes_def SIZEOF_SIN_def be16_def)

lemma length_raw_packet:
  assumes "SIZEOF_SIN \<le> length src" and "SIZEOF_SIN \<le> length dst"
  shows "length (raw_packet src dst d) = 28 + length d"
  using sin_field_lengths [OF assms(1)] sin_field_lengths [OF assms(2)]
  by (simp add: raw_packet_split raw_ipv4_hdr_def raw_udp_hdr_def)

lemma send_to_client_raw:
  assumes "broadcast_reply (opts r) = BROADCAST_REPLY_UPSTREAM"
    and "\<forall>h a. rc_pton4 k h = Some a \<longrightarrow> length a = 4" and "dc_client_addr_len x \<le> length (dc_client_addr x)"
  shows "if reply_sent k ctx r x d
    then \<exists>s. send_datagram_payload_to_client k ctx r x d = (Inr (), [s]) \<and> carries (rc_pton4 k) ctx r x d s
    else \<exists>e. send_datagram_payload_to_client k ctx r x d = (Inl e, [])"
proof (cases "ep_kind (upstream r) = ENDPOINT_INET \<and> SIZEOF_SIN \<le> dc_client_addr_len x \<and> rc_pton4 k (ep_host (upstream r)) \<noteq> None")
  case True
  then obtain ip where ip: "rc_pton4 k (ep_host (upstream r)) = Some ip" "length ip = 4" using assms(2) by blast
  let ?src = "take SIZEOF_SIN (mk_sin (ep_port (upstream r)) ip)"
  let ?p = "raw_packet ?src (dc_client_addr x) d" and ?to = "take SIZEOF_SIN (mk_sin 0 (sin_addr (dc_client_addr x)))"
  have dst: "SIZEOF_SIN \<le> length (dc_client_addr x)" using True assms(3) by simp
  note src = take_mk_sin [OF ip(2), of "ep_port (upstream r)"]
  have len: "length ?p = 28 + length d" using src(3) dst by (simp add: length_raw_packet)
  note carry = raw_packet_decodes [of ?src "dc_client_addr x" d, OF _ dst]
  have "if reply_sent k ctx r x d
    then send_datagram_payload_to_client k ctx r x d = (Inr (), [Raw_Send (dg_raw_fd ctx) ?p ?to])
    else \<exists>e. send_datagram_payload_to_client k ctx r x d = (Inl e, [])"
    using True ip assms(1) len
    by (auto simp: reply_sent_def send_datagram_payload_to_client_def datagram_raw_send_udp_ipv4_def
      endpoint_to_sockaddr_in_def Let_def SIZEOF_IP_def SIZEOF_UDP_def split: sum.split)
  moreover have "carries (rc_pton4 k) ctx r x d (Raw_Send (dg_raw_fd ctx) ?p ?to)" if "reply_sent k ctx r x d"
    using that carry src ip assms(1) by (simp add: carries_def reply_sent_def)
  ultimately show ?thesis by auto
next
  case False
  then show ?thesis using assms(1)
    by (auto simp: reply_sent_def send_datagram_payload_to_client_def datagram_raw_send_udp_ipv4_def
      endpoint_to_sockaddr_in_def Let_def)
qed

lemma send_to_client_cases:
  assumes "\<forall>h a. rc_pton4 k h = Some a \<longrightarrow> length a = 4" and "dc_client_addr_len x \<le> length (dc_client_addr x)"
  shows "if reply_sent k ctx r x d
    then \<exists>s. send_datagram_payload_to_client k ctx r x d = (Inr (), [s]) \<and> carries (rc_pton4 k) ctx r x d s
    else \<exists>e. send_datagram_payload_to_client k ctx r x d = (Inl e, [])"
proof (cases "broadcast_reply (opts r) = BROADCAST_REPLY_UPSTREAM")
  case True
  then show ?thesis using assms by (rule send_to_client_raw)
next
  case False
  then show ?thesis by (auto simp: send_datagram_payload_to_client_def carries_def reply_sent_def split: sum.split)
qed

text \<open>The datagrams that are received before the first empty one or error, as they are in the buffer.\<close>

fun received :: "byte list result list \<Rightarrow> byte list list" where
  "received (Inr d # rs) = (if d = [] then [] else take 65535 d # received rs)"
| "received _ = []"

lemma upstream_read_loop_replies:
  assumes "\<forall>i h a. rc_pton4 (k i) h = Some a \<longrightarrow> length a = 4" and "dc_client_addr_len x \<le> length (dc_client_addr x)"
  shows "\<exists>n out. upstream_read_loop k ctx r x recvs = (out, drop (Suc n) recvs) \<and>
    n = length out \<and> n \<le> length (received recvs) \<and>
    (\<forall>i<n. reply_sent (k i) ctx r x (received recvs ! i) \<and> carries (rc_pton4 (k i)) ctx r x (received recvs ! i) (out ! i)) \<and>
    (n < length (received recvs) \<longrightarrow> \<not> reply_sent (k n) ctx r x (received recvs ! n))"
  using assms
proof (induction k ctx r x recvs rule: upstream_read_loop.induct)
  case (3 k ctx r x d rs)
  let ?d = "take UDP_MAX_PACKET d" and ?k = "\<lambda>n. k (Suc n)"
  have pton: "\<forall>h a. rc_pton4 (k 0) h = Some a \<longrightarrow> length a = 4"
    "\<forall>i h a. rc_pton4 (?k i) h = Some a \<longrightarrow> length a = 4" using "3.prems" by blast+
  note one = send_to_client_cases [OF pton(1) "3.prems"(2), of ctx r ?d]
  show ?case
  proof (cases "d = [] \<or> \<not> reply_sent (k 0) ctx r x ?d")
    case True
    then show ?thesis using one by (intro exI [of _ 0] exI [of _ "[]"]) (auto simp: UDP_MAX_PACKET_def)
  next
    case False
    then obtain s where s: "send_datagram_payload_to_client (k 0) ctx r x ?d = (Inr (), [s])"
      "carries (rc_pton4 (k 0)) ctx r x ?d s" using one by auto
    have ne: "length ?d \<noteq> 0" using False by (simp add: UDP_MAX_PACKET_def)
    obtain n out where IH: "upstream_read_loop ?k ctx r x rs = (out, drop (Suc n) rs)" "n = length out"
      "n \<le> length (received rs)" "\<forall>i<n. reply_sent (?k i) ctx r x (received rs ! i) \<and>
         carries (rc_pton4 (?k i)) ctx r x (received rs ! i) (out ! i)"
      "n < length (received rs) \<longrightarrow> \<not> reply_sent (?k n) ctx r x (received rs ! n)"
      using "3.IH" [OF refl ne s(1) [symmetric] refl pton(2) "3.prems"(2)] by blast
    have "upstream_read_loop k ctx r x (Inr d # rs) = (s # out, drop (Suc (Suc n)) (Inr d # rs))"
      using IH(1) s(1) ne by (simp add: Let_def)
    moreover have "received (Inr d # rs) = ?d # received rs" using False by (simp add: UDP_MAX_PACKET_def)
    ultimately show ?thesis using IH(2-5) s(2) False
      by (intro exI [of _ "Suc n"] exI [of _ "s # out"]) (auto simp: less_Suc_eq_0_disj)
  qed
qed simp_all

text \<open>
  C20. Replies. Whatever the calls of \<^verbatim>\<open>recv\<close> and of \<^verbatim>\<open>sendto\<close> give, \<^verbatim>\<open>upstream_read_cb\<close> sends to the client that owns the socket
  an initial part of the datagrams received before the first empty one or error: each once, in order and
  unchanged, but cut to the buffer of 65535 bytes. It stops early only at a datagram that the kernel
  does not take whole, or, with \<^verbatim>\<open>broadcast_reply=upstream\<close>, one that cannot be sent as a raw packet
  (longer than 65507 bytes, no memory, no raw socket, or an upstream or a client that is no IPv4 address). That
  datagram is lost; those behind it are still in the socket. A reply goes out from the listening
  socket, or, with \<^verbatim>\<open>broadcast_reply=upstream\<close>, as an IPv4 packet in which a receiver reads the upstream's
  address and port as the source. \<^verbatim>\<open>inet_pton\<close> is assumed to give four bytes, and the
  client's address length not to exceed its storage.
\<close>

theorem upstream_read_cb_replies:
  assumes "ds_clients st c = Some x" and "dg_route ctx = Some r"
    and "\<forall>i h a. rc_pton4 (k i) h = Some a \<longrightarrow> length a = 4" and "dc_client_addr_len x \<le> length (dc_client_addr x)"
  shows "\<exists>n out. upstream_read_locked k c recvs ctx st = Some (out, drop (Suc n) recvs) \<and>
    n = length out \<and> n \<le> length (received recvs) \<and>
    (\<forall>i<n. reply_sent (k i) ctx r x (received recvs ! i) \<and> carries (rc_pton4 (k i)) ctx r x (received recvs ! i) (out ! i)) \<and>
    (n < length (received recvs) \<longrightarrow> \<not> reply_sent (k n) ctx r x (received recvs ! n))"
  using upstream_read_loop_replies [where k = k and ctx = ctx and r = r and recvs = recvs, OF assms(3,4)] assms(1,2) by (simp add: upstream_read_locked_live)

definition example_reply_calls :: reply_calls where
  "example_reply_calls = \<lparr>rc_pton4 = (\<lambda>_. Some [10, 0, 0, 9]), rc_calloc = True, rc_sendto = (\<lambda>p _. Inr (length p))\<rparr>"

text \<open>The second send fails: the second datagram is lost and the third one is not read.\<close>

theorem upstream_read_cb_replies_witness:
  "upstream_read_locked (\<lambda>n. if n = 1 then example_reply_calls\<lparr>rc_sendto := (\<lambda>_ _. Inl EAGAIN)\<rparr> else example_reply_calls)
     1 [Inr [1], Inr [2, 3], Inr [4]] (example_ctx route_zero)
     \<lparr>ds_clients = [1 \<mapsto> example_client (mk_sin 4660 [10, 0, 0, 1])], ds_trace = [], ds_unlinked = []\<rparr> =
   Some ([Sendto 5 [1] (mk_sin 4660 [10, 0, 0, 1]) 16], [Inr [4]])"
proof -
  let ?x = "example_client (mk_sin 4660 [10, 0, 0, 1])" and ?ctx = "example_ctx route_zero"
  let ?st = "\<lparr>ds_clients = [1 \<mapsto> ?x], ds_trace = [], ds_unlinked = []\<rparr>"
  let ?k = "\<lambda>n :: nat. if n = 1 then example_reply_calls\<lparr>rc_sendto := (\<lambda>_ _. Inl EAGAIN)\<rparr> else example_reply_calls"
  let ?rs = "[Inr [1], Inr [2, 3], Inr [4 :: byte]] :: byte list result list"
  have live: "ds_clients ?st 1 = Some ?x" "dg_route ?ctx = Some route_zero" by (simp_all add: example_ctx_def)
  have four: "\<forall>i h a. rc_pton4 (?k i) h = Some a \<longrightarrow> length a = 4" by (auto simp: example_reply_calls_def split: if_splits)
  have len: "dc_client_addr_len ?x \<le> length (dc_client_addr ?x)" by (simp add: example_client_def sizeof_defs)
  from upstream_read_cb_replies [where k = ?k and recvs = ?rs, OF live four len] obtain n out where
    out: "upstream_read_locked ?k 1 ?rs ?ctx ?st = Some (out, drop (Suc n) ?rs)" "n = length out" "n \<le> length (received ?rs)"
    "\<forall>i<n. reply_sent (?k i) ?ctx route_zero ?x (received ?rs ! i) \<and> carries (rc_pton4 (?k i)) ?ctx route_zero ?x (received ?rs ! i) (out ! i)"
    "n < length (received ?rs) \<longrightarrow> \<not> reply_sent (?k n) ?ctx route_zero ?x (received ?rs ! n)" by blast
  have plain: "broadcast_reply (opts route_zero) \<noteq> BROADCAST_REPLY_UPSTREAM" by (simp add: route_zero_def route_options_zero_def)
  then have sent: "\<not> reply_sent (?k 1) ?ctx route_zero ?x (received ?rs ! 1)" "reply_sent (?k 0) ?ctx route_zero ?x (received ?rs ! 0)"
    by (simp_all add: reply_sent_def example_reply_calls_def)
  have "0 < length (received ?rs)" by simp
  then have "n \<noteq> 0" using out(5) sent(2) by metis
  moreover have "\<not> 1 < n" using out(4) sent(1) by blast
  ultimately have "n = 1" by linarith
  moreover then obtain s where "out = [s]" using out(2) by (auto simp: length_Suc_conv)
  ultimately show ?thesis using out(1,4) plain by (simp add: carries_def example_client_def example_ctx_def)
qed

end
