(* ===== verification/Datagram_Builtin.thy ===== *)
theory Datagram_Builtin
  imports Datagram_Client
begin

text \<open>
  The built-in upstreams over datagrams (\<^verbatim>\<open>src/datagram_builtin.c\<close>): the answer of the built-in is sent back
  to the client from the listening socket. The theorem says what a client gets.
\<close>

section \<open>The client's address as text\<close>

text \<open>
  \<^verbatim>\<open>datagram_client_addr_string\<close> into a buffer of \<open>buf_len\<close> bytes; the two conversions of
  \<^verbatim>\<open>inet_ntop\<close> are parameters, \<open>None\<close> when they fail.
\<close>

definition datagram_client_addr_string ::
  "(byte list \<Rightarrow> string option) \<Rightarrow> (byte list \<Rightarrow> string option) \<Rightarrow> datagram_client \<Rightarrow> nat \<Rightarrow> string option" where
  "datagram_client_addr_string ntop4 ntop6 x buf_len =
     (if buf_len = 0 then None
      else
        let sa = dc_client_addr x;
            with_port = (\<lambda>a port. a @ snprintf_buf (buf_len - length a) ('':'' @ show_nat (unat (of_be16 port)))) in
        if ss_family sa = AF_INET then map_option (\<lambda>a. with_port a (sin_port sa)) (ntop4 (sin_addr sa))
        else if ss_family sa = AF_INET6 then map_option (\<lambda>a. with_port a (sin6_port sa)) (ntop6 (sin6_addr sa))
        else Some (snprintf_buf buf_len ''unknown''))"

section \<open>Answering\<close>

text \<open>\<open>sendto data\<close> is the error of the call on the listening socket, \<open>None\<close> when the datagram was taken.\<close>

definition start_datagram_builtin ::
  "(byte list \<Rightarrow> string option) \<Rightarrow> (byte list \<Rightarrow> string option) \<Rightarrow> (byte list \<Rightarrow> errno option) \<Rightarrow>
   datagram_route_ctx \<Rightarrow> datagram_client \<Rightarrow> unit result \<times> dg_send list" where
  "start_datagram_builtin ntop4 ntop6 sendto ctx x =
     (case dg_route ctx of
        None \<Rightarrow> (Inl EINVAL, [])
      | Some r \<Rightarrow>
          (case x_builtin_handle \<lparr>req_builtin = ep_builtin (upstream r),
                                  req_client_addr = datagram_client_addr_string ntop4 ntop6 x 128\<rparr> of
             Inl rc \<Rightarrow> (Inl rc, [])
           | Inr res \<Rightarrow>
               (case res_action res of
                  X_BUILTIN_ACTION_CLOSE \<Rightarrow>
                    if res_data_len res = 0 then (Inr (), [])
                    else
                      let data = map of_char (take (res_data_len res) (res_data res)) in
                      (case sendto data of
                         Some e \<Rightarrow> (Inl e, [])
                       | None \<Rightarrow> (Inr (), [Sendto (dg_listen_fd ctx) data (dc_client_addr x) (dc_client_addr_len x)]))
                | X_BUILTIN_ACTION_DISCARD \<Rightarrow> (Inr (), [])
                | X_BUILTIN_ACTION_HANG \<Rightarrow> (Inr (), [])
                | X_BUILTIN_ACTION_HTTP_RESP \<Rightarrow> (Inl EINVAL, []))))"

text \<open>\<^verbatim>\<open>handle_datagram_builtin_packet\<close> makes a client for the one packet that is in no list.\<close>

definition builtin_client :: "worker_datagram_packet_msg \<Rightarrow> int \<Rightarrow> datagram_client" where
  "builtin_client d now =
     \<lparr>dc_fd = EVUTIL_INVALID_SOCKET, dc_ev = None, dc_unix_local_path = [], dc_client_addr = dp_peer_addr d,
      dc_client_addr_len = dp_peer_addr_len d, dc_last_seen = now, dc_next = None\<rparr>"

definition handle_datagram_builtin_packet ::
  "(byte list \<Rightarrow> string option) \<Rightarrow> (byte list \<Rightarrow> string option) \<Rightarrow> (byte list \<Rightarrow> errno option) \<Rightarrow> int \<Rightarrow>
   datagram_route_ctx \<Rightarrow> worker_datagram_packet_msg \<Rightarrow> unit result \<times> dg_send list" where
  "handle_datagram_builtin_packet ntop4 ntop6 sendto now ctx d =
     start_datagram_builtin ntop4 ntop6 sendto ctx (builtin_client d now)"

section \<open>What a client gets\<close>

text \<open>
  The senders that are IPv4 or IPv6 addresses: the storage holds the address bytes and, in network order, the port; \<open>host\<close> is what
  \<^verbatim>\<open>inet_ntop\<close> gives for the bytes, of its documented length.
\<close>

definition inet_peer ::
  "(byte list \<Rightarrow> string option) \<Rightarrow> (byte list \<Rightarrow> string option) \<Rightarrow> sockaddr \<Rightarrow> string \<Rightarrow> 16 word \<Rightarrow> bool" where
  "inet_peer ntop4 ntop6 peer host port \<longleftrightarrow>
     (\<exists>ip. length ip = 4 \<and> peer = mk_sin port ip \<and> ntop4 ip = Some host \<and> length host < 16) \<or>
     (\<exists>ip. length ip = 16 \<and> peer = mk_sin6 port ip \<and> ntop6 ip = Some host \<and> length host < 46)"

lemma client_addr_string_text:
  assumes "inet_peer ntop4 ntop6 (dc_client_addr x) host port"
  shows "datagram_client_addr_string ntop4 ntop6 x 128 = Some (host @ '':'' @ show_nat (unat port))"
    and "length (host @ '':'' @ show_nat (unat port)) < 128"
proof -
  let ?p = "show_nat (unat port)"
  have "length ?p \<le> 5" using length_show_nat [of "unat port" 4] unat_u16_less [of port] by simp
  moreover have "length host < 46" using assms by (auto simp: inet_peer_def)
  ultimately show len: "length (host @ '':'' @ ?p) < 128" by simp
  have "snprintf_buf (128 - length host) ('':'' @ ?p) = '':'' @ ?p" using len by (simp add: snprintf_buf_def)
  then show "datagram_client_addr_string ntop4 ntop6 x 128 = Some (host @ '':'' @ ?p)"
    using assms by (auto simp: inet_peer_def datagram_client_addr_string_def Let_def af_defs)
qed

text \<open>
  C30. What a datagram to a route with a built-in upstream gets, for senders of either address family, for every result of \<^verbatim>\<open>sendto\<close>
  and for every built-in but \<^verbatim>\<open>http_ok\<close>. \<^verbatim>\<open>client_addr\<close> answers with one datagram, from the listening
  socket to the sender: the sender's address as text, a colon, its port as a decimal number in host order, and a newline;
  nothing is cut off by the 128-byte and 256-byte buffers, and an error of \<^verbatim>\<open>sendto\<close> is
  returned. \<^verbatim>\<open>discard\<close>, \<^verbatim>\<open>hang\<close>, \<^verbatim>\<open>close\<close> and \<^verbatim>\<open>log_conn\<close> succeed and send nothing.
\<close>

theorem datagram_builtin_answers:
  assumes "dg_route ctx = Some r" and "ep_builtin (upstream r) \<notin> {X_BUILTIN_NONE, X_BUILTIN_HTTP_OK}"
    and "inet_peer ntop4 ntop6 (dp_peer_addr d) host port"
  shows "handle_datagram_builtin_packet ntop4 ntop6 sendto now ctx d =
    (if ep_builtin (upstream r) \<noteq> X_BUILTIN_CLIENT_ADDR then (Inr (), [])
     else let answer = map of_char (host @ '':'' @ show_nat (unat port) @ [LF]) in
       case sendto answer of
         Some e \<Rightarrow> (Inl e, [])
       | None \<Rightarrow> (Inr (), [Sendto (dg_listen_fd ctx) answer (dp_peer_addr d) (dp_peer_addr_len d)]))"
proof -
  let ?x = "builtin_client d now" and ?a = "host @ '':'' @ show_nat (unat port)"
  have "inet_peer ntop4 ntop6 (dc_client_addr ?x) host port" using assms(3) by (simp add: builtin_client_def)
  note a = client_addr_string_text [OF this]
  have cut: "snprintf_buf 256 (?a @ [LF]) = ?a @ [LF]" using a(2) by (simp add: snprintf_buf_def)
  have peer: "dc_client_addr ?x = dp_peer_addr d" "dc_client_addr_len ?x = dp_peer_addr_len d" by (simp_all add: builtin_client_def)
  show ?thesis
    using a(1,2) assms(1,2) cut peer
    by (cases "ep_builtin (upstream r)")
      (simp_all add: handle_datagram_builtin_packet_def start_datagram_builtin_def x_builtin_handle.simps
        x_builtin_response_zero_def Let_def SIZEOF_RES_DATA_def split: option.split)
qed

text \<open>\<^verbatim>\<open>http_ok\<close> fails over datagrams and sends nothing, although the example configurations put it on UDP listeners.\<close>

lemma http_ok_no_answer:
  "dg_route ctx = Some r \<Longrightarrow> ep_builtin (upstream r) = X_BUILTIN_HTTP_OK \<Longrightarrow>
   handle_datagram_builtin_packet ntop4 ntop6 sendto now ctx d = (Inl EINVAL, [])"
  by (simp add: handle_datagram_builtin_packet_def start_datagram_builtin_def x_builtin_handle.simps
    x_builtin_response_zero_def Let_def)

definition example_builtin_packet :: worker_datagram_packet_msg where
  "example_builtin_packet = \<lparr>dp_route = route_zero, dp_ctx = 5, dp_peer_addr = mk_sin 54321 [10, 0, 0, 1], dp_peer_addr_len = 16,
     dp_data = None, dp_data_len = 0\<rparr>"

theorem datagram_builtin_answers_witness:
  "handle_datagram_builtin_packet (\<lambda>b. if b = [10, 0, 0, 1] then Some ''10.0.0.1'' else None) (\<lambda>_. None) (\<lambda>_. None) 0
     (example_ctx (route_zero\<lparr>upstream := endpoint_zero\<lparr>ep_builtin := X_BUILTIN_CLIENT_ADDR\<rparr>\<rparr>)) example_builtin_packet =
   (Inr (), [Sendto 5 (map of_char (''10.0.0.1:54321'' @ [LF])) (mk_sin 54321 [10, 0, 0, 1]) 16])"
proof -
  let ?r = "route_zero\<lparr>upstream := endpoint_zero\<lparr>ep_builtin := X_BUILTIN_CLIENT_ADDR\<rparr>\<rparr>"
  let ?n4 = "\<lambda>b :: byte list. if b = [10, 0, 0, 1] then Some ''10.0.0.1'' else None" and ?n6 = "\<lambda>_ :: byte list. None :: string option"
  have port: "show_nat 54321 = ''54321''" by (simp add: show_nat.simps digit_char_def char_of_def bit_simps)
  have ok: "dg_route (example_ctx ?r) = Some ?r" "ep_builtin (upstream ?r) \<notin> {X_BUILTIN_NONE, X_BUILTIN_HTTP_OK}"
    by (simp_all add: example_ctx_def)
  have peer: "inet_peer ?n4 ?n6 (dp_peer_addr example_builtin_packet) ''10.0.0.1'' 54321"
    unfolding inet_peer_def by (intro disjI1 exI [of _ "[10, 0, 0, 1]"]) (simp add: example_builtin_packet_def)
  from datagram_builtin_answers [OF ok peer, of "\<lambda>_. None" 0] port show ?thesis
    by (simp add: example_ctx_def example_builtin_packet_def)
qed

end
