(* ===== verification/Datagram_Listener.thy ===== *)
theory Datagram_Listener
  imports Datagram_Builtin Worker_System Worker_Pool Bind
begin

text \<open>
  The listening side of a datagram route (\<^verbatim>\<open>src/datagram_listener.c\<close>): a received datagram is queued for the next
  worker; the worker finds or creates the client of its sender and forwards it; and the listening
  sockets are opened. The results of the system calls are arguments.
\<close>

section \<open>Handling a packet\<close>

text \<open>The calls made for one packet. \<open>pk_cleanup_time\<close> and \<open>pk_time\<close> are two readings of the clock.\<close>

record packet_calls =
  pk_cleanup_time :: int
  pk_client :: dg_calls
  pk_calloc :: "addr option"
  pk_time :: int
  pk_send :: "int \<Rightarrow> byte list \<Rightarrow> errno option"
  pk_sendto :: "byte list \<Rightarrow> errno option"
  pk_ntop4 :: "byte list \<Rightarrow> string option"
  pk_ntop6 :: "byte list \<Rightarrow> string option"

definition datagram_route_get_or_create_client ::
  "packet_calls \<Rightarrow> 32 word \<Rightarrow> worker_datagram_packet_msg \<Rightarrow> datagram_route_ctx \<Rightarrow> dstore \<Rightarrow>
   (addr option \<times> datagram_route_ctx \<times> dstore) option" where
  "datagram_route_get_or_create_client k w pkt ctx st = do {
     found \<leftarrow> find_datagram_client ctx st (dp_peer_addr pkt) (dp_peer_addr_len pkt);
     (c, ctx, st) \<leftarrow> (case found of
         Some c \<Rightarrow> Some (Some c, ctx, st)
       | None \<Rightarrow> create_datagram_client (pk_client k) (pk_calloc k) w (dp_peer_addr pkt) (dp_peer_addr_len pkt) ctx st);
     (case c of
        None \<Rightarrow> Some (None, ctx, st)
      | Some a \<Rightarrow> map_option (\<lambda>st. (Some a, ctx, st)) (touch_client (pk_time k) a st)) }"

text \<open>\<open>bytes\<close> are the data of the packet. The error is only logged by the caller.\<close>

definition datagram_route_handle_packet ::
  "packet_calls \<Rightarrow> 32 word \<Rightarrow> worker_datagram_packet_msg \<Rightarrow> byte list \<Rightarrow> datagram_route_ctx \<Rightarrow> dstore \<Rightarrow>
   (unit result \<times> dg_send list \<times> datagram_route_ctx \<times> dstore) option" where
  "datagram_route_handle_packet k w pkt bytes ctx st = do {
     r \<leftarrow> dg_route ctx;
     (if ep_kind (upstream r) = ENDPOINT_BUILTIN then
        let (rc, out) = handle_datagram_builtin_packet (pk_ntop4 k) (pk_ntop6 k) (pk_sendto k) (pk_time k) ctx pkt in
        Some (rc, out, ctx, st)
      else do {
        (c, ctx, st) \<leftarrow> datagram_route_get_or_create_client k w pkt ctx st;
        (case c of
           None \<Rightarrow> Some (Inl ENOMEM, [], ctx, st)
         | Some a \<Rightarrow> do {
             x \<leftarrow> ds_clients st a;
             let (rc, out) = send_datagram_payload_to_upstream (pk_send k) ctx r x bytes;
             Some (rc, out, ctx, st) }) }) }"

section \<open>Receiving and dispatching\<close>

text \<open>\<^verbatim>\<open>dispatch_datagram_packet\<close>; \<open>ctx_addr\<close> is the address of the context, which the message holds.\<close>

definition dispatch_datagram_packet ::
  "(nat \<Rightarrow> errno option) \<Rightarrow> addr option \<Rightarrow> addr option \<Rightarrow> addr \<Rightarrow> datagram_route_ctx \<Rightarrow> worker_pool \<Rightarrow>
   sockaddr \<Rightarrow> nat \<Rightarrow> byte list \<Rightarrow> (unit result \<times> worker_pool) option" where
  "dispatch_datagram_packet send calloc malloc ctx_addr ctx pool peer_addr peer_addr_len data =
     (if \<not> dg_worker_pool ctx then Some (Inl EINVAL, pool)
      else case worker_pool_next pool of
        (None, pool) \<Rightarrow> Some (Inl EINVAL, pool)
      | (Some i, pool) \<Rightarrow>
          (let s = pool_slot pool i in
           map_option (\<lambda>(rc, w, st, n). (rc, set_slot pool i \<lparr>sl_worker = w, sl_store = st, sl_notify = n\<rparr>))
             (worker_enqueue_datagram_packet send calloc malloc (sl_worker s) ctx_addr (dg_route ctx) (dg_listen_fd ctx)
                (Some peer_addr) peer_addr_len (Some data) (length data) (sl_store s) (sl_notify s))))"

text \<open>
  \<^verbatim>\<open>listen_read_cb\<close>: \<open>recvfrom\<close> gives the error or the datagram, its sender's address in the zeroed
  storage, and the length of that. A failed dispatch is only logged.
\<close>

definition listen_read_cb ::
  "(nat \<Rightarrow> errno option) \<Rightarrow> addr option \<Rightarrow> addr option \<Rightarrow> addr \<Rightarrow> datagram_route_ctx \<Rightarrow> worker_pool \<Rightarrow>
   (byte list \<times> sockaddr \<times> nat) result \<Rightarrow> worker_pool option" where
  "listen_read_cb send calloc malloc ctx_addr ctx pool recvfrom =
     (case recvfrom of
        Inl err \<Rightarrow> Some pool
      | Inr (data, peer_addr, peer_addr_len) \<Rightarrow>
          map_option snd (dispatch_datagram_packet send calloc malloc ctx_addr ctx pool peer_addr peer_addr_len
            (take 65535 data)))"

section \<open>Opening the listener\<close>

text \<open>
  The results of the calls. A failed system call leaves a non-zero error number. The libevent function
  behind \<open>dl_nonblocking\<close> may fail with the number 0, here \<open>None\<close>, which the Unix listener turns
  into \<^verbatim>\<open>EINVAL\<close>.
\<close>

record dl_calls =
  dl_pton4 :: "string \<Rightarrow> byte list option"
  dl_pton6 :: "string \<Rightarrow> byte list option"
  dl_unlink :: "errno option"
  dl_socket :: "int result"
  dl_set_broadcast :: "errno option"
  dl_set_v6only :: "errno option"
  dl_nonblocking :: "errno option + unit"
  dl_set_reuseaddr :: "errno option"
  dl_bind :: "nat \<Rightarrow> bind_attempt"
  dl_unix_bind :: "errno option"
  dl_getsockname :: "(sockaddr \<times> nat) result"
  dl_event_new :: bool
  dl_event_add :: bool

definition or_einval :: "errno option \<Rightarrow> errno" where
  "or_einval e = (case e of Some e \<Rightarrow> e | None \<Rightarrow> EINVAL)"

text \<open>The result is the return code, the context, and what was acquired.\<close>

type_synonym dl_result = "unit result \<times> datagram_route_ctx \<times> res_event list"

text \<open>The last part of both functions: the event of the listening socket.\<close>

definition add_listen_event :: "dl_calls \<Rightarrow> datagram_route_ctx \<Rightarrow> res_event list \<Rightarrow> dl_result" where
  "add_listen_event k ctx es =
     (if \<not> dl_event_new k then (Inl ENOMEM, ctx\<lparr>dg_listen_ev := False\<rparr>, es)
      else
        let ctx = ctx\<lparr>dg_listen_ev := True\<rparr>; es = es @ [Acquire R_listen_event] in
        if \<not> dl_event_add k then (Inl EINVAL, ctx, es) else (Inr (), ctx, es))"

definition set_local_addr :: "sockaddr \<times> nat \<Rightarrow> datagram_route_ctx \<Rightarrow> datagram_route_ctx" where
  "set_local_addr a ctx = ctx\<lparr>dg_local_addr := fst a, dg_local_addr_len := snd a\<rparr>"

text \<open>The local address before \<^verbatim>\<open>getsockname\<close>: zeroed, with the size of the storage as its length.\<close>

definition clear_local_addr :: "datagram_route_ctx \<Rightarrow> datagram_route_ctx" where
  "clear_local_addr ctx = set_local_addr (replicate SIZEOF_SS 0, SIZEOF_SS) ctx"

definition bind_unix_datagram_listener :: "dl_calls \<Rightarrow> route \<Rightarrow> datagram_route_ctx \<Rightarrow> dl_result" where
  "bind_unix_datagram_listener k r ctx =
     (let path = ep_path (listen r); unlink_err = dl_unlink k in
      if path = [] then (Inl EINVAL, ctx, [])
      else if length path \<ge> SIZEOF_SUN_PATH then (Inl ENAMETOOLONG, ctx, [])
      else if unlink_err \<noteq> None \<and> unlink_err \<noteq> Some ENOENT then (Inl (the unlink_err), ctx, [])
      else case dl_socket k of
        Inl err \<Rightarrow> (Inl err, ctx\<lparr>dg_listen_fd := EVUTIL_INVALID_SOCKET\<rparr>, [])
      | Inr fd \<Rightarrow>
          let ctx = ctx\<lparr>dg_listen_fd := fd\<rparr>; es = [Acquire (R_fd fd)] in
          if broadcast_reply (opts r) \<noteq> BROADCAST_REPLY_OFF then (Inl EINVAL, ctx, es)
          else case dl_nonblocking k of
            Inl err \<Rightarrow> (Inl (or_einval err), ctx, es)
          | Inr _ \<Rightarrow>
              (case dl_unix_bind k of
                 Some err \<Rightarrow> (Inl err, ctx, es)
               | None \<Rightarrow>
                   (case dl_getsockname k of
                      Inl err \<Rightarrow> (Inl err, clear_local_addr ctx, es)
                    | Inr a \<Rightarrow> add_listen_event k (set_local_addr a ctx) es)))"

text \<open>The socket options of the UDP listener, in order: the first error.\<close>

definition udp_socket_options :: "dl_calls \<Rightarrow> route \<Rightarrow> unit result" where
  "udp_socket_options k r =
     (if broadcast_reply (opts r) \<noteq> BROADCAST_REPLY_OFF \<and> ep_kind (listen r) \<noteq> ENDPOINT_INET then Inl EINVAL
      else if broadcast_reply (opts r) \<noteq> BROADCAST_REPLY_OFF \<and> dl_set_broadcast k \<noteq> None
      then Inl (the (dl_set_broadcast k))
      else if ep_kind (listen r) = ENDPOINT_INET6 \<and> dl_set_v6only k \<noteq> None then Inl (the (dl_set_v6only k))
      else if isl (dl_nonblocking k) then Inl EINVAL
      else case dl_set_reuseaddr k of Some err \<Rightarrow> Inl err | None \<Rightarrow> Inr ())"

definition bind_udp_datagram_listener :: "dl_calls \<Rightarrow> route \<Rightarrow> datagram_route_ctx \<Rightarrow> dl_result option" where
  "bind_udp_datagram_listener k r ctx =
     (case endpoint_to_sockaddr (dl_pton4 k) (dl_pton6 k) (listen r) of
        Inl rc \<Rightarrow> Some (Inl rc, ctx, [])
      | Inr _ \<Rightarrow>
          if ep_kind (listen r) \<noteq> ENDPOINT_INET \<and> ep_kind (listen r) \<noteq> ENDPOINT_INET6 then Some (Inl EINVAL, ctx, [])
          else case dl_socket k of
            Inl err \<Rightarrow> Some (Inl err, ctx\<lparr>dg_listen_fd := EVUTIL_INVALID_SOCKET\<rparr>, [])
          | Inr fd \<Rightarrow>
              let ctx = ctx\<lparr>dg_listen_fd := fd\<rparr>; es = [Acquire (R_fd fd)] in
              (case udp_socket_options k r of
                 Inl err \<Rightarrow> Some (Inl err, ctx, es)
               | Inr _ \<Rightarrow>
                   (case bind_with_wait (dl_bind k) r of
                      None \<Rightarrow> None
                    | Some (Inl rc, _) \<Rightarrow> Some (Inl rc, ctx, es)
                    | Some (Inr _, _) \<Rightarrow>
                        (case dl_getsockname k of
                           Inl err \<Rightarrow> Some (Inl err, clear_local_addr ctx, es)
                         | Inr a \<Rightarrow> Some (add_listen_event k (set_local_addr a ctx) es)))))"

text \<open>\<^verbatim>\<open>bind_datagram_listener\<close>; the context's route is not null.\<close>

definition bind_datagram_listener :: "dl_calls \<Rightarrow> datagram_route_ctx \<Rightarrow> dl_result option" where
  "bind_datagram_listener k ctx = do {
     r \<leftarrow> dg_route ctx;
     (case ep_kind (listen r) of
        ENDPOINT_INET \<Rightarrow> bind_udp_datagram_listener k r ctx
      | ENDPOINT_INET6 \<Rightarrow> bind_udp_datagram_listener k r ctx
      | ENDPOINT_UNIX_DGRAM \<Rightarrow> Some (bind_unix_datagram_listener k r ctx)
      | _ \<Rightarrow> Some (Inl ENOTSUP, ctx, [])) }"

section \<open>The table of clients under packets\<close>

text \<open>
  What a packet means on the table: idle clients go, the sender's client is found and stamped or made, and
  the payload is sent on its socket.
\<close>

definition stamp_entry :: "int \<Rightarrow> addr \<Rightarrow> client_entry list \<Rightarrow> client_entry list" where
  "stamp_entry now a = map (\<lambda>(b, x). (b, if b = a then x\<lparr>dc_last_seen := now\<rparr> else x))"

definition spec_handle ::
  "packet_calls \<Rightarrow> 32 word \<Rightarrow> route \<Rightarrow> datagram_route_ctx \<Rightarrow> worker_datagram_packet_msg \<Rightarrow> byte list \<Rightarrow>
   client_entry list \<Rightarrow> unit result \<times> dg_send list \<times> client_entry list" where
  "spec_handle k w r ctx pkt bytes es =
     (let sa = dp_peer_addr pkt; len = dp_peer_addr_len pkt;
          sent = send_datagram_payload_to_upstream (pk_send k) ctx r in
      case List.find (\<lambda>e. client_key (snd e) = addr_key sa len) es of
        Some (a, x) \<Rightarrow> (fst (sent x bytes), snd (sent x bytes), stamp_entry (pk_time k) a es)
      | None \<Rightarrow>
          (case new_entry (pk_client k) (pk_calloc k) w r sa len of
             None \<Rightarrow> (Inl ENOMEM, [], es)
           | Some (a, x) \<Rightarrow> (fst (sent x bytes), snd (sent x bytes), (a, x\<lparr>dc_last_seen := pk_time k\<rparr>) # es)))"

lemma send_to_upstream_cong [simp]:
  "send_datagram_payload_to_upstream send (ctx\<lparr>dg_clients := p\<rparr>) r x bytes =
     send_datagram_payload_to_upstream send ctx r x bytes"
  "send_datagram_payload_to_upstream send ctx r (x\<lparr>dc_last_seen := t\<rparr>) bytes =
     send_datagram_payload_to_upstream send ctx r x bytes"
  "send_datagram_payload_to_upstream send ctx r (x\<lparr>dc_next := q\<rparr>) bytes =
     send_datagram_payload_to_upstream send ctx r x bytes"
  by (simp_all add: send_datagram_payload_to_upstream_def cong: option.case_cong sum.case_cong if_cong)

lemma stamp_entry_other: "a \<notin> fst ` set es \<Longrightarrow> stamp_entry now a es = es"
  by (induction es) (auto simp: stamp_entry_def)

lemma fst_stamp_entry [simp]: "map fst (stamp_entry now a es) = map fst es"
  by (auto simp: stamp_entry_def)

lemma keys_stamp_entry: "map (client_key \<circ> snd) (stamp_entry now a es) = map (client_key \<circ> snd) es"
  by (auto simp: stamp_entry_def client_key_def)

lemma handle_found:
  assumes "table (ctx, st) es" and "(a, x) \<in> set es"
  shows "\<exists>st' y. touch_client now a st = Some st' \<and> table (ctx, st') (stamp_entry now a es) \<and>
    ds_clients st' a = Some y \<and> (\<exists>q. y = x\<lparr>dc_last_seen := now, dc_next := q\<rparr>)"
proof -
  obtain st' where st': "touch_client now a st = Some st'" "table (ctx, st') (stamp_entry now a es)"
    using touch_table [OF assms(1), of a now] assms(2) by (force simp: stamp_entry_def)
  have "(a, x\<lparr>dc_last_seen := now\<rparr>) \<in> set (stamp_entry now a es)" using assms(2) by (force simp: stamp_entry_def)
  then obtain q where "ds_clients st' a = Some (x\<lparr>dc_last_seen := now, dc_next := q\<rparr>)"
    using table_heap_entry [of ctx st' "stamp_entry now a es"] st'(2) by (metis table_def fst_conv snd_conv)
  with st' show ?thesis by blast
qed

lemma handle_packet_table:
  assumes "table (ctx, st) es" and "dg_route ctx = Some r" and "ep_kind (upstream r) \<noteq> ENDPOINT_BUILTIN"
    and "calls_fresh (pk_client k) (pk_calloc k) ctx es"
  shows "\<exists>p st'. datagram_route_handle_packet k w pkt bytes ctx st =
      Some (fst (spec_handle k w r ctx pkt bytes es), fst (snd (spec_handle k w r ctx pkt bytes es)),
        ctx\<lparr>dg_clients := p\<rparr>, st') \<and>
    table (ctx\<lparr>dg_clients := p\<rparr>, st') (snd (snd (spec_handle k w r ctx pkt bytes es)))"
proof -
  let ?sa = "dp_peer_addr pkt" and ?len = "dp_peer_addr_len pkt" and ?now = "pk_time k"
  let ?find = "List.find (\<lambda>e. client_key (snd e) = addr_key ?sa ?len) es"
  have find: "find_datagram_client ctx st ?sa ?len = Some (map_option fst ?find)"
    using find_datagram_client_table [OF assms(1)] by simp
  show ?thesis
  proof (cases ?find)
    case (Some e)
    obtain a x where e: "e = (a, x)" by (cases e)
    then have "(a, x) \<in> set es" using Some by (auto simp: find_Some_iff in_set_conv_nth)
    from handle_found [OF assms(1) this, of ?now] obtain st' q where
      st': "touch_client ?now a st = Some st'" "table (ctx, st') (stamp_entry ?now a es)"
        "ds_clients st' a = Some (x\<lparr>dc_last_seen := ?now, dc_next := q\<rparr>)" by blast
    then show ?thesis using assms(2,3) find Some e
      by (intro exI [of _ "dg_clients ctx"] exI [of _ st'])
        (simp add: datagram_route_handle_packet_def datagram_route_get_or_create_client_def spec_handle_def Let_def
          case_prod_beta)
  next
    case None
    let ?new = "new_entry (pk_client k) (pk_calloc k) w r ?sa ?len"
    obtain p st1 where c: "create_datagram_client (pk_client k) (pk_calloc k) w ?sa ?len ctx st =
        Some (map_option fst ?new, ctx\<lparr>dg_clients := p\<rparr>, st1)"
      "table (ctx\<lparr>dg_clients := p\<rparr>, st1) (case ?new of None \<Rightarrow> es | Some e \<Rightarrow> e # es)"
      using create_table [OF assms(1,2,4)] by blast
    show ?thesis
    proof (cases ?new)
      case new: None
      then show ?thesis using assms(2,3) find None c
        by (intro exI [of _ p] exI [of _ st1])
          (simp add: datagram_route_handle_packet_def datagram_route_get_or_create_client_def spec_handle_def Let_def)
    next
      case new: (Some e)
      obtain a x where e: "e = (a, x)" by (cases e)
      have t: "table (ctx\<lparr>dg_clients := p\<rparr>, st1) ((a, x) # es)" using c(2) new e by simp
      then have "a \<notin> fst ` set es" by (simp add: table_def table_heap_def)
      then have stamp: "stamp_entry ?now a ((a, x) # es) = (a, x\<lparr>dc_last_seen := ?now\<rparr>) # es"
        using stamp_entry_other [of a es ?now] by (simp add: stamp_entry_def)
      from handle_found [OF t, of a x ?now] stamp obtain st' q where
        st': "touch_client ?now a st1 = Some st'" "table (ctx\<lparr>dg_clients := p\<rparr>, st') ((a, x\<lparr>dc_last_seen := ?now\<rparr>) # es)"
          "ds_clients st' a = Some (x\<lparr>dc_last_seen := ?now, dc_next := q\<rparr>)" by auto
      then show ?thesis using assms(2,3) find None c(1) new e
        by (intro exI [of _ p] exI [of _ st'])
          (simp add: datagram_route_handle_packet_def datagram_route_get_or_create_client_def spec_handle_def Let_def
            case_prod_beta)
    qed
  qed
qed

lemma new_entry_fields:
  assumes "new_entry k calloc base r sa len = Some (a, x)"
  shows "calloc = Some a" "client_key x = addr_key sa len" "dc_ev x = Some base" "gc_socket k = Inr (dc_fd x)"
proof -
  show c: "calloc = Some a" using assms by (auto simp: new_entry_def split: option.splits prod.splits if_splits)
  obtain rc y es us where con: "connect_datagram_upstream k a (upstream r) (fresh_client k sa len) = (rc, y, es, us)"
    by (rule prod_cases4)
  with assms c have x: "x = y\<lparr>dc_ev := Some base\<rparr>" "rc = Inr ()" by (auto simp: new_entry_def split: if_splits)
  have "connect_outcome k (fresh_client k sa len) (rc, y, es, us)"
    using connect_outcome [of "fresh_client k sa len" k a "upstream r"] con by (simp add: fresh_client_def)
  then have y: "y = (fresh_client k sa len)\<lparr>dc_fd := dc_fd y, dc_unix_local_path := dc_unix_local_path y\<rparr>"
    and fd: "gc_socket k = Inr (dc_fd y)" using x(2) by (auto simp: connect_outcome_def)
  show "dc_ev x = Some base" "gc_socket k = Inr (dc_fd x)" using x(1) fd by simp_all
  show "client_key x = addr_key sa len"
    unfolding x(1) by (subst y) (simp add: client_key_def fresh_client_def)
qed

definition unique_keys :: "client_entry list \<Rightarrow> bool" where
  "unique_keys es \<longleftrightarrow> distinct (map (client_key \<circ> snd) es)"

lemma spec_handle_unique:
  assumes "unique_keys es"
  shows "unique_keys (snd (snd (spec_handle k w r ctx pkt bytes es)))"
proof (cases "List.find (\<lambda>e. client_key (snd e) = addr_key (dp_peer_addr pkt) (dp_peer_addr_len pkt)) es")
  case None
  then have "addr_key (dp_peer_addr pkt) (dp_peer_addr_len pkt) \<notin> set (map (client_key \<circ> snd) es)"
    by (simp add: find_None_iff) force
  moreover have "client_key (x\<lparr>dc_last_seen := t\<rparr>) = client_key x" for x t by (simp add: client_key_def)
  ultimately show ?thesis using None assms new_entry_fields(2)
    by (auto simp: spec_handle_def Let_def unique_keys_def split: option.split)
next
  case (Some e)
  then show ?thesis using assms
    by (cases e) (simp add: spec_handle_def Let_def unique_keys_def keys_stamp_entry)
qed

text \<open>The two calls of \<^verbatim>\<open>worker_process_msg\<close> for a datagram, in order.\<close>

definition process_packet ::
  "packet_calls \<Rightarrow> 32 word \<Rightarrow> worker_datagram_packet_msg \<Rightarrow> byte list \<Rightarrow> datagram_route_ctx \<Rightarrow> dstore \<Rightarrow>
   (unit result \<times> dg_send list \<times> datagram_route_ctx \<times> dstore) option" where
  "process_packet k w pkt bytes ctx st = do {
     (ctx, st) \<leftarrow> cleanup_idle_datagram_clients (pk_cleanup_time k) ctx st;
     datagram_route_handle_packet k w pkt bytes ctx st }"

definition spec_packet ::
  "packet_calls \<Rightarrow> 32 word \<Rightarrow> route \<Rightarrow> datagram_route_ctx \<Rightarrow> worker_datagram_packet_msg \<Rightarrow> byte list \<Rightarrow>
   client_entry list \<Rightarrow> unit result \<times> dg_send list \<times> client_entry list" where
  "spec_packet k w r ctx pkt bytes es =
     spec_handle k w r ctx pkt bytes
       (filter (\<lambda>e. \<not> expired (pk_cleanup_time k) (idle_timeout_sec (opts r)) (snd e)) es)"

lemma calls_fresh_filter: "calls_fresh k calloc ctx es \<Longrightarrow> calls_fresh k calloc (ctx\<lparr>dg_clients := p\<rparr>) (filter P es)"
  by (auto simp: calls_fresh_def table_res_def)

lemma spec_handle_clients [simp]: "spec_handle k w r (ctx\<lparr>dg_clients := p\<rparr>) pkt bytes es = spec_handle k w r ctx pkt bytes es"
  by (simp add: spec_handle_def Let_def split: option.split)

lemma process_packet_table:
  assumes "table (ctx, st) es" and "unique_keys es" and "dg_route ctx = Some r" and "ep_kind (upstream r) \<noteq> ENDPOINT_BUILTIN"
    and "calls_fresh (pk_client k) (pk_calloc k) ctx es"
  shows "\<exists>p st' rc out es'. spec_packet k w r ctx pkt bytes es = (rc, out, es') \<and>
    process_packet k w pkt bytes ctx st = Some (rc, out, ctx\<lparr>dg_clients := p\<rparr>, st') \<and>
    table (ctx\<lparr>dg_clients := p\<rparr>, st') es' \<and> unique_keys es'"
proof -
  let ?es = "filter (\<lambda>e. \<not> expired (pk_cleanup_time k) (idle_timeout_sec (opts r)) (snd e)) es"
  obtain p st1 where c: "cleanup_idle_datagram_clients (pk_cleanup_time k) ctx st = Some (ctx\<lparr>dg_clients := p\<rparr>, st1)"
    "table (ctx\<lparr>dg_clients := p\<rparr>, st1) ?es"
    using cleanup_table [OF assms(1,3)] by blast
  have "unique_keys ?es" using assms(2) by (simp add: unique_keys_def distinct_map_filter)
  with handle_packet_table [OF c(2) _ assms(4) calls_fresh_filter [OF assms(5)], of w pkt bytes] assms(3)
    spec_handle_unique [of ?es k w r ctx pkt bytes] c(1) show ?thesis
    by (cases "spec_packet k w r ctx pkt bytes es") (auto simp: process_packet_def spec_packet_def)
qed

section \<open>A received datagram is queued\<close>

definition datagram_payload :: "route \<Rightarrow> addr \<Rightarrow> sockaddr \<Rightarrow> nat \<Rightarrow> addr option \<Rightarrow> nat \<Rightarrow> worker_payload" where
  "datagram_payload r ctx_addr peer len b data_len = WORKER_MSG_DATAGRAM_PACKET
     \<lparr>dp_route = r, dp_ctx = ctx_addr, dp_peer_addr = memcpy_storage peer len, dp_peer_addr_len = len,
      dp_data = b, dp_data_len = data_len\<rparr>"

definition datagram_ok :: "datagram_route_ctx \<Rightarrow> addr option \<Rightarrow> addr option \<Rightarrow> nat \<Rightarrow> nat \<Rightarrow> bool" where
  "datagram_ok ctx calloc malloc len n \<longleftrightarrow> dg_route ctx \<noteq> None \<and> socket_is_valid (dg_listen_fd ctx) \<and>
     0 < len \<and> len \<le> SIZEOF_SS \<and> calloc \<noteq> None \<and> (0 < n \<longrightarrow> malloc \<noteq> None)"

lemma store_upd_comm: "st\<lparr>st_bufs := B, st_msgs := M\<rparr> = st\<lparr>st_msgs := M, st_bufs := B\<rparr>"
  by simp

lemma enqueue_datagram_outcome:
  assumes "queue_ok w st q" and "store_ok st q" and "\<And>a. calloc = Some a \<Longrightarrow> st_msgs st a = None"
    and "\<And>b. malloc = Some b \<Longrightarrow> st_bufs st b = None"
  obtains rc w' st' n' where
    "worker_enqueue_datagram_packet send calloc malloc w ctx_addr (dg_route ctx) (dg_listen_fd ctx) (Some peer) len
       (Some data) (length data) st n = Some (rc, w', st', n')"
    and "if datagram_ok ctx calloc malloc len (length data) \<and> \<not> w_stopping w
      then rc = Inr () \<and> queue_ok w' st' (q @ [the calloc]) \<and> store_ok st' (q @ [the calloc]) \<and>
        jobs st' (q @ [the calloc]) = jobs st q @
          [(datagram_payload (the (dg_route ctx)) ctx_addr peer len (if data = [] then None else malloc) (length data), data)]
      else rc \<noteq> Inr () \<and> queue_ok w' st' q \<and> store_ok st' q \<and> jobs st' q = jobs st q"
proof (cases "dg_route ctx \<noteq> None \<and> socket_is_valid (dg_listen_fd ctx) \<and> 0 < len \<and> len \<le> SIZEOF_SS \<and> calloc \<noteq> None")
  case False
  then show thesis
    using assms(1,2)
    by (intro that [of "Inl (if dg_route ctx \<noteq> None \<and> socket_is_valid (dg_listen_fd ctx) \<and> 0 < len \<and> len \<le> SIZEOF_SS
          then ENOMEM else EINVAL)" w st n])
      (auto simp: worker_enqueue_datagram_packet_def datagram_ok_def Let_def split: option.splits)
next
  case True
  then obtain r a where ra: "dg_route ctx = Some r" "calloc = Some a" by blast
  let ?b = "if data = [] then None else malloc"
  let ?j = "(datagram_payload r ctx_addr peer len ?b (length data), data) :: job"
  show thesis
  proof (cases "data \<noteq> [] \<and> malloc = None")
    case nomem: True
    have "a \<notin> dom (st_msgs st)" using assms(3) ra(2) by auto
    then have "(st_msgs st)(a := None) = st_msgs st" by auto
    then have "free_msg a (st\<lparr>st_msgs := (st_msgs st)(a \<mapsto> m)\<rparr>) = Some st" for m
      by (simp add: free_msg_def)
    then show thesis using True nomem ra assms(1,2)
      by (intro that [of "Inl ENOMEM" w st n]) (auto simp: worker_enqueue_datagram_packet_def datagram_ok_def Let_def)
  next
    case mem: False
    have ok: "datagram_ok ctx calloc malloc len (length data)" using True mem by (auto simp: datagram_ok_def)
    have ptr: "data_ptr (fst ?j) = ?b" by (simp add: datagram_payload_def)
    have fresh: "fresh_job a ?j st"
      using assms(3,4) ra mem ptr by (auto simp: fresh_job_def split: option.split)
    have code: "worker_enqueue_datagram_packet send calloc malloc w ctx_addr (dg_route ctx) (dg_listen_fd ctx) (Some peer) len
        (Some data) (length data) st n = worker_enqueue_msg send w a (put_job a ?j st) n"
      using True ra mem
      by (auto simp: worker_enqueue_datagram_packet_def put_job_def datagram_payload_def Let_def store_upd_comm
        split: option.splits)
    show thesis
    proof (cases "w_stopping w")
      case stopping: True
      obtain st' where "free_worker_msg a (put_job a ?j st) = Some st'" "queue_ok w st' q" "store_ok st' q"
        "jobs st' q = jobs st q" "st_trace st' = st_trace st @ fd_events (fst ?j)"
        by (rule free_put_job [OF assms(1,2) fresh])
      then show thesis using stopping code
        by (intro that [of "Inl ECANCELED" w st' n]) (simp_all add: worker_enqueue_msg_def enqueue_locked_def)
    next
      case running: False
      obtain w' st' where "worker_append w a (put_job a ?j st) = Some (w', st')" "queue_ok w' st' (q @ [a])"
        "store_ok st' (q @ [a])" "jobs st' (q @ [a]) = jobs st q @ [?j]" "st_trace st' = st_trace st"
        by (rule worker_append_seq [OF assms(1,2) fresh])
      then show thesis using running code ok ra
        by (intro that [of "Inr ()" w' st' "snd (notify_worker send n)"])
          (simp_all add: worker_enqueue_msg_def enqueue_locked_def)
    qed
  qed
qed


text \<open>
  C29. A datagram that the listening socket delivers becomes exactly one job of the worker whose turn it is: with
  the sender's address, and with exactly the bytes that were received, at the end of that worker's queue, the other workers
  unchanged. It is dropped, with the queue unchanged and no memory left behind, only when the sender has no address
  (as for an unbound Unix socket), an allocation fails, the route is not running, or the worker is stopping.
\<close>

theorem listen_read_cb_enqueues:
  assumes "pool_ok pool" and "dg_worker_pool ctx" and "i = unat (pool_next pool) mod pool_count pool"
    and "queue_ok (sl_worker (pool_slot pool i)) (sl_store (pool_slot pool i)) q" and "store_ok (sl_store (pool_slot pool i)) q"
    and "\<And>a. calloc = Some a \<Longrightarrow> st_msgs (sl_store (pool_slot pool i)) a = None"
    and "\<And>b. malloc = Some b \<Longrightarrow> st_bufs (sl_store (pool_slot pool i)) b = None" and "length data \<le> 65535"
  shows "\<exists>pool' s'. listen_read_cb send calloc malloc ctx_addr ctx pool (Inr (data, peer, len)) = Some pool' \<and>
    pool_slot pool' i = s' \<and> (\<forall>j < pool_count pool. j \<noteq> i \<longrightarrow> pool_slot pool' j = pool_slot pool j) \<and>
    (if datagram_ok ctx calloc malloc len (length data) \<and> \<not> w_stopping (sl_worker (pool_slot pool i))
     then queue_ok (sl_worker s') (sl_store s') (q @ [the calloc]) \<and> store_ok (sl_store s') (q @ [the calloc]) \<and>
       jobs (sl_store s') (q @ [the calloc]) = jobs (sl_store (pool_slot pool i)) q @
         [(datagram_payload (the (dg_route ctx)) ctx_addr peer len (if data = [] then None else malloc) (length data), data)]
     else queue_ok (sl_worker s') (sl_store s') q \<and> store_ok (sl_store s') q \<and>
       jobs (sl_store s') q = jobs (sl_store (pool_slot pool i)) q)"
proof -
  obtain ss where ss: "pool_workers pool = Some ss" "length ss = pool_count pool" "0 < pool_count pool"
    using assms(1) by (auto simp: pool_ok_def split: option.splits)
  let ?s = "pool_slot pool i" and ?pool1 = "pool\<lparr>pool_next := pool_next pool + 1\<rparr>"
  have nx: "worker_pool_next pool = (Some i, ?pool1)" using ss assms(3) by (simp add: worker_pool_next_def)
  have i: "i < length ss" using ss(2,3) assms(3) by simp
  have s1: "pool_slot ?pool1 i = ?s" by (simp add: pool_slot_def)
  have slot: "pool_slot (set_slot ?pool1 i s) i = s" "j \<noteq> i \<Longrightarrow> pool_slot (set_slot ?pool1 i s) j = pool_slot pool j" for s j
    using ss(1) i by (simp_all add: pool_slot_def set_slot_def)
  obtain rc w' st' n' where enq: "worker_enqueue_datagram_packet send calloc malloc (sl_worker ?s) ctx_addr (dg_route ctx)
      (dg_listen_fd ctx) (Some peer) len (Some data) (length data) (sl_store ?s) (sl_notify ?s) = Some (rc, w', st', n')"
    and res: "if datagram_ok ctx calloc malloc len (length data) \<and> \<not> w_stopping (sl_worker ?s)
      then rc = Inr () \<and> queue_ok w' st' (q @ [the calloc]) \<and> store_ok st' (q @ [the calloc]) \<and>
        jobs st' (q @ [the calloc]) = jobs (sl_store ?s) q @
          [(datagram_payload (the (dg_route ctx)) ctx_addr peer len (if data = [] then None else malloc) (length data), data)]
      else rc \<noteq> Inr () \<and> queue_ok w' st' q \<and> store_ok st' q \<and> jobs st' q = jobs (sl_store ?s) q"
    by (rule enqueue_datagram_outcome [OF assms(4-7)])
  have "listen_read_cb send calloc malloc ctx_addr ctx pool (Inr (data, peer, len)) =
      Some (set_slot ?pool1 i \<lparr>sl_worker = w', sl_store = st', sl_notify = n'\<rparr>)"
    using assms(2,8) enq by (simp add: listen_read_cb_def dispatch_datagram_packet_def nx s1)
  then show ?thesis using res by (intro exI conjI) (auto simp: slot)
qed

definition example_pool :: worker_pool where
  "example_pool = \<lparr>pool_workers = Some [\<lparr>sl_worker = worker_zero, sl_store = store_empty, sl_notify = 0\<rparr>],
     pool_count = 1, pool_next = 0\<rparr>"

theorem listen_read_cb_enqueues_witness:
  "\<exists>pool'. listen_read_cb (\<lambda>_. None) (Some 1) (Some 2) 3 (example_ctx route_zero) example_pool
       (Inr ([7, 8], mk_sin 9 [10, 0, 0, 1], 16)) = Some pool' \<and>
     jobs (sl_store (pool_slot pool' 0)) [1] = [(datagram_payload route_zero 3 (mk_sin 9 [10, 0, 0, 1]) 16 (Some 2) 2, [7, 8])]"
proof -
  let ?s = "pool_slot example_pool 0" and ?ctx = "example_ctx route_zero"
  have s: "pool_ok example_pool" "dg_worker_pool ?ctx" "0 = unat (pool_next example_pool) mod pool_count example_pool"
    "queue_ok (sl_worker ?s) (sl_store ?s) []" "store_ok (sl_store ?s) []"
    "\<And>a. Some 1 = Some a \<Longrightarrow> st_msgs (sl_store ?s) a = None" "\<And>b. Some 2 = Some b \<Longrightarrow> st_bufs (sl_store ?s) b = None"
    "length [7, 8 :: byte] \<le> 65535" "\<not> w_stopping (sl_worker ?s)"
    by (simp_all add: pool_ok_def example_pool_def example_ctx_def pool_slot_def queue_ok_def store_ok_def worker_zero_def
      store_empty_def)
  have "datagram_ok ?ctx (Some 1) (Some 2) 16 (length [7, 8 :: byte])"
    by (simp add: datagram_ok_def example_ctx_def socket_is_valid_def EVUTIL_INVALID_SOCKET_def SIZEOF_SS_def)
  with s(9) listen_read_cb_enqueues [where send = "\<lambda>_. None" and ctx_addr = 3 and peer = "mk_sin 9 [10, 0, 0, 1]" and
      len = 16 and calloc = "Some 1" and malloc = "Some 2", OF s(1-8)] show ?thesis
    by (auto simp: example_ctx_def numeral_2_eq_2)
qed

end
