(* ===== verification/Datagram_Route.thy ===== *)
theory Datagram_Route
  imports Datagram_Listener
begin

text \<open>
  Start, stop and release of a datagram route (\<^verbatim>\<open>src/datagram_route.c\<close>, \<^verbatim>\<open>src/datagram_route.h\<close>).
  The theorems follow the resources of a route: its sockets, its events, its mutex and its clients.
\<close>

section \<open>Starting\<close>

text \<open>
  The context after \<^verbatim>\<open>memset(ctx, 0, sizeof(*ctx))\<close>, and after the assignment of the invalid
  socket to \<^verbatim>\<open>listen_fd\<close> that follows it.
\<close>

definition datagram_ctx_zero :: datagram_route_ctx where
  "datagram_ctx_zero = \<lparr>dg_worker_pool = False, dg_route = None, dg_listen_fd = 0, dg_listen_ev = False,
     dg_local_addr = replicate SIZEOF_SS 0, dg_local_addr_len = 0, dg_clients = None, dg_raw_fd = 0\<rparr>"

definition datagram_ctx_cleared :: datagram_route_ctx where
  "datagram_ctx_cleared = datagram_ctx_zero\<lparr>dg_listen_fd := EVUTIL_INVALID_SOCKET\<rparr>"

record dr_calls =
  dr_raw_socket :: "int result"
  dr_raw_hdrincl :: "errno option"
  dr_mutex_init :: "errno option"
  dr_mkdir :: "errno option"
  dr_listen :: dl_calls
  dr_lstat :: "string \<Rightarrow> bool option"

definition prepare_datagram_route :: "errno option \<Rightarrow> route \<Rightarrow> unit result" where
  "prepare_datagram_route mkdir r =
     (if ep_kind (upstream r) = ENDPOINT_UNIX_DGRAM
      then (case mkdir of None \<Rightarrow> Inr () | Some e \<Rightarrow> if e \<noteq> EEXIST then Inl e else Inr ())
      else Inr ())"

section \<open>Stopping and releasing\<close>

text \<open>
  \<^verbatim>\<open>stop_unix_datagram_route\<close>: the path that is removed. \<open>lstat\<close> tells whether the path exists and then
  whether it is a socket.
\<close>

definition stop_unix_datagram_route :: "(string \<Rightarrow> bool option) \<Rightarrow> datagram_route_ctx \<Rightarrow> string list" where
  "stop_unix_datagram_route lstat ctx =
     (case dg_route ctx of
        None \<Rightarrow> []
      | Some r \<Rightarrow>
          if ep_kind (listen r) \<noteq> ENDPOINT_UNIX_DGRAM then []
          else if ep_path (listen r) = [] then []
          else (case lstat (ep_path (listen r)) of
             None \<Rightarrow> []
           | Some is_socket \<Rightarrow> if \<not> is_socket then [] else [ep_path (listen r)]))"

text \<open>\<^verbatim>\<open>stop_datagram_route_listener\<close> leaves the socket open, since workers still send on it.\<close>

definition stop_datagram_route_listener ::
  "datagram_route_ctx \<Rightarrow> dstore \<Rightarrow> datagram_route_ctx \<times> dstore" where
  "stop_datagram_route_listener ctx st =
     (if dg_listen_ev ctx then (ctx\<lparr>dg_listen_ev := False\<rparr>, log_ds [Release R_listen_event] [] st) else (ctx, st))"

partial_function (option) free_clients_loop ::
  "datagram_route_ctx \<Rightarrow> dstore \<Rightarrow> (datagram_route_ctx \<times> dstore) option" where
  "free_clients_loop ctx st =
     (case dg_clients ctx of
        None \<Rightarrow> Some (ctx, st)
      | Some c \<Rightarrow> do {
          x \<leftarrow> ds_clients st c;
          st \<leftarrow> free_datagram_client (Some c) (put_client c (x\<lparr>dc_next := None\<rparr>) st);
          free_clients_loop (ctx\<lparr>dg_clients := dc_next x\<rparr>) st })"

text \<open>What \<^verbatim>\<open>free_datagram_route\<close> releases after the clients, in order.\<close>

definition ctx_releases :: "datagram_route_ctx \<Rightarrow> resource list" where
  "ctx_releases ctx =
     (if socket_is_valid (dg_raw_fd ctx) then [R_fd (dg_raw_fd ctx)] else []) @
     (if dg_listen_ev ctx then [R_listen_event] else []) @
     (if dg_listen_fd ctx \<noteq> EVUTIL_INVALID_SOCKET then [R_fd (dg_listen_fd ctx)] else []) @
     [R_clients_mu]"

definition free_datagram_route ::
  "(string \<Rightarrow> bool option) \<Rightarrow> datagram_route_ctx \<Rightarrow> dstore \<Rightarrow> (datagram_route_ctx \<times> dstore) option" where
  "free_datagram_route lstat ctx st = do {
     (ctx, st) \<leftarrow> free_clients_loop ctx st;
     Some (datagram_ctx_cleared,
       log_ds (map Release (ctx_releases ctx)) (stop_unix_datagram_route lstat ctx) st) }"

section \<open>Starting a route\<close>

text \<open>The parts of \<^verbatim>\<open>start_datagram_route\<close>: the raw socket, and everything after the mutex.\<close>

definition open_raw :: "dr_calls \<Rightarrow> route \<Rightarrow> int result \<times> res_event list" where
  "open_raw k r =
     (if broadcast_reply (opts r) = BROADCAST_REPLY_UPSTREAM then
        (case datagram_raw_open_ipv4 (dr_raw_socket k) (dr_raw_hdrincl k) True of
           (Inl e, closed) \<Rightarrow> (Inl e, concat (map (\<lambda>fd. [Acquire (R_fd fd), Release (R_fd fd)]) closed))
         | (Inr fd, _) \<Rightarrow> (Inr fd, [Acquire (R_fd fd)]))
      else (Inr EVUTIL_INVALID_SOCKET, []))"

definition start_with_mutex ::
  "dr_calls \<Rightarrow> route \<Rightarrow> datagram_route_ctx \<Rightarrow> dstore \<Rightarrow> (unit result \<times> datagram_route_ctx \<times> dstore) option" where
  "start_with_mutex k r ctx st =
     (let failed = (\<lambda>rc ctx st. map_option (\<lambda>(ctx, st). (Inl rc, ctx, st)) (free_datagram_route (dr_lstat k) ctx st)) in
      case prepare_datagram_route (dr_mkdir k) r of
        Inl rc \<Rightarrow> failed rc ctx st
      | Inr _ \<Rightarrow>
          (case bind_datagram_listener (dr_listen k) ctx of
             None \<Rightarrow> None
           | Some (rc, ctx, es) \<Rightarrow>
               let st = log_ds es [] st in
               (case rc of Inl e \<Rightarrow> failed e ctx st | Inr _ \<Rightarrow> Some (Inr (), ctx, st))))"

definition start_datagram_route ::
  "dr_calls \<Rightarrow> bool \<Rightarrow> route \<Rightarrow> dstore \<Rightarrow> (unit result \<times> datagram_route_ctx \<times> dstore) option" where
  "start_datagram_route k wpool r st =
     (let ctx = datagram_ctx_zero\<lparr>dg_worker_pool := wpool, dg_route := Some r, dg_listen_fd := EVUTIL_INVALID_SOCKET,
            dg_raw_fd := EVUTIL_INVALID_SOCKET\<rparr> in
      case open_raw k r of
        (Inl rc, es) \<Rightarrow> Some (Inl rc, ctx, log_ds es [] st)
      | (Inr fd, es) \<Rightarrow>
          let ctx = ctx\<lparr>dg_raw_fd := fd\<rparr>; st = log_ds es [] st in
          (case dr_mutex_init k of
             Some rc \<Rightarrow> Some (Inl rc, datagram_ctx_cleared, st)
           | None \<Rightarrow> start_with_mutex k r ctx (log_ds [Acquire R_clients_mu] [] st)))"

section \<open>Releasing a route\<close>

lemma free_clients_loop_ok:
  assumes "table_heap ctx st es" and "holds (ds_trace st) (concat (map client_res es) @ rs)"
  shows "\<exists>st'. free_clients_loop ctx st = Some (ctx\<lparr>dg_clients := None\<rparr>, st') \<and> ds_clients st' = Map.empty \<and>
    holds (ds_trace st') rs"
  using assms
proof (induction es arbitrary: ctx st)
  case Nil
  then have "dg_clients ctx = None" "ds_clients st = Map.empty" by (auto simp: table_heap_def)
  moreover from this(1) have "ctx\<lparr>dg_clients := None\<rparr> = ctx" by simp
  ultimately show ?case using Nil.prems(2) by (auto simp: free_clients_loop.simps)
next
  case (Cons e es)
  obtain c y where e: "e = (c, y)" by (cases e)
  obtain x where x: "dg_clients ctx = Some c" "ds_clients st c = Some x" "linked (links st) (dc_next x) (map fst es)"
    "y = x\<lparr>dc_next := None\<rparr>"
    using Cons.prems(1) e by (auto simp: table_heap_def links_def [of st c] entry_def split: option.splits)
  have c: "c \<notin> fst ` set es" "distinct (map fst es)" "es = map (entry st \<circ> fst) es" "dom (ds_clients st) = insert c (fst ` set es)"
    using Cons.prems(1) e by (simp_all add: table_heap_def)
  let ?st = "put_client c y st"
  obtain st1 where st1: "free_datagram_client (Some c) ?st = Some st1" "ds_clients st1 = (ds_clients ?st)(c := None)"
    "ds_trace st1 = ds_trace ?st @ map Release (client_res (c, y))"
    using free_datagram_client_live [of ?st c y] by (auto simp: put_client_def)
  have same: "ds_clients st1 a = ds_clients st a" if "a \<in> fst ` set es" for a
    using that c(1) st1(2) by (auto simp: put_client_def)
  have "linked (links st1) (dc_next x) (map fst es)"
    using x(3) linked_frame [of "map fst es" "links st1" "links st"] same by (simp add: links_def)
  moreover have "map (entry st1 \<circ> fst) es = map (entry st \<circ> fst) es" using same by (auto simp: entry_def)
  moreover have "dom (ds_clients st1) = fst ` set es" using st1(2) c(1,4) by (auto simp: put_client_def)
  ultimately have "table_heap (ctx\<lparr>dg_clients := dc_next x\<rparr>) st1 es"
    using c(2,3) by (simp add: table_heap_def del: map_eq_conv)
  moreover have "holds (ds_trace st1) (concat (map client_res es) @ rs)"
    using holds_releases [OF Cons.prems(2), of "client_res e" "concat (map client_res es) @ rs"] st1(3) e
    by (simp add: put_client_def)
  ultimately obtain st' where "free_clients_loop (ctx\<lparr>dg_clients := dc_next x\<rparr>) st1 = Some (ctx\<lparr>dg_clients := None\<rparr>, st')"
    "ds_clients st' = Map.empty" "holds (ds_trace st') rs"
    using Cons.IH [of "ctx\<lparr>dg_clients := dc_next x\<rparr>" st1] by auto
  with st1(1) x show ?case by (subst free_clients_loop.simps) simp
qed

lemma ctx_releases_mset: "mset (ctx_releases ctx) = mset (ctx_res ctx)"
  by (simp add: ctx_releases_def ctx_res_def socket_is_valid_def)

lemma free_datagram_route_ok:
  assumes "table (ctx, st) es"
  shows "\<exists>st'. free_datagram_route lstat ctx st = Some (datagram_ctx_cleared, st') \<and> ds_clients st' = Map.empty \<and>
    ledger [] (ds_trace st') = Some []"
proof -
  have h: "table_heap ctx st es" "holds (ds_trace st) (table_res ctx es)" using assms by (simp_all add: table_def)
  have "holds (ds_trace st) (concat (map client_res es) @ ctx_res ctx)"
    using h(2) by (rule holds_perm) (simp add: table_res_def)
  from free_clients_loop_ok [OF h(1) this] obtain st' where
    st': "free_clients_loop ctx st = Some (ctx\<lparr>dg_clients := None\<rparr>, st')" "ds_clients st' = Map.empty"
      "holds (ds_trace st') (ctx_res ctx)" by blast
  let ?ctx = "ctx\<lparr>dg_clients := None\<rparr>"
  have "ledger [] (ds_trace st' @ map Release (ctx_releases ?ctx)) = Some []"
    using st'(3) by (intro holds_release_all [where rs = "ctx_res ctx"]) (simp_all add: ctx_releases_mset)
  with st'(1,2) show ?thesis by (simp add: free_datagram_route_def log_ds_def)
qed

section \<open>What a start leaves\<close>

definition listen_outcome :: "dl_calls \<Rightarrow> datagram_route_ctx \<Rightarrow> dl_result \<Rightarrow> bool" where
  "listen_outcome k ctx res = (case res of (rc, ctx', es) \<Rightarrow>
     dg_raw_fd ctx' = dg_raw_fd ctx \<and> dg_clients ctx' = dg_clients ctx \<and> dg_route ctx' = dg_route ctx \<and>
     (rc \<noteq> Inr () \<and> es = [] \<and> dg_listen_fd ctx' = EVUTIL_INVALID_SOCKET \<and> \<not> dg_listen_ev ctx' \<or>
      (\<exists>fd. dl_socket k = Inr fd \<and> dg_listen_fd ctx' = fd \<and>
        (rc \<noteq> Inr () \<and> es = [Acquire (R_fd fd)] \<and> \<not> dg_listen_ev ctx' \<or>
         es = [Acquire (R_fd fd), Acquire R_listen_event] \<and> dg_listen_ev ctx'))))"

lemma bind_listener_outcome:
  assumes "dg_route ctx = Some r" and "dg_listen_fd ctx = EVUTIL_INVALID_SOCKET" and "\<not> dg_listen_ev ctx"
    and "0 \<le> bind_wait_sec (opts r)" and "bind_wait_sec (opts r) \<le> 2147483"
  shows "\<exists>res. bind_datagram_listener k ctx = Some res \<and> listen_outcome k ctx res"
proof -
  obtain rc w n where b: "bind_with_wait (dl_bind k) r = Some (rc, w, n)"
    using bind_with_wait_total [OF assms(4,5)] by blast
  have "listen_outcome k ctx (bind_unix_datagram_listener k r ctx)"
    using assms(2,3)
    by (auto simp: bind_unix_datagram_listener_def Let_def listen_outcome_def clear_local_addr_def set_local_addr_def
      add_listen_event_def split: sum.split option.split)
  moreover have "\<exists>res. bind_udp_datagram_listener k r ctx = Some res \<and> listen_outcome k ctx res"
    using assms(2,3) b
    by (auto simp: bind_udp_datagram_listener_def Let_def listen_outcome_def clear_local_addr_def set_local_addr_def
      add_listen_event_def split: sum.split option.split)
  moreover have "listen_outcome k ctx (Inl ENOTSUP, ctx, [])" using assms(2,3) by (simp add: listen_outcome_def)
  ultimately show ?thesis using assms(1) by (cases "ep_kind (listen r)") (auto simp: bind_datagram_listener_def)
qed

lemma listen_outcome_table:
  assumes "listen_outcome k ctx (rc, ctx', es)" and "table (ctx, st) []" and "dg_listen_fd ctx = EVUTIL_INVALID_SOCKET"
    and "\<not> dg_listen_ev ctx" and "\<And>fd. dl_socket k = Inr fd \<Longrightarrow> socket_is_valid fd \<and> fd \<noteq> dg_raw_fd ctx"
  shows "table (ctx', log_ds es [] st) []"
proof -
  have h: "table_heap ctx st []" "holds (ds_trace st) (ctx_res ctx)" using assms(2) by (simp_all add: table_def table_res_def)
  have heap: "table_heap ctx' (log_ds es [] st) []"
    using h(1) assms(1) by (auto simp: table_heap_def log_ds_def listen_outcome_def)
  have raw: "dg_raw_fd ctx' = dg_raw_fd ctx" using assms(1) by (auto simp: listen_outcome_def)
  have "holds (ds_trace st @ es) (ctx_res ctx')"
  proof (cases "es = []")
    case True
    with assms(1) have "ctx_res ctx' = ctx_res ctx" using assms(3,4) by (auto simp: listen_outcome_def ctx_res_def)
    with True h(2) show ?thesis by simp
  next
    case False
    with assms(1) obtain fd where fd: "dl_socket k = Inr fd" "dg_listen_fd ctx' = fd"
      and es: "es = [Acquire (R_fd fd)] \<and> \<not> dg_listen_ev ctx' \<or> es = [Acquire (R_fd fd), Acquire R_listen_event] \<and> dg_listen_ev ctx'"
      by (auto simp: listen_outcome_def)
    have v: "fd \<noteq> EVUTIL_INVALID_SOCKET" "fd \<noteq> dg_raw_fd ctx" using assms(5) [OF fd(1)] by (auto simp: socket_is_valid_def)
    have one: "holds (ds_trace st @ [Acquire (R_fd fd)]) (R_fd fd # ctx_res ctx)"
      using v assms(3,4) by (intro holds_acquire [OF h(2)]) (simp add: ctx_res_def)
    have two: "holds ((ds_trace st @ [Acquire (R_fd fd)]) @ [Acquire R_listen_event]) (R_listen_event # R_fd fd # ctx_res ctx)"
      using assms(3,4) by (intro holds_acquire [OF one]) (simp add: ctx_res_def)
    show ?thesis using es
    proof
      assume "es = [Acquire (R_fd fd)] \<and> \<not> dg_listen_ev ctx'"
      with one v fd(2) raw assms(3,4) show ?thesis by (auto intro: holds_perm simp: ctx_res_def)
    next
      assume "es = [Acquire (R_fd fd), Acquire R_listen_event] \<and> dg_listen_ev ctx'"
      with two v fd(2) raw assms(3,4) show ?thesis by (auto intro: holds_perm simp: ctx_res_def)
    qed
  qed
  with heap show ?thesis by (simp add: table_def table_res_def log_ds_def)
qed

definition dstore_empty :: dstore where
  "dstore_empty = \<lparr>ds_clients = Map.empty, ds_trace = [], ds_unlinked = []\<rparr>"

text \<open>The kernel gives out valid sockets, and not the same twice.\<close>

definition dr_calls_ok :: "dr_calls \<Rightarrow> bool" where
  "dr_calls_ok k \<longleftrightarrow> (case dr_raw_socket k of Inl _ \<Rightarrow> True | Inr fd \<Rightarrow> socket_is_valid fd) \<and>
     (case dl_socket (dr_listen k) of Inl _ \<Rightarrow> True | Inr fd \<Rightarrow> socket_is_valid fd \<and> dr_raw_socket k \<noteq> Inr fd)"

lemma open_raw_outcome:
  assumes "dr_calls_ok k" and "open_raw k r = (res, es)"
  shows "case res of
      Inl _ \<Rightarrow> ledger [] es = Some []
    | Inr fd \<Rightarrow> ledger [] es = Some (if socket_is_valid fd then [R_fd fd] else []) \<and>
        (socket_is_valid fd \<longleftrightarrow> broadcast_reply (opts r) = BROADCAST_REPLY_UPSTREAM) \<and>
        (socket_is_valid fd \<longrightarrow> dr_raw_socket k = Inr fd)"
proof (cases "broadcast_reply (opts r) = BROADCAST_REPLY_UPSTREAM")
  case up: True
  show ?thesis
  proof (cases "dr_raw_socket k")
    case (Inl e)
    then have "open_raw k r = (Inl e, [])" using up by (simp add: open_raw_def datagram_raw_open_ipv4_def)
    with assms(2) show ?thesis by auto
  next
    case (Inr fd)
    then have "open_raw k r = (case dr_raw_hdrincl k of None \<Rightarrow> (Inr fd, [Acquire (R_fd fd)])
        | Some e \<Rightarrow> (Inl e, [Acquire (R_fd fd), Release (R_fd fd)]))"
      using up by (simp add: open_raw_def datagram_raw_open_ipv4_def split: option.split)
    moreover have "socket_is_valid fd" using assms(1) Inr by (simp add: dr_calls_ok_def)
    ultimately show ?thesis using assms(2) up by (simp add: Inr split: option.splits)
  qed
next
  case False
  with assms(2) show ?thesis by (auto simp: open_raw_def socket_is_valid_def)
qed

lemma start_with_mutex_ok:
  assumes "table (ctx, st) []" and "dg_route ctx = Some r" and "dg_listen_fd ctx = EVUTIL_INVALID_SOCKET" and "\<not> dg_listen_ev ctx"
    and "\<And>fd. dl_socket (dr_listen k) = Inr fd \<Longrightarrow> socket_is_valid fd \<and> fd \<noteq> dg_raw_fd ctx"
    and "0 \<le> bind_wait_sec (opts r)" and "bind_wait_sec (opts r) \<le> 2147483"
  shows "\<exists>rc ctx' st'. start_with_mutex k r ctx st = Some (rc, ctx', st') \<and> ds_clients st' = Map.empty \<and>
    (case rc of Inl _ \<Rightarrow> ledger [] (ds_trace st') = Some [] | Inr _ \<Rightarrow> table (ctx', st') [] \<and> dg_listen_ev ctx' \<and> dg_route ctx' = Some r)"
proof -
  have free: "\<exists>st'. free_datagram_route (dr_lstat k) c s = Some (datagram_ctx_cleared, st') \<and>
      ds_clients st' = Map.empty \<and> ledger [] (ds_trace st') = Some []" if "table (c, s) []" for c s
    using free_datagram_route_ok [OF that] by blast
  obtain rc ctx' es where b: "bind_datagram_listener (dr_listen k) ctx = Some (rc, ctx', es)"
    "listen_outcome (dr_listen k) ctx (rc, ctx', es)"
    using bind_listener_outcome [OF assms(2-4,6,7), of "dr_listen k"] by auto
  have t: "table (ctx', log_ds es [] st) []" using listen_outcome_table [OF b(2) assms(1,3-5)] by blast
  have empty: "ds_clients (log_ds es [] st) = Map.empty" using t by (simp add: table_def table_heap_def)
  show ?thesis
  proof (cases "prepare_datagram_route (dr_mkdir k) r")
    case (Inl e)
    with free [OF assms(1)] show ?thesis by (auto simp: start_with_mutex_def Let_def)
  next
    case (Inr u)
    show ?thesis
    proof (cases rc)
      case rc: (Inl e)
      with free [OF t] Inr b(1) show ?thesis by (auto simp: start_with_mutex_def Let_def)
    next
      case rc: (Inr v)
      with b(2) have "dg_listen_ev ctx'" "dg_route ctx' = Some r" using assms(2) by (auto simp: listen_outcome_def)
      with rc Inr b(1) t empty show ?thesis by (auto simp: start_with_mutex_def Let_def)
    qed
  qed
qed

lemma start_datagram_route_ok:
  assumes "dr_calls_ok k" and "0 \<le> bind_wait_sec (opts r)" and "bind_wait_sec (opts r) \<le> 2147483"
  shows "\<exists>rc ctx st. start_datagram_route k wpool r dstore_empty = Some (rc, ctx, st) \<and> ds_clients st = Map.empty \<and>
    (case rc of
       Inr _ \<Rightarrow> table (ctx, st) [] \<and> dg_listen_ev ctx \<and> dg_route ctx = Some r
     | Inl _ \<Rightarrow> ledger [] (ds_trace st) = Some
         (case fst (open_raw k r) of
            Inr fd \<Rightarrow> if dr_mutex_init k \<noteq> None \<and> broadcast_reply (opts r) = BROADCAST_REPLY_UPSTREAM then [R_fd fd] else []
          | Inl _ \<Rightarrow> []))"
proof -
  obtain res es where o: "open_raw k r = (res, es)" by fastforce
  note oo = open_raw_outcome [OF assms(1) o]
  show ?thesis
  proof (cases res)
    case (Inl e)
    with o oo show ?thesis by (simp add: start_datagram_route_def dstore_empty_def log_ds_def Let_def)
  next
    case (Inr fd)
    show ?thesis
    proof (cases "dr_mutex_init k")
      case (Some e)
      with o oo Inr show ?thesis by (simp add: start_datagram_route_def dstore_empty_def log_ds_def Let_def)
    next
      case None
      let ?ctx = "datagram_ctx_zero\<lparr>dg_worker_pool := wpool, dg_route := Some r, dg_listen_fd := EVUTIL_INVALID_SOCKET,
        dg_raw_fd := fd\<rparr>"
      let ?st = "log_ds [Acquire R_clients_mu] [] (log_ds es [] dstore_empty)"
      have code: "start_datagram_route k wpool r dstore_empty = start_with_mutex k r ?ctx ?st"
        using o Inr None by (simp add: start_datagram_route_def Let_def)
      have "holds es (if socket_is_valid fd then [R_fd fd] else [])" using oo Inr by (simp add: holds_def)
      then have "holds (es @ [Acquire R_clients_mu]) (R_clients_mu # (if socket_is_valid fd then [R_fd fd] else []))"
        by (rule holds_acquire) simp
      then have "table (?ctx, ?st) []"
        by (auto simp: table_def table_heap_def table_res_def ctx_res_def dstore_empty_def log_ds_def datagram_ctx_zero_def
          socket_is_valid_def split: if_splits)
      moreover have "dl_socket (dr_listen k) = Inr g \<Longrightarrow> socket_is_valid g \<and> g \<noteq> dg_raw_fd ?ctx" for g
        using assms(1) oo Inr by (auto simp: dr_calls_ok_def socket_is_valid_def)
      ultimately show ?thesis
        using start_with_mutex_ok [of ?ctx ?st r k] assms(2,3) None Inr o unfolding code
        by (auto simp: datagram_ctx_zero_def split: sum.splits)
    qed
  qed
qed

text \<open>
  C28. Starting a datagram route returns, for any mix of failing and succeeding calls and a bind wait that
  does not overflow. On success it holds exactly its mutex, its
  listening socket with the event, and the raw socket for \<^verbatim>\<open>broadcast_reply=upstream\<close>, and has no client.
  On failure everything it had acquired is released once, with one exception: when the
  mutex cannot be made, a raw socket that was opened stays open and the context forgets it.
\<close>

theorem start_datagram_route_owner:
  assumes "dr_calls_ok k" and "0 \<le> bind_wait_sec (opts r)" and "bind_wait_sec (opts r) \<le> 2147483"
  shows "\<exists>rc ctx st. start_datagram_route k wpool r dstore_empty = Some (rc, ctx, st) \<and> ds_clients st = Map.empty \<and>
    (case rc of
       Inr _ \<Rightarrow> table (ctx, st) [] \<and> dg_listen_ev ctx \<and> dg_route ctx = Some r
     | Inl _ \<Rightarrow> ledger [] (ds_trace st) = Some
         (case fst (open_raw k r) of
            Inr fd \<Rightarrow> if dr_mutex_init k \<noteq> None \<and> broadcast_reply (opts r) = BROADCAST_REPLY_UPSTREAM then [R_fd fd] else []
          | Inl _ \<Rightarrow> []))"
  by (rule start_datagram_route_ok [OF assms])

definition example_dr_calls :: dr_calls where
  "example_dr_calls = \<lparr>dr_raw_socket = Inr 3, dr_raw_hdrincl = None, dr_mutex_init = Some ENOMEM, dr_mkdir = None,
     dr_listen = \<lparr>dl_pton4 = (\<lambda>_. Some [0, 0, 0, 0]), dl_pton6 = (\<lambda>_. None), dl_unlink = None, dl_socket = Inr 4,
       dl_set_broadcast = None, dl_set_v6only = None, dl_nonblocking = Inr (), dl_set_reuseaddr = None,
       dl_bind = (\<lambda>_. Inr ()), dl_unix_bind = None, dl_getsockname = Inr (mk_sin 9 [0, 0, 0, 0], 16),
       dl_event_new = True, dl_event_add = True\<rparr>,
     dr_lstat = (\<lambda>_. None)\<rparr>"

theorem start_datagram_route_owner_witness:
  "map_option (\<lambda>(rc, ctx, st). (rc, dg_raw_fd ctx, ledger [] (ds_trace st)))
     (start_datagram_route example_dr_calls True
        (route_zero\<lparr>opts := route_options_zero\<lparr>broadcast_reply := BROADCAST_REPLY_UPSTREAM\<rparr>\<rparr>) dstore_empty) =
   Some (Inl ENOMEM, 0, Some [R_fd 3])"
proof -
  let ?r = "route_zero\<lparr>opts := route_options_zero\<lparr>broadcast_reply := BROADCAST_REPLY_UPSTREAM\<rparr>\<rparr>"
  have ok: "dr_calls_ok example_dr_calls" "0 \<le> bind_wait_sec (opts ?r)" "bind_wait_sec (opts ?r) \<le> 2147483"
    by (simp_all add: dr_calls_ok_def example_dr_calls_def socket_is_valid_def EVUTIL_INVALID_SOCKET_def
      route_options_zero_def)
  have "fst (open_raw example_dr_calls ?r) = Inr 3"
    by (simp add: open_raw_def datagram_raw_open_ipv4_def example_dr_calls_def)
  moreover have "map_option (\<lambda>(rc, ctx, st). (rc, dg_raw_fd ctx)) (start_datagram_route example_dr_calls True ?r dstore_empty) =
      Some (Inl ENOMEM, 0)"
    by (simp add: start_datagram_route_def open_raw_def datagram_raw_open_ipv4_def example_dr_calls_def Let_def
      datagram_ctx_cleared_def datagram_ctx_zero_def)
  ultimately show ?thesis
    using start_datagram_route_owner [OF ok, of True] by (auto simp: example_dr_calls_def)
qed

lemma stop_datagram_table:
  assumes "table (ctx, st) es"
  shows "table (stop_datagram_route_listener ctx st) es"
proof (cases "dg_listen_ev ctx")
  case True
  have h: "table_heap ctx st es" "holds (ds_trace st) (table_res ctx es)" using assms by (simp_all add: table_def)
  let ?ctx = "ctx\<lparr>dg_listen_ev := False\<rparr>" and ?st = "log_ds [Release R_listen_event] [] st"
  have "R_listen_event \<in> set (table_res ctx es)" using True by (simp add: table_res_def ctx_res_def)
  from holds_release [OF h(2) this] have "holds (ds_trace ?st) (table_res ?ctx es)"
    using True by (simp add: log_ds_def table_res_def ctx_res_def split: if_splits)
  moreover have "table_heap ?ctx ?st es"
    using h(1) by (simp add: table_heap_def log_ds_def links_def [abs_def] entry_def [abs_def])
  ultimately show ?thesis using True by (simp add: table_def stop_datagram_route_listener_def)
qed (use assms in \<open>simp add: stop_datagram_route_listener_def\<close>)

lemma stop_datagram_fields:
  "stop_datagram_route_listener ctx st = (ctx', st') \<Longrightarrow>
   dg_listen_fd ctx' = dg_listen_fd ctx \<and> \<not> dg_listen_ev ctx' \<and> dg_route ctx' = dg_route ctx"
  by (auto simp: stop_datagram_route_listener_def split: if_splits)

text \<open>
  C19. The end of a datagram route, whatever its clients: stopping the listener removes the event and leaves the
  socket open, so that the workers can still send replies, and the clients as they are; freeing the route
  afterwards frees every client, and each socket, event and the mutex is released exactly once.
\<close>

theorem datagram_route_release:
  assumes "table (ctx, st) es"
  shows "\<exists>ctx1 st1 st2. stop_datagram_route_listener ctx st = (ctx1, st1) \<and> table (ctx1, st1) es \<and>
    dg_listen_fd ctx1 = dg_listen_fd ctx \<and> \<not> dg_listen_ev ctx1 \<and>
    free_datagram_route lstat ctx1 st1 = Some (datagram_ctx_cleared, st2) \<and>
    ds_clients st2 = Map.empty \<and> ledger [] (ds_trace st2) = Some []"
proof -
  obtain ctx1 st1 where s: "stop_datagram_route_listener ctx st = (ctx1, st1)" by fastforce
  with stop_datagram_table [OF assms] have t: "table (ctx1, st1) es" by simp
  from stop_datagram_fields [OF s] s t free_datagram_route_ok [OF t, of lstat] show ?thesis by auto
qed

definition example_table :: "datagram_route_ctx \<times> dstore" where
  "example_table = ((example_ctx route_zero)\<lparr>dg_clients := Some 1\<rparr>,
     \<lparr>ds_clients = [1 \<mapsto> example_client (mk_sin 4660 [10, 0, 0, 1])],
      ds_trace = [Acquire R_clients_mu, Acquire (R_fd 5), Acquire R_listen_event, Acquire (R_fd 7), Acquire (R_client_event 1)],
      ds_unlinked = []\<rparr>)"

lemma example_table_ok: "table example_table [(1, example_client (mk_sin 4660 [10, 0, 0, 1]))]"
proof -
  have "mset [R_client_event 1, R_fd 7, R_listen_event, R_fd 5, R_clients_mu] =
      mset [R_clients_mu, R_listen_event, R_fd 5, R_client_event 1, R_fd 7]" by simp
  then show ?thesis
    by (simp add: table_def table_heap_def example_table_def links_def entry_def example_client_def holds_def table_res_def
      ctx_res_def client_res_def example_ctx_def EVUTIL_INVALID_SOCKET_def)
qed

theorem datagram_route_release_witness:
  "\<exists>st2. free_datagram_route (\<lambda>_. None) (fst (stop_datagram_route_listener (fst example_table) (snd example_table)))
      (snd (stop_datagram_route_listener (fst example_table) (snd example_table))) = Some (datagram_ctx_cleared, st2) \<and>
    ledger [] (ds_trace st2) = Some []"
  using datagram_route_release [of "fst example_table" "snd example_table"
      "[(1, example_client (mk_sin 4660 [10, 0, 0, 1]))]" "\<lambda>_. None"] example_table_ok
  by auto

end
