(* ===== verification/Datagram_System.thy ===== *)
theory Datagram_System
  imports Datagram_Route
begin

text \<open>
  Datagram routes under their workers. The first part runs a worker's queue of datagrams on the client tables of the routes.
  The second part is the interleaving of several workers on one route: the critical sections
  of \<^verbatim>\<open>clients_mu\<close> are atomic, and the reply callback of a client has a step before it takes the
  lock (\<^verbatim>\<open>src/datagram_client.c\<close>, \<^verbatim>\<open>src/worker.c\<close>). The table stays intact in every interleaving; with one
  worker no freed client is ever used, and with two workers one can be.
\<close>

section \<open>A queue of datagrams\<close>

text \<open>
  The state that the handlers of a worker share: the routes by the address of their contexts, each with its
  list of clients. \<open>env n\<close> are the calls made for the \<open>n\<close>-th packet. A packet goes to the context it names.
\<close>

record dg_app =
  a_routes :: "addr \<rightharpoonup> datagram_route_ctx \<times> dstore"
  a_out :: "dg_send list"
  a_n :: nat

definition datagram_handlers :: "(nat \<Rightarrow> packet_calls) \<Rightarrow> dg_app option handlers" where
  "datagram_handlers env =
     \<lparr>worker_adopt_client_fd_call = (\<lambda>w c app. app),
      cleanup_idle_datagram_clients_call = (\<lambda>ctx_addr app. do {
        a \<leftarrow> app;
        (ctx, st) \<leftarrow> a_routes a ctx_addr;
        t \<leftarrow> cleanup_idle_datagram_clients (pk_cleanup_time (env (a_n a))) ctx st;
        Some (a\<lparr>a_routes := (a_routes a)(ctx_addr \<mapsto> t)\<rparr>) }),
      datagram_route_handle_packet_call = (\<lambda>w pkt bytes app. do {
        a \<leftarrow> app;
        (ctx, st) \<leftarrow> a_routes a (dp_ctx pkt);
        (rc, out, t) \<leftarrow> datagram_route_handle_packet (env (a_n a)) w pkt bytes ctx st;
        Some (a\<lparr>a_routes := (a_routes a)(dp_ctx pkt \<mapsto> t), a_out := a_out a @ out, a_n := a_n a + 1\<rparr>) })\<rparr>"

text \<open>
  The packets one after the other on the abstract tables of the routes, and what the allocator and the kernel
  promise for each. \<open>X c\<close> is the context at the address \<open>c\<close> and \<open>R c\<close> its route.
\<close>

type_synonym packet = "worker_datagram_packet_msg \<times> byte list"

fun spec_run ::
  "(nat \<Rightarrow> packet_calls) \<Rightarrow> 32 word \<Rightarrow> (addr \<Rightarrow> route) \<Rightarrow> (addr \<Rightarrow> datagram_route_ctx) \<Rightarrow> nat \<Rightarrow> packet list \<Rightarrow>
   (addr \<Rightarrow> client_entry list) \<Rightarrow> dg_send list \<times> (addr \<Rightarrow> client_entry list)" where
  "spec_run env w R X n [] T = ([], T)"
| "spec_run env w R X n ((pkt, bytes) # ps) T =
     (let c = dp_ctx pkt; (rc, out, es) = spec_packet (env n) w (R c) (X c) pkt bytes (T c);
          (outs, T) = spec_run env w R X (Suc n) ps (T(c := es)) in
      (out @ outs, T))"

fun fresh_run ::
  "(nat \<Rightarrow> packet_calls) \<Rightarrow> 32 word \<Rightarrow> (addr \<Rightarrow> route) \<Rightarrow> (addr \<Rightarrow> datagram_route_ctx) \<Rightarrow> nat \<Rightarrow> packet list \<Rightarrow>
   (addr \<Rightarrow> client_entry list) \<Rightarrow> bool" where
  "fresh_run env w R X n [] T \<longleftrightarrow> True"
| "fresh_run env w R X n ((pkt, bytes) # ps) T \<longleftrightarrow>
     calls_fresh (pk_client (env n)) (pk_calloc (env n)) (X (dp_ctx pkt)) (T (dp_ctx pkt)) \<and>
     fresh_run env w R X (Suc n) ps (T(dp_ctx pkt :=
       snd (snd (spec_packet (env n) w (R (dp_ctx pkt)) (X (dp_ctx pkt)) pkt bytes (T (dp_ctx pkt))))))"

definition tables :: "addr set \<Rightarrow> (addr \<Rightarrow> datagram_route_ctx) \<Rightarrow> dg_app \<Rightarrow> (addr \<Rightarrow> client_entry list) \<Rightarrow> bool" where
  "tables C X a T \<longleftrightarrow> (\<forall>c \<in> C. \<exists>p st. a_routes a c = Some ((X c)\<lparr>dg_clients := p\<rparr>, st) \<and>
     table ((X c)\<lparr>dg_clients := p\<rparr>, st) (T c) \<and> unique_keys (T c))"

lemma tables_upd:
  assumes "tables C X a T" and "table ((X c)\<lparr>dg_clients := p\<rparr>, st) es" and "unique_keys es"
  shows "tables C X (a\<lparr>a_routes := (a_routes a)(c \<mapsto> ((X c)\<lparr>dg_clients := p\<rparr>, st)), a_out := out, a_n := n\<rparr>) (T(c := es))"
  using assms by (auto simp: tables_def)

lemma spec_packet_clients [simp]: "spec_packet k w r (ctx\<lparr>dg_clients := p\<rparr>) pkt bytes es = spec_packet k w r ctx pkt bytes es"
  by (simp add: spec_packet_def)

lemma calls_fresh_clients [simp]: "calls_fresh k c (ctx\<lparr>dg_clients := p\<rparr>) es = calls_fresh k c ctx es"
  by (simp add: calls_fresh_def table_res_def)

lemma run_job_process_packet:
  "a_routes a (dp_ctx pkt) = Some (ctx, st) \<Longrightarrow>
   run_job (datagram_handlers env) w (WORKER_MSG_DATAGRAM_PACKET pkt, bytes) (Some a) =
     map_option (\<lambda>(rc, out, t). a\<lparr>a_routes := (a_routes a)(dp_ctx pkt \<mapsto> t), a_out := a_out a @ out, a_n := a_n a + 1\<rparr>)
       (process_packet (env (a_n a)) w pkt bytes ctx st)"
  by (auto simp: datagram_handlers_def process_packet_def map_option_case
    split: option.splits prod.splits Option.bind_splits)

definition datagram_job :: "packet \<Rightarrow> job" where
  "datagram_job p = (WORKER_MSG_DATAGRAM_PACKET (fst p), snd p)"

lemma fold_packets:
  assumes "tables C X a T" and "\<forall>c \<in> C. dg_route (X c) = Some (R c) \<and> ep_kind (upstream (R c)) \<noteq> ENDPOINT_BUILTIN"
    and "\<forall>p \<in> set ps. dp_ctx (fst p) \<in> C" and "fresh_run env w R X (a_n a) ps T"
  shows "\<exists>a'. fold (run_job (datagram_handlers env) w) (map datagram_job ps) (Some a) = Some a' \<and>
    a_out a' = a_out a @ fst (spec_run env w R X (a_n a) ps T) \<and> tables C X a' (snd (spec_run env w R X (a_n a) ps T))"
  using assms(1,3,4)
proof (induction ps arbitrary: a T)
  case (Cons p ps)
  obtain pkt bytes where p: "p = (pkt, bytes)" by (cases p)
  define c where "c = dp_ctx pkt"
  let ?k = "env (a_n a)" and ?X = "X c"
  have c: "c \<in> C" "dg_route ?X = Some (R c)" "ep_kind (upstream (R c)) \<noteq> ENDPOINT_BUILTIN"
    using Cons.prems(2) assms(2) p c_def by auto
  obtain q0 st where t: "a_routes a c = Some (?X\<lparr>dg_clients := q0\<rparr>, st)" "table (?X\<lparr>dg_clients := q0\<rparr>, st) (T c)" "unique_keys (T c)"
    using Cons.prems(1) c(1) by (auto simp: tables_def)
  have fresh: "calls_fresh (pk_client ?k) (pk_calloc ?k) (?X\<lparr>dg_clients := q0\<rparr>) (T c)" using Cons.prems(3) p c_def by simp
  have route: "dg_route (?X\<lparr>dg_clients := q0\<rparr>) = Some (R c)" using c(2) by simp
  obtain q st' rc out es where one: "spec_packet ?k w (R c) ?X pkt bytes (T c) = (rc, out, es)"
    "process_packet ?k w pkt bytes (?X\<lparr>dg_clients := q0\<rparr>) st = Some (rc, out, ?X\<lparr>dg_clients := q\<rparr>, st')"
    "table (?X\<lparr>dg_clients := q\<rparr>, st') es" "unique_keys es"
    using process_packet_table [OF t(2,3) route c(3) fresh, of w pkt bytes] by auto
  let ?a = "a\<lparr>a_routes := (a_routes a)(c \<mapsto> (?X\<lparr>dg_clients := q\<rparr>, st')), a_out := a_out a @ out, a_n := a_n a + 1\<rparr>"
  have "run_job (datagram_handlers env) w (datagram_job p) (Some a) = Some ?a"
    using one(2) p t(1) c_def by (simp add: datagram_job_def run_job_process_packet del: run_job.simps)
  moreover define U where "U = T(c := es)"
  have "fresh_run env w R X (a_n ?a) ps U" using Cons.prems(3) p one(1) c_def by (simp add: U_def)
  moreover have "tables C X ?a U" unfolding U_def by (rule tables_upd [OF Cons.prems(1) one(3,4)])
  ultimately show ?case
    using Cons.IH [of ?a U] Cons.prems(2) one(1) p by (auto simp: c_def [symmetric] U_def [symmetric] split: prod.split)
qed simp

text \<open>
  C4. A worker's queue of datagrams for any number of routes, run by \<^verbatim>\<open>worker_process_pending\<close>, does to the sockets and to each
  route's list of clients exactly what the packets, one after the other, mean on the route's table keyed by the sender's
  address: idle entries of the route go, the sender's entry is stamped or made, and the datagram is sent once, on that entry's socket, so that a
  sender keeps its socket as long as it is not idle. A packet touches no other route's table. No two entries of a table ever have the same sender; the
  lists are followed and freed correctly, all messages and packet buffers are freed, and exactly the
  resources of the tables are held. The routes' upstreams are not builtins, and every packet names the context of one of the routes.
\<close>

theorem datagram_queue_refines:
  assumes "queue_ok wk st q" and "store_ok st q" and "jobs st q = map datagram_job ps"
    and "tables C X a T" and "\<forall>c \<in> C. dg_route (X c) = Some (R c) \<and> ep_kind (upstream (R c)) \<noteq> ENDPOINT_BUILTIN"
    and "\<forall>p \<in> set ps. dp_ctx (fst p) \<in> C" and "fresh_run env (w_id wk) R X (a_n a) ps T"
  shows "\<exists>st' a'. worker_process_pending (datagram_handlers env) wk st (Some a) =
      Some (wk\<lparr>pending_head := None, pending_tail := None\<rparr>, st', Some a') \<and>
    st_msgs st' = Map.empty \<and> st_bufs st' = Map.empty \<and>
    a_out a' = a_out a @ fst (spec_run env (w_id wk) R X (a_n a) ps T) \<and>
    tables C X a' (snd (spec_run env (w_id wk) R X (a_n a) ps T))"
proof -
  let ?w = "wk\<lparr>pending_head := None, pending_tail := None\<rparr>" and ?H = "datagram_handlers env"
  have "chain st (pending_head wk) q" "store_ok st (q @ [])" using assms(1,2) by (simp_all add: queue_ok_take)
  from worker_process_loop_ok [OF this, of ?H ?w "Some a"] obtain st' where
    "worker_process_pending ?H wk st (Some a) = Some (?w, st', fold (run_job ?H (w_id wk)) (jobs st q) (Some a))"
    "st_msgs st' = Map.empty" "st_bufs st' = Map.empty"
    by (auto simp: worker_process_pending_def worker_take_pending_def dest: store_ok_Nil)
  then show ?thesis using fold_packets [OF assms(4-7)] assms(3) by auto
qed

definition example_packet_calls :: packet_calls where
  "example_packet_calls = \<lparr>pk_cleanup_time = 100,
     pk_client = \<lparr>gc_pton4 = (\<lambda>_. Some [10, 0, 0, 9]), gc_pton6 = (\<lambda>_. None), gc_getenv = (\<lambda>_. None), gc_pid = 1,
       gc_show_ptr = (\<lambda>_. ''0x1''), gc_socket = Inr 9, gc_bind = (\<lambda>_ _. None), gc_connect = (\<lambda>_ _. None),
       gc_nonblocking = True, gc_event_new = True, gc_event_add = True, gc_time = 100\<rparr>,
     pk_calloc = Some 2, pk_time = 100, pk_send = (\<lambda>_ _. None), pk_sendto = (\<lambda>_. None),
     pk_ntop4 = (\<lambda>_. None), pk_ntop6 = (\<lambda>_. None)\<rparr>"

definition example_pkt :: worker_datagram_packet_msg where
  "example_pkt = \<lparr>dp_route = route_zero, dp_ctx = 5, dp_peer_addr = mk_sin 4661 [10, 0, 0, 1], dp_peer_addr_len = 16,
     dp_data = Some 3, dp_data_len = 2\<rparr>"

definition example_msg_store :: store where
  "example_msg_store = \<lparr>st_msgs = [1 \<mapsto> \<lparr>next_msg = None, payload = WORKER_MSG_DATAGRAM_PACKET example_pkt\<rparr>],
     st_bufs = [3 \<mapsto> [7, 8]], st_trace = []\<rparr>"

text \<open>Two routes, at the addresses 5 and 6, each with one client.\<close>

definition example_app :: dg_app where
  "example_app = \<lparr>a_routes = [5 \<mapsto> example_table, 6 \<mapsto> example_table], a_out = [], a_n = 0\<rparr>"

text \<open>
  The packet is for the route at 5. Its client was idle for longer than the timeout of the route, 0 seconds, and the packet has another
  sender; the other route keeps its client.
\<close>

theorem datagram_queue_refines_witness:
  "\<exists>st' a'. worker_process_pending (datagram_handlers (\<lambda>_. example_packet_calls))
      (worker_zero\<lparr>w_id := 1, pending_head := Some 1, pending_tail := Some 1\<rparr>) example_msg_store (Some example_app) =
      Some (worker_zero\<lparr>w_id := 1\<rparr>, st', Some a') \<and> a_out a' = [Send 9 [7, 8]] \<and>
      (\<exists>t. a_routes a' 6 = Some t \<and> table t [(1, example_client (mk_sin 4660 [10, 0, 0, 1]))])"
proof -
  let ?w = "worker_zero\<lparr>w_id := 1, pending_head := Some 1, pending_tail := Some 1\<rparr>"
  let ?es = "[(1, example_client (mk_sin 4660 [10, 0, 0, 1]))]" and ?k = example_packet_calls
  let ?T = "\<lambda>_ :: addr. ?es" and ?X = "\<lambda>_ :: addr. fst example_table" and ?R = "\<lambda>_ :: addr. route_zero"
  have ok: "queue_ok ?w example_msg_store [1]" "store_ok example_msg_store [1]"
    "jobs example_msg_store [1] = map datagram_job [(example_pkt, [7, 8])]"
    by (simp_all add: queue_ok_def store_ok_def buf_of_def example_msg_store_def example_pkt_def worker_zero_def job_at_def
      bytes_of_def datagram_job_def)
  have routes: "\<forall>c \<in> {5, 6}. dg_route (?X c) = Some (?R c) \<and> ep_kind (upstream (?R c)) \<noteq> ENDPOINT_BUILTIN"
    "\<forall>p \<in> set [(example_pkt, [7, 8 :: byte])]. dp_ctx (fst p) \<in> {5, 6}"
    by (simp_all add: example_table_def example_ctx_def route_zero_def endpoint_zero_def example_pkt_def)
  have same: "(fst example_table)\<lparr>dg_clients := dg_clients (fst example_table)\<rparr> = fst example_table" by simp
  have t: "tables {5, 6} ?X example_app ?T"
    unfolding tables_def
    using example_table_ok by (auto simp: example_app_def unique_keys_def intro!: exI [of _ "dg_clients (fst example_table)"] exI [of _ "snd example_table"])
  have f: "fresh_run (\<lambda>_. ?k) (w_id ?w) ?R ?X (a_n example_app) [(example_pkt, [7, 8])] ?T"
    by (simp add: calls_fresh_def example_packet_calls_def table_res_def ctx_res_def client_res_def example_app_def
      example_table_def example_ctx_def example_client_def)
  let ?run = "spec_run (\<lambda>_. ?k) (w_id ?w) ?R ?X (a_n example_app) [(example_pkt, [7, 8])] ?T"
  have out: "fst ?run = [Send 9 [7, 8]]"
    by (simp add: spec_packet_def spec_handle_def expired_def example_client_def example_packet_calls_def Let_def new_entry_def
      connect_datagram_upstream_def connect_inet_upstream_def endpoint_to_sockaddr_def route_zero_def endpoint_zero_def
      route_options_zero_def fresh_client_def send_datagram_payload_to_upstream_def)
  have keep: "snd ?run 6 = ?es" by (simp add: example_pkt_def split: prod.split)
  have "?w\<lparr>pending_head := None, pending_tail := None\<rparr> = worker_zero\<lparr>w_id := 1\<rparr>" "a_out example_app = []"
    by (simp_all add: worker_zero_def example_app_def)
  with datagram_queue_refines [OF ok(1-3) t routes f] obtain st' a' where
    run: "worker_process_pending (datagram_handlers (\<lambda>_. ?k)) ?w example_msg_store (Some example_app) =
      Some (worker_zero\<lparr>w_id := 1\<rparr>, st', Some a')" "a_out a' = fst ?run" "tables {5, 6} ?X a' (snd ?run)"
    by (metis append_Nil)
  have "\<exists>t. a_routes a' 6 = Some t \<and> table t (snd ?run 6)" using run(3) by (auto simp: tables_def)
  then have "\<exists>t. a_routes a' 6 = Some t \<and> table t ?es" unfolding keep .
  with run(1,2) out show ?thesis by (intro exI [of _ st'] exI [of _ a']) simp
qed

section \<open>Several workers on one route\<close>

text \<open>
  Where a worker is: outside, between the clean-up and the handling of a packet, or in the reply callback of a
  client, with the socket that libevent passed, after it has read the client and before it has the lock. Event bases are not shared between
  threads and \<^verbatim>\<open>evthread_use_pthreads\<close> is never called, so \<^verbatim>\<open>event_free\<close> does not wait for a callback
  that another thread runs.
\<close>

datatype dg_pc = P_Idle | P_Cleaned | P_Callback addr int

record dsys =
  y_ctx :: datagram_route_ctx
  y_st :: dstore
  y_pc :: "32 word \<Rightarrow> dg_pc"
  y_fault :: bool

definition fresh_calls :: "packet_calls \<Rightarrow> dstore \<Rightarrow> bool" where
  "fresh_calls k st \<longleftrightarrow> (\<forall>a. pk_calloc k = Some a \<longrightarrow> ds_clients st a = None) \<and>
     (\<forall>fd. gc_socket (pk_client k) = Inr fd \<longrightarrow> 0 \<le> fd \<and> R_fd fd \<notin> set (the (ledger [] (ds_trace st))))"

text \<open>
  \<^verbatim>\<open>recv\<close> delivers a datagram only when its number is that of a socket that is open; the kernel gives
  the number of a closed socket to a later one.
\<close>

definition recv_calls :: "int \<Rightarrow> byte list result list \<Rightarrow> dstore \<Rightarrow> bool" where
  "recv_calls fd recvs st \<longleftrightarrow> (\<forall>d. Inr d \<in> set recvs \<longrightarrow> R_fd fd \<in> set (the (ledger [] (ds_trace st))))"

text \<open>A worker of \<open>W\<close> does one atomic piece of work; a use of a client that is not live is a fault.\<close>

inductive dg_step :: "32 word set \<Rightarrow> dsys \<Rightarrow> dsys \<Rightarrow> bool" for W where
  clean: "w \<in> W \<Longrightarrow> y_pc s w = P_Idle \<Longrightarrow>
    cleanup_idle_datagram_clients now (y_ctx s) (y_st s) = Some (ctx', st') \<Longrightarrow>
    dg_step W s (s\<lparr>y_ctx := ctx', y_st := st', y_pc := (y_pc s)(w := P_Cleaned)\<rparr>)"
| clean_fault: "w \<in> W \<Longrightarrow> y_pc s w = P_Idle \<Longrightarrow>
    cleanup_idle_datagram_clients now (y_ctx s) (y_st s) = None \<Longrightarrow> dg_step W s (s\<lparr>y_fault := True\<rparr>)"
| handle: "w \<in> W \<Longrightarrow> y_pc s w = P_Cleaned \<Longrightarrow> fresh_calls k (y_st s) \<Longrightarrow>
    datagram_route_handle_packet k w pkt bytes (y_ctx s) (y_st s) = Some (rc, out, ctx', st') \<Longrightarrow>
    dg_step W s (s\<lparr>y_ctx := ctx', y_st := st', y_pc := (y_pc s)(w := P_Idle)\<rparr>)"
| handle_fault: "w \<in> W \<Longrightarrow> y_pc s w = P_Cleaned \<Longrightarrow> fresh_calls k (y_st s) \<Longrightarrow>
    datagram_route_handle_packet k w pkt bytes (y_ctx s) (y_st s) = None \<Longrightarrow> dg_step W s (s\<lparr>y_fault := True\<rparr>)"
| enter: "w \<in> W \<Longrightarrow> y_pc s w = P_Idle \<Longrightarrow> ds_clients (y_st s) c = Some x \<Longrightarrow> dc_ev x = Some w \<Longrightarrow>
    dg_step W s (s\<lparr>y_pc := (y_pc s)(w := P_Callback c (dc_fd x))\<rparr>)"
| reply: "w \<in> W \<Longrightarrow> y_pc s w = P_Callback c fd \<Longrightarrow> recv_calls fd recvs (y_st s) \<Longrightarrow>
    upstream_read_locked k c recvs (y_ctx s) (y_st s) = Some res \<Longrightarrow>
    dg_step W s (s\<lparr>y_pc := (y_pc s)(w := P_Idle)\<rparr>)"
| reply_fault: "w \<in> W \<Longrightarrow> y_pc s w = P_Callback c fd \<Longrightarrow> recv_calls fd recvs (y_st s) \<Longrightarrow>
    upstream_read_locked k c recvs (y_ctx s) (y_st s) = None \<Longrightarrow> dg_step W s (s\<lparr>y_fault := True\<rparr>)"

definition dg_init :: "route \<Rightarrow> dsys \<Rightarrow> bool" where
  "dg_init r s \<longleftrightarrow> table (y_ctx s, y_st s) [] \<and> dg_route (y_ctx s) = Some r \<and> y_pc s = (\<lambda>_. P_Idle) \<and> \<not> y_fault s"

definition table_inv :: "route \<Rightarrow> dsys \<Rightarrow> bool" where
  "table_inv r s \<longleftrightarrow> dg_route (y_ctx s) = Some r \<and> (\<exists>es. table (y_ctx s, y_st s) es \<and> unique_keys es)"

definition callbacks_live :: "dsys \<Rightarrow> bool" where
  "callbacks_live s \<longleftrightarrow> \<not> y_fault s \<and> (\<forall>w c fd. y_pc s w = P_Callback c fd \<longrightarrow> ds_clients (y_st s) c \<noteq> None)"

lemma fresh_calls_fresh:
  assumes "table (ctx, st) es" and "fresh_calls k st"
  shows "calls_fresh (pk_client k) (pk_calloc k) ctx es"
proof -
  obtain hs where hs: "ledger [] (ds_trace st) = Some hs" "mset hs = mset (table_res ctx es)"
    using assms(1) by (auto simp: table_def holds_def)
  have "set hs = set (table_res ctx es)" using hs(2) by (rule mset_eq_setD)
  moreover have "ds_clients st a \<noteq> None" if "a \<in> fst ` set es" for a
    using that assms(1) by (auto simp: table_def table_heap_def domIff)
  ultimately show ?thesis using assms(2) hs(1) by (force simp: fresh_calls_def calls_fresh_def)
qed

lemma handle_packet_any:
  assumes "table (ctx, st) es" and "unique_keys es" and "dg_route ctx = Some r" and "fresh_calls k st"
  shows "\<exists>rc out ctx' st' es'. datagram_route_handle_packet k w pkt bytes ctx st = Some (rc, out, ctx', st') \<and>
    dg_route ctx' = Some r \<and> table (ctx', st') es' \<and> unique_keys es'"
proof (cases "ep_kind (upstream r) = ENDPOINT_BUILTIN")
  case True
  with assms show ?thesis by (auto simp: datagram_route_handle_packet_def split: prod.split)
next
  case False
  from handle_packet_table [OF assms(1,3) False fresh_calls_fresh [OF assms(1,4)], of w pkt bytes]
    spec_handle_unique [OF assms(2), of k w r ctx pkt bytes] assms(3) show ?thesis by force
qed

lemma clean_any:
  assumes "table (ctx, st) es" and "unique_keys es" and "dg_route ctx = Some r"
  shows "\<exists>ctx' st' es'. cleanup_idle_datagram_clients now ctx st = Some (ctx', st') \<and> dg_route ctx' = Some r \<and>
    table (ctx', st') es' \<and> unique_keys es'"
proof -
  let ?es = "filter (\<lambda>e. \<not> expired now (idle_timeout_sec (opts r)) (snd e)) es"
  have "unique_keys ?es" using assms(2) by (simp add: unique_keys_def distinct_map_filter)
  moreover obtain p st' where "cleanup_idle_datagram_clients now ctx st = Some (ctx\<lparr>dg_clients := p\<rparr>, st')"
    "table (ctx\<lparr>dg_clients := p\<rparr>, st') ?es" using cleanup_table [OF assms(1,3)] by blast
  ultimately show ?thesis using assms(3) by auto
qed

lemma table_inv_step:
  assumes "table_inv r s" and "dg_step W s t"
  shows "table_inv r t"
proof -
  obtain es where es: "dg_route (y_ctx s) = Some r" "table (y_ctx s, y_st s) es" "unique_keys es"
    using assms(1) by (auto simp: table_inv_def)
  from assms(2) show ?thesis
  proof (cases rule: dg_step.cases)
    case (clean w now ctx' st')
    with clean_any [OF es(2,3,1), of now] show ?thesis by (auto simp: table_inv_def)
  next
    case (handle w k pkt bytes rc out ctx' st')
    with handle_packet_any [OF es(2,3,1), of k w pkt bytes] show ?thesis by (auto simp: table_inv_def)
  qed (use es in \<open>auto simp: table_inv_def\<close>)
qed

interpretation datagram_table_inv: inductive_invariant "dg_init r" "dg_step W" "table_inv r" for r W
proof
  fix s assume "dg_init r s"
  then show "table_inv r s" by (auto simp: dg_init_def table_inv_def unique_keys_def intro!: exI [of _ "[]"])
qed (rule table_inv_step)


definition single_inv :: "32 word \<Rightarrow> route \<Rightarrow> dsys \<Rightarrow> bool" where
  "single_inv w r s \<longleftrightarrow> table_inv r s \<and> callbacks_live s \<and> (\<forall>v. v \<noteq> w \<longrightarrow> y_pc s v = P_Idle)"

lemma single_inv_step:
  assumes "single_inv w r s" and "dg_step {w} s t"
  shows "single_inv w r t"
proof -
  have inv: "table_inv r s" "callbacks_live s" "\<forall>v. v \<noteq> w \<longrightarrow> y_pc s v = P_Idle" using assms(1) by (simp_all add: single_inv_def)
  obtain es where es: "dg_route (y_ctx s) = Some r" "table (y_ctx s, y_st s) es" "unique_keys es"
    using inv(1) by (auto simp: table_inv_def)
  have "callbacks_live t \<and> (\<forall>v. v \<noteq> w \<longrightarrow> y_pc t v = P_Idle)"
    using assms(2)
  proof (cases rule: dg_step.cases)
    case (clean_fault v now)
    with clean_any [OF es(2,3,1), of now] show ?thesis by auto
  next
    case (handle_fault v k pkt bytes)
    with handle_packet_any [OF es(2,3,1), of k v pkt bytes] show ?thesis by auto
  next
    case (reply_fault v c fd recvs k)
    then have "ds_clients (y_st s) c \<noteq> None" using inv(2) by (auto simp: callbacks_live_def)
    with reply_fault es(1) show ?thesis by (auto simp: upstream_read_locked_live)
  qed (use inv in \<open>auto simp: callbacks_live_def\<close>)
  with table_inv_step [OF inv(1) assms(2)] show ?thesis by (simp add: single_inv_def)
qed

interpretation single_worker: inductive_invariant "dg_init r" "dg_step {w}" "single_inv w r" for r w
proof
  fix s assume s: "dg_init r s"
  then have "table_inv r s" by (rule datagram_table_inv.inv_init)
  with s show "single_inv w r s" by (auto simp: single_inv_def callbacks_live_def dg_init_def)
qed (rule single_inv_step)

text \<open>
  C8. Several workers on one route. In every interleaving of any set of workers the list of clients stays a
  correct list of live clients with different senders, and exactly its resources and the route's are held:
  nothing leaks. With a single worker, which is the default, no
  client is ever used after it was freed: a callback that has started always finds its client.
\<close>

theorem datagram_workers_safe:
  assumes "reach (dg_init r) (dg_step W) s"
  shows "(\<exists>es. table (y_ctx s, y_st s) es \<and> unique_keys es) \<and>
    (\<forall>w. W = {w} \<longrightarrow> \<not> y_fault s \<and> (\<forall>c fd. y_pc s w = P_Callback c fd \<longrightarrow> ds_clients (y_st s) c \<noteq> None))"
proof
  show "\<exists>es. table (y_ctx s, y_st s) es \<and> unique_keys es"
    using datagram_table_inv.inv_reach [OF assms] by (simp add: table_inv_def)
  show "\<forall>w. W = {w} \<longrightarrow> \<not> y_fault s \<and> (\<forall>c fd. y_pc s w = P_Callback c fd \<longrightarrow> ds_clients (y_st s) c \<noteq> None)"
  proof (intro allI impI)
    fix w assume "W = {w}"
    with assms have "single_inv w r s" by (auto intro: single_worker.inv_reach)
    then show "\<not> y_fault s \<and> (\<forall>c fd. y_pc s w = P_Callback c fd \<longrightarrow> ds_clients (y_st s) c \<noteq> None)"
      by (auto simp: single_inv_def callbacks_live_def)
  qed
qed

definition race_route :: route where
  "race_route = route_zero\<lparr>opts := route_options_zero\<lparr>idle_timeout_sec := 60\<rparr>\<rparr>"

definition race_init :: dsys where
  "race_init = \<lparr>y_ctx = example_ctx race_route,
     y_st = \<lparr>ds_clients = Map.empty, ds_trace = [Acquire R_clients_mu, Acquire (R_fd 5), Acquire R_listen_event], ds_unlinked = []\<rparr>,
     y_pc = (\<lambda>_. P_Idle), y_fault = False\<rparr>"

lemma race_init: "dg_init race_route race_init"
proof -
  have "mset [R_listen_event, R_fd 5, R_clients_mu] = mset [R_clients_mu, R_listen_event, R_fd 5]" by simp
  then show ?thesis
    by (simp add: dg_init_def race_init_def table_def table_heap_def holds_def table_res_def ctx_res_def example_ctx_def
      EVUTIL_INVALID_SOCKET_def)
qed

text \<open>
  A worker takes a packet of a new sender when the table is empty: a client with its event on that worker's base, and
  the lowest free number as its socket.
\<close>

definition race_calls :: "addr \<Rightarrow> int \<Rightarrow> packet_calls" where
  "race_calls a now = example_packet_calls\<lparr>pk_client := (pk_client example_packet_calls)\<lparr>gc_socket := Inr 6, gc_time := now\<rparr>,
     pk_calloc := Some a, pk_time := now\<rparr>"

lemma race_new_entry:
  "\<exists>x. new_entry (pk_client (race_calls a now)) (pk_calloc (race_calls a now)) w race_route peer len = Some (a, x) \<and>
    dc_ev x = Some w \<and> dc_fd x = 6"
  by (simp add: new_entry_def race_calls_def example_packet_calls_def connect_datagram_upstream_def connect_inet_upstream_def
    endpoint_to_sockaddr_def race_route_def route_zero_def endpoint_zero_def fresh_client_def)

lemma race_fresh:
  assumes "table ((y_ctx race_init)\<lparr>dg_clients := p\<rparr>, st) []"
  shows "fresh_calls (race_calls a now) st"
proof -
  obtain hs where hs: "ledger [] (ds_trace st) = Some hs" "mset hs = mset (table_res (y_ctx race_init) [])"
    using assms by (auto simp: table_def holds_def table_res_def ctx_res_def)
  then have "set hs = {R_clients_mu, R_listen_event, R_fd 5}"
    using mset_eq_setD [OF hs(2)] by (auto simp: table_res_def ctx_res_def race_init_def example_ctx_def EVUTIL_INVALID_SOCKET_def)
  then show ?thesis
    using hs(1) assms by (auto simp: fresh_calls_def race_calls_def example_packet_calls_def table_def table_heap_def)
qed

lemma race_packet:
  assumes "reach (dg_init race_route) (dg_step W) s" and "w \<in> W" and "y_pc s w = P_Cleaned"
    and "y_ctx s = (y_ctx race_init)\<lparr>dg_clients := p\<rparr>" and "table (y_ctx s, y_st s) []"
  obtains q st x where "table ((y_ctx race_init)\<lparr>dg_clients := q\<rparr>, st) [(a, x)]"
    and "reach (dg_init race_route) (dg_step W) (s\<lparr>y_ctx := (y_ctx race_init)\<lparr>dg_clients := q\<rparr>, y_st := st, y_pc := (y_pc s)(w := P_Idle)\<rparr>)"
    and "dc_ev x = Some w" and "dc_fd x = 6" and "dc_last_seen x = now"
proof -
  let ?k = "race_calls a now" and ?r = race_route
  have fresh: "fresh_calls ?k (y_st s)" using assms(4,5) race_fresh by simp
  have route: "dg_route (y_ctx s) = Some ?r" using assms(4) by (simp add: race_init_def example_ctx_def)
  obtain x where new: "new_entry (pk_client ?k) (pk_calloc ?k) w ?r (dp_peer_addr example_pkt) (dp_peer_addr_len example_pkt) = Some (a, x)"
    "dc_ev x = Some w" "dc_fd x = 6" using race_new_entry by blast
  have builtin: "ep_kind (upstream ?r) \<noteq> ENDPOINT_BUILTIN" by (simp add: race_route_def route_zero_def endpoint_zero_def)
  obtain q st rc out where h: "datagram_route_handle_packet ?k w example_pkt [] (y_ctx s) (y_st s) =
      Some (rc, out, (y_ctx s)\<lparr>dg_clients := q\<rparr>, st)" "table ((y_ctx s)\<lparr>dg_clients := q\<rparr>, st) [(a, x\<lparr>dc_last_seen := now\<rparr>)]"
    using handle_packet_table [OF assms(5) route builtin fresh_calls_fresh [OF assms(5) fresh], of w example_pkt "[]"] new(1)
    by (auto simp: spec_handle_def Let_def race_calls_def)
  have "reach (dg_init ?r) (dg_step W) (s\<lparr>y_ctx := (y_ctx s)\<lparr>dg_clients := q\<rparr>, y_st := st, y_pc := (y_pc s)(w := P_Idle)\<rparr>)"
    using assms(1) by (rule reach_step) (rule dg_step.handle [OF assms(2,3) fresh h(1)])
  then show thesis using that [of q st "x\<lparr>dc_last_seen := now\<rparr>"] h(2) new(2,3) assms(4) by simp
qed

lemma race_callback:
  assumes "1 \<in> W"
  obtains p st x where "table ((y_ctx race_init)\<lparr>dg_clients := p\<rparr>, st) [(2, x)]" and "dc_last_seen x = 100"
    and "reach (dg_init race_route) (dg_step W)
      (race_init\<lparr>y_ctx := (y_ctx race_init)\<lparr>dg_clients := p\<rparr>, y_st := st, y_pc := (\<lambda>_. P_Idle)(1 := P_Callback 2 6)\<rparr>)"
proof -
  let ?r = race_route and ?c0 = "y_ctx race_init"
  have r0: "reach (dg_init ?r) (dg_step W) race_init" and t0: "table (y_ctx race_init, y_st race_init) []"
    and route: "dg_route ?c0 = Some ?r"
    using race_init by (auto simp: dg_init_def intro: reach_init)
  obtain p st1 where c1: "cleanup_idle_datagram_clients 100 ?c0 (y_st race_init) = Some (?c0\<lparr>dg_clients := p\<rparr>, st1)"
    "table (?c0\<lparr>dg_clients := p\<rparr>, st1) []"
    using cleanup_table [OF t0 route, of 100] by auto
  let ?s1 = "race_init\<lparr>y_ctx := ?c0\<lparr>dg_clients := p\<rparr>, y_st := st1, y_pc := (y_pc race_init)(1 := P_Cleaned)\<rparr>"
  have r1: "reach (dg_init ?r) (dg_step W) ?s1"
    using r0 by (rule reach_step) (rule dg_step.clean, use c1(1) assms in \<open>auto simp: race_init_def\<close>)
  have s1: "y_pc ?s1 1 = P_Cleaned" "y_ctx ?s1 = ?c0\<lparr>dg_clients := p\<rparr>" "table (y_ctx ?s1, y_st ?s1) []" using c1(2) by simp_all
  obtain q st x where t: "table (?c0\<lparr>dg_clients := q\<rparr>, st) [(2, x)]" "dc_ev x = Some 1" "dc_fd x = 6" "dc_last_seen x = 100"
    and r2: "reach (dg_init ?r) (dg_step W) (?s1\<lparr>y_ctx := ?c0\<lparr>dg_clients := q\<rparr>, y_st := st, y_pc := (y_pc ?s1)(1 := P_Idle)\<rparr>)"
    by (rule race_packet [OF r1 assms s1, of 2 100])
  obtain n where "ds_clients st 2 = Some (x\<lparr>dc_next := n\<rparr>)"
    using table_heap_entry [of "?c0\<lparr>dg_clients := q\<rparr>" st "[(2, x)]" 2 x] t(1) by (auto simp: table_def)
  then have "dg_step W (?s1\<lparr>y_ctx := ?c0\<lparr>dg_clients := q\<rparr>, y_st := st, y_pc := (y_pc ?s1)(1 := P_Idle)\<rparr>)
      (race_init\<lparr>y_ctx := ?c0\<lparr>dg_clients := q\<rparr>, y_st := st, y_pc := (\<lambda>_. P_Idle)(1 := P_Callback 2 6)\<rparr>)"
    using dg_step.enter [OF assms, of "?s1\<lparr>y_ctx := ?c0\<lparr>dg_clients := q\<rparr>, y_st := st, y_pc := (y_pc ?s1)(1 := P_Idle)\<rparr>" 2 "x\<lparr>dc_next := n\<rparr>"] t(2,3)
    by (simp add: race_init_def)
  then show thesis using that [OF t(1,4)] r2 by (blast intro: reach_step)
qed


theorem datagram_workers_safe_witness:
  "\<exists>s. reach (dg_init race_route) (dg_step {1}) s \<and> y_pc s 1 = P_Callback 2 6 \<and> \<not> y_fault s \<and> ds_clients (y_st s) 2 \<noteq> None"
proof -
  obtain p st where r: "reach (dg_init race_route) (dg_step {1})
      (race_init\<lparr>y_ctx := (y_ctx race_init)\<lparr>dg_clients := p\<rparr>, y_st := st, y_pc := (\<lambda>_. P_Idle)(1 := P_Callback 2 6)\<rparr>)"
    by (rule race_callback [of "{1}"]) simp_all
  let ?s = "race_init\<lparr>y_ctx := (y_ctx race_init)\<lparr>dg_clients := p\<rparr>, y_st := st, y_pc := (\<lambda>_. P_Idle)(1 := P_Callback 2 6)\<rparr>"
  have "y_pc ?s 1 = P_Callback 2 6" by simp
  moreover have "\<not> y_fault ?s" "ds_clients (y_st ?s) 2 \<noteq> None" using datagram_workers_safe [OF r] by auto
  ultimately show ?thesis using r by blast
qed

end
