(* ===== verification/Route_Runtime.thy ===== *)
theory Route_Runtime
  imports Stream_Listener Datagram_System
begin

text \<open>
  The choice between stream and datagram routes (\<^verbatim>\<open>src/route_runtime.c\<close>, \<^verbatim>\<open>src/route_runtime.h\<close>).
  The interface \<open>route_backend\<close> is what the main program relies on when it starts, stops and
  releases a route. It is interpreted on the stream routes, on the datagram routes, and, with
  the help of these two, on the routes that choose between them.
\<close>

section \<open>Data\<close>

text \<open>
  The kind of a route context together with the member of the union that it selects. As for the
  datagram routes, each route is kept with its own heap and log.
\<close>

datatype route_u =
    ROUTE_CTX_NONE | ROUTE_CTX_STREAM stream_route_ctx | ROUTE_CTX_DATAGRAM datagram_route_ctx

record route_ctx =
  rx_route :: "route option"
  rx_u :: route_u

definition route_ctx_zero :: route_ctx where
  "route_ctx_zero = \<lparr>rx_route = None, rx_u = ROUTE_CTX_NONE\<rparr>"

record route_calls =
  rk_stream :: listen_calls
  rk_datagram :: dr_calls

section \<open>Operations\<close>

definition start_route ::
  "bool \<Rightarrow> route_calls \<Rightarrow> route \<Rightarrow> dstore \<Rightarrow> (unit result \<times> route_ctx \<times> dstore) option" where
  "start_route wp k r st =
     (let ctx = route_ctx_zero\<lparr>rx_route := Some r\<rparr> in
      if endpoint_is_stream (Some (listen r)) then
        (case start_stream_route (rk_stream k) r of
           None \<Rightarrow> None
         | Some (Inl rc, _, es) \<Rightarrow> Some (Inl rc, ctx\<lparr>rx_u := ROUTE_CTX_NONE\<rparr>, log_ds es [] st)
         | Some (Inr _, u, es) \<Rightarrow> Some (Inr (), ctx\<lparr>rx_u := ROUTE_CTX_STREAM u\<rparr>, log_ds es [] st))
      else if endpoint_is_datagram (Some (listen r)) then
        (case start_datagram_route (rk_datagram k) wp r st of
           None \<Rightarrow> None
         | Some (Inl rc, _, st) \<Rightarrow> Some (Inl rc, ctx\<lparr>rx_u := ROUTE_CTX_NONE\<rparr>, st)
         | Some (Inr _, u, st) \<Rightarrow> Some (Inr (), ctx\<lparr>rx_u := ROUTE_CTX_DATAGRAM u\<rparr>, st))
      else Some (Inl EINVAL, ctx, st))"

definition stop_route_listeners :: "route_ctx \<times> dstore \<Rightarrow> route_ctx \<times> dstore" where
  "stop_route_listeners = (\<lambda>(ctx, st).
     case rx_u ctx of
       ROUTE_CTX_STREAM u \<Rightarrow>
         (let (u, es) = stop_stream_route_listener u in (ctx\<lparr>rx_u := ROUTE_CTX_STREAM u\<rparr>, log_ds es [] st))
     | ROUTE_CTX_DATAGRAM u \<Rightarrow>
         (let (u, st) = stop_datagram_route_listener u st in (ctx\<lparr>rx_u := ROUTE_CTX_DATAGRAM u\<rparr>, st))
     | ROUTE_CTX_NONE \<Rightarrow> (ctx, st))"

definition free_route ::
  "(string \<Rightarrow> bool option) \<Rightarrow> route_ctx \<times> dstore \<Rightarrow> (route_ctx \<times> dstore) option" where
  "free_route lstat = (\<lambda>(ctx, st).
     map_option (Pair route_ctx_zero)
       (case rx_u ctx of
          ROUTE_CTX_STREAM u \<Rightarrow> Some (log_ds [] (snd (free_stream_route lstat u)) st)
        | ROUTE_CTX_DATAGRAM u \<Rightarrow> map_option snd (free_datagram_route lstat u st)
        | ROUTE_CTX_NONE \<Rightarrow> Some st))"

section \<open>The interface\<close>

text \<open>
  What is left of a route: no client, the resources \<open>rs\<close>, and nothing was released twice. Usually nothing is left.
\<close>

definition route_left :: "resource list \<Rightarrow> dstore \<Rightarrow> bool" where
  "route_left rs st \<longleftrightarrow> ds_clients st = Map.empty \<and> ledger [] (ds_trace st) = Some rs"

definition route_clean :: "dstore \<Rightarrow> bool" where
  "route_clean st \<longleftrightarrow> route_left [] st"

text \<open>
  \<open>live\<close> is what holds of a route between its start and its release, whatever its clients, \<open>fine\<close> what the
  calls that start it guarantee, and \<open>leak\<close> what a start that fails leaves behind.
\<close>

locale route_backend =
  fixes fine :: "'k \<Rightarrow> bool"
    and start :: "'k \<Rightarrow> route \<Rightarrow> dstore \<Rightarrow> (unit result \<times> 'c \<times> dstore) option"
    and stop :: "'c \<times> dstore \<Rightarrow> 'c \<times> dstore"
    and free :: "'c \<times> dstore \<Rightarrow> ('c \<times> dstore) option"
    and live :: "'c \<times> dstore \<Rightarrow> bool"
    and stopped :: "'c \<Rightarrow> bool"
    and leak :: "'k \<Rightarrow> route \<Rightarrow> resource list"
  assumes start_ok: "fine k \<Longrightarrow> 0 \<le> bind_wait_sec (opts r) \<Longrightarrow> bind_wait_sec (opts r) \<le> 2147483 \<Longrightarrow>
      \<exists>rc c st. start k r dstore_empty = Some (rc, c, st) \<and>
        (case rc of Inl _ \<Rightarrow> route_left (leak k r) st | Inr _ \<Rightarrow> live (c, st))"
    and stop_ok: "live cs \<Longrightarrow> live (stop cs) \<and> stopped (fst (stop cs))"
    and free_ok: "live cs \<Longrightarrow> stopped (fst cs) \<Longrightarrow> \<exists>c st. free cs = Some (c, st) \<and> route_clean st"
begin

lemma release_clean: "live cs \<Longrightarrow> \<exists>c st. free (stop cs) = Some (c, st) \<and> route_clean st"
  using stop_ok free_ok by blast

lemma lifecycle:
  assumes "fine k" and "0 \<le> bind_wait_sec (opts r)" and "bind_wait_sec (opts r) \<le> 2147483"
  obtains rc c st where "start k r dstore_empty = Some (rc, c, st)"
    and "case rc of Inl _ \<Rightarrow> route_left (leak k r) st | Inr _ \<Rightarrow> \<exists>c' st'. free (stop (c, st)) = Some (c', st') \<and> route_clean st'"
  using start_ok [OF assms] release_clean by (fastforce split: sum.splits)

end

section \<open>Stream routes\<close>

definition stream_start :: "listen_calls \<Rightarrow> route \<Rightarrow> dstore \<Rightarrow> (unit result \<times> stream_route_ctx \<times> dstore) option" where
  "stream_start k r st = map_option (\<lambda>(rc, u, es). (rc, u, log_ds es [] st)) (start_stream_route k r)"

definition stream_stop :: "stream_route_ctx \<times> dstore \<Rightarrow> stream_route_ctx \<times> dstore" where
  "stream_stop = (\<lambda>(u, st). let (u, es) = stop_stream_route_listener u in (u, log_ds es [] st))"

definition stream_free ::
  "(string \<Rightarrow> bool option) \<Rightarrow> stream_route_ctx \<times> dstore \<Rightarrow> (stream_route_ctx \<times> dstore) option" where
  "stream_free lstat = (\<lambda>(u, st). let (u, ps) = free_stream_route lstat u in Some (u, log_ds [] ps st))"

definition stream_live :: "stream_route_ctx \<times> dstore \<Rightarrow> bool" where
  "stream_live = (\<lambda>(u, st). ds_clients st = Map.empty \<and>
     ledger [] (ds_trace st) = Some (case sr_listener u of None \<Rightarrow> [] | Some fd \<Rightarrow> [R_fd fd]))"

interpretation stream_backend: route_backend listen_calls_ok stream_start stream_stop "stream_free lstat"
  stream_live "\<lambda>u. sr_listener u = None" "\<lambda>_ _. []" for lstat
proof unfold_locales
  fix k and r :: route
  assume a: "listen_calls_ok k" "0 \<le> bind_wait_sec (opts r)" "bind_wait_sec (opts r) \<le> 2147483"
  obtain rc es where b: "bind_stream_listener k r = Some (rc, es)" "listen_owner (rc, es)"
    using bind_stream_listener_owner [OF a] by auto
  then show "\<exists>rc c st. stream_start k r dstore_empty = Some (rc, c, st) \<and>
      (case rc of Inl _ \<Rightarrow> route_left [] st | Inr _ \<Rightarrow> stream_live (c, st))"
    by (cases rc) (auto simp: stream_start_def start_stream_route_def listen_owner_def route_left_def stream_live_def
      dstore_empty_def log_ds_def stream_route_ctx_zero_def split: option.splits)
next
  fix cs assume "stream_live cs"
  then show "stream_live (stream_stop cs) \<and> sr_listener (fst (stream_stop cs)) = None"
    by (cases cs) (auto simp: stream_live_def stream_stop_def stop_stream_route_listener_def log_ds_def ledger_append
      split: option.splits)
next
  fix cs assume "stream_live cs" "sr_listener (fst cs) = None"
  then show "\<exists>c st. stream_free lstat cs = Some (c, st) \<and> route_clean st"
    by (cases cs) (auto simp: stream_live_def stream_free_def free_stream_route_def route_clean_def route_left_def log_ds_def)
qed

section \<open>Datagram routes\<close>

text \<open>
  When the mutex of the clients cannot be made, the raw socket that was opened before stays open.
\<close>

definition datagram_leak :: "dr_calls \<Rightarrow> route \<Rightarrow> resource list" where
  "datagram_leak k r = (case fst (open_raw k r) of
     Inr fd \<Rightarrow> if dr_mutex_init k \<noteq> None \<and> broadcast_reply (opts r) = BROADCAST_REPLY_UPSTREAM then [R_fd fd] else []
   | Inl _ \<Rightarrow> [])"

definition datagram_live :: "datagram_route_ctx \<times> dstore \<Rightarrow> bool" where
  "datagram_live us \<longleftrightarrow> dg_route (fst us) \<noteq> None \<and> (\<exists>es. table us es \<and> unique_keys es)"

interpretation datagram_backend: route_backend dr_calls_ok "\<lambda>k. start_datagram_route k wpool"
  "\<lambda>(u, st). stop_datagram_route_listener u st" "\<lambda>(u, st). free_datagram_route lstat u st"
  datagram_live "\<lambda>u. \<not> dg_listen_ev u" datagram_leak for wpool lstat
proof unfold_locales
  fix k and r :: route
  assume k: "dr_calls_ok k" "0 \<le> bind_wait_sec (opts r)" "bind_wait_sec (opts r) \<le> 2147483"
  from start_datagram_route_ok [OF k, of wpool]
  show "\<exists>rc c st. start_datagram_route k wpool r dstore_empty = Some (rc, c, st) \<and>
      (case rc of Inl _ \<Rightarrow> route_left (datagram_leak k r) st | Inr _ \<Rightarrow> datagram_live (c, st))"
    by (fastforce simp: route_left_def datagram_leak_def datagram_live_def unique_keys_def split: sum.splits)
next
  fix cs assume "datagram_live cs"
  moreover obtain u st where cs: "cs = (u, st)" by (cases cs)
  moreover obtain u' st' where s: "stop_datagram_route_listener u st = (u', st')" by fastforce
  ultimately show "datagram_live (case cs of (u, st) \<Rightarrow> stop_datagram_route_listener u st) \<and>
      \<not> dg_listen_ev (fst (case cs of (u, st) \<Rightarrow> stop_datagram_route_listener u st))"
    using stop_datagram_table [of u st] stop_datagram_fields [OF s] by (auto simp: datagram_live_def)
next
  fix cs assume "datagram_live cs"
  then obtain u st es where "cs = (u, st)" "table (u, st) es" by (cases cs) (auto simp: datagram_live_def)
  then show "\<exists>c st. (case cs of (u, st) \<Rightarrow> free_datagram_route lstat u st) = Some (c, st) \<and> route_clean st"
    using free_datagram_route_ok [of u st es lstat] by (auto simp: route_clean_def route_left_def)
qed

section \<open>Both\<close>

definition route_fine :: "route_calls \<Rightarrow> bool" where
  "route_fine k \<longleftrightarrow> listen_calls_ok (rk_stream k) \<and> dr_calls_ok (rk_datagram k)"

definition route_leak :: "route_calls \<Rightarrow> route \<Rightarrow> resource list" where
  "route_leak k r = (if \<not> endpoint_is_stream (Some (listen r)) \<and> endpoint_is_datagram (Some (listen r))
     then datagram_leak (rk_datagram k) r else [])"

definition route_live :: "route_ctx \<times> dstore \<Rightarrow> bool" where
  "route_live = (\<lambda>(ctx, st). case rx_u ctx of
     ROUTE_CTX_STREAM u \<Rightarrow> stream_live (u, st)
   | ROUTE_CTX_DATAGRAM u \<Rightarrow> datagram_live (u, st)
   | ROUTE_CTX_NONE \<Rightarrow> route_clean st)"

definition route_stopped :: "route_ctx \<Rightarrow> bool" where
  "route_stopped ctx = (case rx_u ctx of
     ROUTE_CTX_STREAM u \<Rightarrow> sr_listener u = None | ROUTE_CTX_DATAGRAM u \<Rightarrow> \<not> dg_listen_ev u | ROUTE_CTX_NONE \<Rightarrow> True)"

interpretation route_runtime: route_backend route_fine "start_route wp" stop_route_listeners "free_route lstat"
  route_live route_stopped route_leak for wp lstat
proof unfold_locales
  fix k and r :: route
  assume a: "route_fine k" "0 \<le> bind_wait_sec (opts r)" "bind_wait_sec (opts r) \<le> 2147483"
  then have k: "listen_calls_ok (rk_stream k)" "dr_calls_ok (rk_datagram k)" by (simp_all add: route_fine_def)
  obtain rc u st where "stream_start (rk_stream k) r dstore_empty = Some (rc, u, st)"
    "case rc of Inl _ \<Rightarrow> route_left [] st | Inr _ \<Rightarrow> stream_live (u, st)"
    using stream_backend.start_ok [OF k(1) a(2,3)] by blast
  moreover obtain rc' u' st' where "start_datagram_route (rk_datagram k) wp r dstore_empty = Some (rc', u', st')"
    "case rc' of Inl _ \<Rightarrow> route_left (datagram_leak (rk_datagram k) r) st' | Inr _ \<Rightarrow> datagram_live (u', st')"
    using datagram_backend.start_ok [OF k(2) a(2,3), of wp] by blast
  moreover have "route_left [] dstore_empty" by (simp add: route_left_def dstore_empty_def)
  ultimately show "\<exists>rc c st. start_route wp k r dstore_empty = Some (rc, c, st) \<and>
      (case rc of Inl _ \<Rightarrow> route_left (route_leak k r) st | Inr _ \<Rightarrow> route_live (c, st))"
    by (cases rc; cases rc') (auto simp: start_route_def Let_def stream_start_def route_live_def route_leak_def)
next
  fix cs assume "route_live cs"
  then show "route_live (stop_route_listeners cs) \<and> route_stopped (fst (stop_route_listeners cs))"
    using stream_backend.stop_ok [of "(u, snd cs)" for u] datagram_backend.stop_ok [of "(u, snd cs)" for u]
    by (cases cs; cases "rx_u (fst cs)")
      (auto simp: route_live_def stop_route_listeners_def route_stopped_def stream_stop_def case_prod_beta)
next
  fix cs assume "route_live cs" "route_stopped (fst cs)"
  then show "\<exists>c st. free_route lstat cs = Some (c, st) \<and> route_clean st"
    using stream_backend.free_ok [of "(u, snd cs)" lstat for u] datagram_backend.free_ok [of "(u, snd cs)" lstat for u]
    by (cases cs; cases "rx_u (fst cs)")
      (fastforce simp: route_live_def free_route_def route_stopped_def stream_free_def case_prod_beta)+
qed


end
