(* ===== verification/Tinyproxy.thy ===== *)
theory Tinyproxy
  imports Options Signals Route_Runtime
begin

text \<open>
  The main program (\<^verbatim>\<open>main\<close> in \<^verbatim>\<open>src/tinyproxy.c\<close>): it loads the routes, makes the event base, the
  signal handlers and the worker pool, starts the routes, runs the event loop, and cleans up in a
  fixed order, from wherever it got to. The theorem shows that this order is right: wherever the
  start fails, all that was started is released, once, and at a time when it may be released; the
  exceptions are named.
\<close>

section \<open>Data\<close>

text \<open>
  The results of the calls. \<open>mc_dispatch\<close> is what the threads made of the pool and of the routes while the
  event loop ran, and whether \<^verbatim>\<open>event_base_dispatch\<close> returned 0; \<open>mc_until_exit\<close> what a worker thread does
  to its worker until it ends, and \<open>mc_finish\<close> what the workers do to the routes until they are joined.
\<close>

record main_calls =
  mc_sysconf :: int
  mc_inline_realloc :: "nat \<Rightarrow> bool"
  mc_routes_calloc :: bool
  mc_strdup :: "nat \<Rightarrow> bool"
  mc_file :: "string \<Rightarrow> file_io"
  mc_file_realloc :: "nat \<Rightarrow> bool"
  mc_ctxs_calloc :: bool
  mc_event_base_new :: bool
  mc_signals :: signal_calls
  mc_pool_calloc :: bool
  mc_worker :: "nat \<Rightarrow> init_calls"
  mc_thread_create :: "nat \<Rightarrow> errno option"
  mc_send :: "nat \<Rightarrow> errno option"
  mc_until_exit :: "worker \<times> store \<Rightarrow> worker \<times> store"
  mc_route :: "nat \<Rightarrow> route_calls"
  mc_dispatch :: "worker_pool \<times> (route_ctx \<times> dstore) list \<Rightarrow> bool \<times> worker_pool \<times> (route_ctx \<times> dstore) list"
  mc_finish :: "(route_ctx \<times> dstore) list \<Rightarrow> (route_ctx \<times> dstore) list"
  mc_lstat :: "string \<Rightarrow> bool option"

text \<open>
  The local variables of \<^verbatim>\<open>main\<close>. \<open>ms_ctxs\<close> are the first \<^verbatim>\<open>route_ctx_count\<close> contexts;
  \<open>ms_failed\<close> and \<open>ms_slots\<close> keep what is left of a route that did not start and of workers that were freed.
\<close>

record main_state =
  ms_trace :: "res_event list"
  ms_inline_routes :: bool
  ms_routes :: bool
  ms_route_ctxs :: bool
  ms_base :: bool
  ms_signals :: signal_events
  ms_signals_started :: bool
  ms_pool :: worker_pool
  ms_worker_pool_ready :: bool
  ms_worker_pool_started :: bool
  ms_ctxs :: "(route_ctx \<times> dstore) list"
  ms_failed :: "dstore list"
  ms_slots :: "slot list"

definition main_init :: "main_opts \<Rightarrow> main_state" where
  "main_init o' = \<lparr>ms_trace = mo_trace o', ms_inline_routes = (mo_cap o' > 0), ms_routes = False, ms_route_ctxs = False,
     ms_base = False, ms_signals = \<lparr>sigint_ev = False, sigterm_ev = False\<rparr>, ms_signals_started = False,
     ms_pool = worker_pool_zero, ms_worker_pool_ready = False, ms_worker_pool_started = False,
     ms_ctxs = [], ms_failed = [], ms_slots = []\<rparr>"

section \<open>Starting\<close>

text \<open>The loop over the inline routes.\<close>

fun load_inline :: "(nat \<Rightarrow> bool) \<Rightarrow> string list \<Rightarrow> route list \<Rightarrow> route list result" where
  "load_inline strdup_ok [] routes = Inr routes"
| "load_inline strdup_ok (line # ls) routes =
     (if \<not> strdup_ok (length routes) then Inl ENOMEM
      else case parse_route_line line of
        Inl rc \<Rightarrow> Inl rc
      | Inr r \<Rightarrow> load_inline strdup_ok ls (routes @ [r]))"

text \<open>The routes, and whether the array of routes is allocated.\<close>

definition load_routes :: "main_calls \<Rightarrow> main_opts \<Rightarrow> route list result \<times> bool" where
  "load_routes k o' =
     (if mo_inline o' \<noteq> [] then
        (if \<not> mc_routes_calloc k then (Inl ENOMEM, False)
         else (load_inline (mc_strdup k) (mo_inline o') [], True))
      else (case mo_conf_path o' of
          None \<Rightarrow> (Inl EINVAL, False)
        | Some path \<Rightarrow>
            (let rs = load_routes_from_file (mc_file_realloc k) (mc_file k path) in
             (rs, case rs of Inl _ \<Rightarrow> False | Inr rs \<Rightarrow> rs \<noteq> []))))"

text \<open>
  Each part of the start returns whether to go on; otherwise the program jumps to the clean-up. First
  the contexts, the event base and the signals.
\<close>

definition start_base :: "main_calls \<Rightarrow> main_state \<Rightarrow> (bool \<times> main_state) option" where
  "start_base k s =
     (if \<not> mc_ctxs_calloc k then Some (False, s)
      else let s = s\<lparr>ms_route_ctxs := True, ms_trace := ms_trace s @ [Acquire R_route_ctxs]\<rparr> in
        if \<not> mc_event_base_new k then Some (False, s)
        else let s = s\<lparr>ms_base := True, ms_trace := ms_trace s @ [Acquire (R_base 0)]\<rparr> in do {
          (ok, signals, tr) \<leftarrow> setup_signal_handlers (mc_signals k) (ms_base s) (ms_trace s);
          let s = s\<lparr>ms_signals := signals, ms_trace := tr\<rparr>;
          Some (ok, if ok then s\<lparr>ms_signals_started := True\<rparr> else s) })"

definition start_pool :: "main_calls \<Rightarrow> int \<Rightarrow> main_state \<Rightarrow> (bool \<times> main_state) option" where
  "start_pool k worker_count s = do {
     (rc, pool, slots) \<leftarrow> worker_pool_init (mc_send k) (mc_until_exit k) (mc_pool_calloc k) (mc_worker k) (ms_pool s) (nat worker_count);
     let s = s\<lparr>ms_pool := pool, ms_slots := slots\<rparr>;
     (case rc of
        Inl _ \<Rightarrow> Some (False, s)
      | Inr _ \<Rightarrow>
          let s = s\<lparr>ms_worker_pool_ready := True\<rparr>;
              (rc, pool) = worker_pool_start (mc_send k) (mc_until_exit k) (mc_thread_create k) (ms_pool s);
              s = s\<lparr>ms_pool := pool\<rparr> in
          (case rc of
             Inl _ \<Rightarrow> Some (False, s)
           | Inr _ \<Rightarrow> Some (True, s\<lparr>ms_worker_pool_started := True\<rparr>))) }"

fun start_routes :: "main_calls \<Rightarrow> route list \<Rightarrow> main_state \<Rightarrow> (bool \<times> main_state) option" where
  "start_routes k [] s = Some (True, s)"
| "start_routes k (r # rs) s =
     (case validate_route (Some r) of
        Inl _ \<Rightarrow> Some (False, s)
      | Inr _ \<Rightarrow>
          (case start_route True (mc_route k (length (ms_ctxs s))) r dstore_empty of
             None \<Rightarrow> None
           | Some (Inl _, _, st) \<Rightarrow> Some (False, s\<lparr>ms_failed := [st]\<rparr>)
           | Some (Inr _, ctx, st) \<Rightarrow> start_routes k rs (s\<lparr>ms_ctxs := ms_ctxs s @ [(ctx, st)]\<rparr>)))"

definition run_loop :: "main_calls \<Rightarrow> main_state \<Rightarrow> bool \<times> main_state" where
  "run_loop k s =
     (let (ok, pool, ctxs) = mc_dispatch k (ms_pool s, ms_ctxs s) in (ok, s\<lparr>ms_pool := pool, ms_ctxs := ctxs\<rparr>))"

definition main_start :: "main_calls \<Rightarrow> main_opts \<Rightarrow> (bool \<times> main_state) option" where
  "main_start k o' =
     (let (rs, mem) = load_routes k o';
          s = (main_init o')\<lparr>ms_routes := mem, ms_trace := mo_trace o' @ (if mem then [Acquire R_routes] else [])\<rparr> in
      case rs of
        Inl _ \<Rightarrow> Some (False, s)
      | Inr routes \<Rightarrow>
          if routes = [] then Some (False, s)
          else do {
            (ok, s) \<leftarrow> start_base k s;
            (if \<not> ok then Some (False, s)
             else do {
               (ok, s) \<leftarrow> start_pool k (mo_worker_count o') s;
               (if \<not> ok then Some (False, s)
                else do {
                  (ok, s) \<leftarrow> start_routes k routes s;
                  Some (if \<not> ok then (False, s) else run_loop k s) }) }) })"

section \<open>Clean-up\<close>

text \<open>
  The events of datagram clients belong to the event bases of the workers, and libevent is not told to be used by
  several threads: they may be freed while those bases exist and no worker thread runs. A route that is freed at another
  time is the value \<open>None\<close>.
\<close>

definition pool_quiet :: "worker_pool \<Rightarrow> bool" where
  "pool_quiet pool = (case pool_workers pool of
     None \<Rightarrow> False
   | Some ss \<Rightarrow> list_all (\<lambda>s. w_base (sl_worker s) \<and> \<not> w_started (sl_worker s)) ss)"

fun free_routes ::
  "(string \<Rightarrow> bool option) \<Rightarrow> worker_pool \<Rightarrow> (route_ctx \<times> dstore) list \<Rightarrow> (route_ctx \<times> dstore) list option" where
  "free_routes lstat pool [] = Some []"
| "free_routes lstat pool (cs # css) =
     (if \<not> pool_quiet pool then None
      else do {
        cs \<leftarrow> free_route lstat cs;
        css \<leftarrow> free_routes lstat pool css;
        Some (cs # css) })"

text \<open>The label \<^verbatim>\<open>out\<close>.\<close>

definition main_out :: "main_calls \<Rightarrow> main_state \<Rightarrow> main_state option" where
  "main_out k s =
     (let ctxs = map stop_route_listeners (ms_ctxs s);
          (pool, ctxs) =
            (if ms_worker_pool_started s
             then (worker_pool_join (mc_until_exit k) (worker_pool_stop (mc_send k) (ms_pool s)), mc_finish k ctxs)
             else (ms_pool s, ctxs)) in do {
        ctxs \<leftarrow> free_routes (mc_lstat k) pool ctxs;
        (pool, slots) \<leftarrow> (if ms_worker_pool_ready s
            then worker_pool_free (mc_send k) (mc_until_exit k) pool else Some (pool, ms_slots s));
        (signals, tr) \<leftarrow> (if ms_signals_started s
            then free_signal_handlers (ms_signals s, ms_trace s) else Some (ms_signals s, ms_trace s));
        Some (s\<lparr>ms_ctxs := ctxs, ms_pool := pool, ms_slots := slots, ms_signals := signals,
          ms_trace := tr @ (if ms_route_ctxs s then [Release R_route_ctxs] else []) @
            (if ms_base s then [Release (R_base 0)] else []) @
            (if ms_routes s then [Release R_routes] else []) @
            (if ms_inline_routes s then [Release R_inline_routes] else []) @ [Klog_Free]\<rparr>) })"

text \<open>The program from its arguments to its exit code.\<close>

definition main_run :: "main_calls \<Rightarrow> main_opts \<Rightarrow> (int \<times> main_state) option" where
  "main_run k o' = do {
     (ok, s) \<leftarrow> main_start k o';
     s \<leftarrow> main_out k s;
     Some (if ok then 0 else 1, s) }"

definition tinyproxy_main :: "main_calls \<Rightarrow> string list \<Rightarrow> (int \<times> res_event list \<times> main_state option) option" where
  "tinyproxy_main k argv =
     (case main_options (mc_sysconf k) (mc_inline_realloc k) argv of
        Inl (ec, tr) \<Rightarrow> Some (ec, tr, None)
      | Inr o' \<Rightarrow> map_option (\<lambda>(ec, s). (ec, ms_trace s, Some s)) (main_run k o'))"

section \<open>What the threads may do\<close>

text \<open>
  A state that a worker thread can be in, of those that \<open>Worker_System\<close> shows to be reachable, whatever the
  handlers do.
\<close>

definition thread_state :: "(worker_pc \<Rightarrow> bool) \<Rightarrow> worker \<times> store \<Rightarrow> bool" where
  "thread_state P ws \<longleftrightarrow> (\<exists>(H :: unit handlers) app0 y.
     worker_reach H app0 y \<and> P (s_pc y) \<and> s_w y = fst ws \<and> s_st y = snd ws)"

definition same_resources :: "worker \<Rightarrow> worker \<Rightarrow> bool" where
  "same_resources w w' \<longleftrightarrow> w_id w' = w_id w \<and> w_base w' = w_base w \<and> w_started w' = w_started w \<and>
     w_notify_event w' = w_notify_event w \<and> notify_recv_fd w' = notify_recv_fd w \<and> notify_send_fd w' = notify_send_fd w"

text \<open>A thread that is joined has run, as \<open>Worker_System\<close> describes it, to its end.\<close>

definition exits :: "(worker \<times> store \<Rightarrow> worker \<times> store) \<Rightarrow> bool" where
  "exits until_exit \<longleftrightarrow> (\<forall>ws. thread_state (\<lambda>_. True) ws \<longrightarrow>
     thread_state (\<lambda>pc. pc = Exited) (until_exit ws) \<and> same_resources (fst ws) (fst (until_exit ws)))"

definition slot_moves :: "slot \<Rightarrow> slot \<Rightarrow> bool" where
  "slot_moves s s' \<longleftrightarrow> same_resources (sl_worker s) (sl_worker s') \<and>
     (thread_state (\<lambda>_. True) (sl_worker s, sl_store s) \<longrightarrow> thread_state (\<lambda>_. True) (sl_worker s', sl_store s'))"

text \<open>
  The workers change a datagram route by the steps of \<open>Datagram_System\<close>, none of which uses
  freed memory, and leave the other routes as they are.
\<close>

definition route_moves :: "route_ctx \<times> dstore \<Rightarrow> route_ctx \<times> dstore \<Rightarrow> bool" where
  "route_moves cs cs' \<longleftrightarrow> cs' = cs \<or>
     (\<exists>u u' W y y'. rx_u (fst cs) = ROUTE_CTX_DATAGRAM u \<and> fst cs' = (fst cs)\<lparr>rx_u := ROUTE_CTX_DATAGRAM u'\<rparr> \<and>
        y_ctx y = u \<and> y_st y = snd cs \<and> (dg_step W)\<^sup>*\<^sup>* y y' \<and> \<not> y_fault y' \<and> y_ctx y' = u' \<and> y_st y' = snd cs')"

definition pool_moves :: "worker_pool \<Rightarrow> worker_pool \<Rightarrow> bool" where
  "pool_moves p p' \<longleftrightarrow> (case (pool_workers p, pool_workers p') of
     (Some ss, Some ss') \<Rightarrow> list_all2 slot_moves ss ss' | _ \<Rightarrow> False)"

text \<open>
  What is assumed of the calls, which may fail: those of libevent and of the kernel give valid sockets and error numbers. Of the
  threads it is assumed that a worker that is joined has left its loop, and that the threads do what the
  models of the workers and of the datagram routes allow, without a use of freed memory.
\<close>

definition main_fine :: "main_calls \<Rightarrow> bool" where
  "main_fine k \<longleftrightarrow> (\<forall>i. calls_ok (mc_worker k i)) \<and> (\<forall>i. route_fine (mc_route k i)) \<and> exits (mc_until_exit k) \<and>
     (\<forall>pool ctxs ok pool' ctxs'. pool_workers pool \<noteq> None \<longrightarrow> mc_dispatch k (pool, ctxs) = (ok, pool', ctxs') \<longrightarrow>
        pool_moves pool pool' \<and> list_all2 route_moves ctxs ctxs') \<and>
     (\<forall>ctxs. list_all2 route_moves ctxs (mc_finish k ctxs))"

section \<open>Workers from start to release\<close>

definition slot_running :: "slot \<Rightarrow> bool" where
  "slot_running s \<longleftrightarrow> worker_ready (sl_worker s) \<and> thread_state (\<lambda>_. True) (sl_worker s, sl_store s)"

definition slot_idle :: "slot \<Rightarrow> bool" where
  "slot_idle s \<longleftrightarrow> worker_ready (sl_worker s) \<and> \<not> w_started (sl_worker s) \<and>
     (\<exists>q. queue_ok (sl_worker s) (sl_store s) q \<and> store_ok (sl_store s) q)"

text \<open>Nothing is left of the messages of a worker and of their data, and its event base is freed.\<close>

definition slot_done :: "slot \<Rightarrow> bool" where
  "slot_done s \<longleftrightarrow> st_msgs (sl_store s) = Map.empty \<and> st_bufs (sl_store s) = Map.empty \<and> \<not> w_base (sl_worker s)"

lemma thread_state_started: "thread_state P (w, st) \<Longrightarrow> w_started w"
  by (auto simp: thread_state_def wake_inv_def elim: worker_reach_inv)

lemma thread_state_exited:
  assumes "thread_state (\<lambda>pc. pc = Exited) (w, st)"
  shows "\<exists>q. queue_ok w st q \<and> store_ok st q"
proof -
  obtain H :: "unit handlers" and app0 y where y: "worker_reach H app0 y" "s_pc y = Exited" "s_w y = w" "s_st y = st"
    using assms by (auto simp: thread_state_def)
  obtain b q where h: "heap_inv H app0 y b q" using worker_reach_inv [OF y(1)] by blast
  have "b = []" using heap_inv_parts(5) [OF h] y(2) by (simp add: batch_ptr_def)
  with h y(3,4) show ?thesis by (auto simp: heap_inv_def)
qed

lemma thread_state_stop:
  assumes "thread_state P (w, st)"
  shows "thread_state P (w\<lparr>w_stopping := True\<rparr>, st)"
proof -
  obtain H :: "unit handlers" and app0 y where y: "worker_reach H app0 y" "P (s_pc y)" "s_w y = w" "s_st y = st"
    using assms by (auto simp: thread_state_def)
  let ?z = "y\<lparr>s_w := (s_w y)\<lparr>w_stopping := True\<rparr>, s_inflight := s_inflight y + (if w_started (s_w y) then 1 else 0)\<rparr>"
  from worker_step.stop [of H y] y(1)
  have "worker_reach H app0 ?z" unfolding worker_reach_def by (rule reach.intros(2) [rotated])
  with y(2-4) have "worker_reach H app0 ?z \<and> P (s_pc ?z) \<and> s_w ?z = w\<lparr>w_stopping := True\<rparr> \<and> s_st ?z = st" by simp
  then show ?thesis unfolding thread_state_def fst_conv snd_conv by blast
qed

lemma slot_started_running:
  assumes "slot_fresh i s"
  shows "slot_running (s\<lparr>sl_worker := (sl_worker s)\<lparr>w_started := True\<rparr>\<rparr>)"
proof -
  let ?w = "(sl_worker s)\<lparr>w_started := True\<rparr>"
  let ?y = "\<lparr>s_w = ?w, s_st = sl_store s, s_notify = 0, s_inflight = 0, s_pc = In_Dispatch, s_app = (),
    s_accepted = [], s_done = [], s_missed = False\<rparr>"
  have "worker_initial () ?y"
    using assms by (auto simp: slot_fresh_def init_outcome_def worker_initial_def queue_ok_def store_ok_def)
  then have "worker_reach (undefined :: unit handlers) () ?y" unfolding worker_reach_def by (rule reach.intros(1))
  moreover have "worker_ready ?w" using assms by (simp add: slot_fresh_def init_outcome_def worker_ready_def)
  ultimately show ?thesis unfolding slot_running_def thread_state_def by (auto intro!: exI [of _ ?y])
qed

lemma slot_fresh_idle: "slot_fresh i s \<Longrightarrow> slot_idle s"
  by (auto simp: slot_fresh_def init_outcome_def slot_idle_def store_ok_def intro!: exI [of _ "[]"])

lemma slot_join_idle:
  assumes "exits until_exit" and "slot_running s"
  shows "slot_idle (slot_join until_exit (slot_stop send s))"
proof -
  let ?w = "(sl_worker s)\<lparr>w_stopping := True\<rparr>"
  obtain w' st' where u: "until_exit (?w, sl_store s) = (w', st')" by fastforce
  have t: "thread_state (\<lambda>_. True) (?w, sl_store s)" using assms(2) thread_state_stop by (auto simp: slot_running_def)
  then have "thread_state (\<lambda>pc. pc = Exited) (w', st')" "same_resources ?w w'"
    using assms(1) u unfolding exits_def by (metis, metis fst_conv)
  then obtain q where "queue_ok w' st' q" "store_ok st' q" "worker_ready w'"
    using thread_state_exited [of w' st'] assms(2) by (auto simp: same_resources_def slot_running_def worker_ready_def)
  then show ?thesis
    using u thread_state_started [OF t]
    by (auto simp: slot_join_def slot_stop_def worker_stop_def worker_join_def Let_def slot_idle_def worker_ready_def queue_ok_def
      split: prod.splits)
qed

lemma slot_free_idle:
  assumes "slot_idle s"
  shows "\<exists>s'. slot_free send until_exit s = Some s' \<and> slot_done s'"
proof -
  let ?w = "(sl_worker s)\<lparr>w_stopping := True\<rparr>" and ?st = "sl_store s"
  obtain q where q: "worker_ready ?w" "queue_ok ?w ?st q" "store_ok ?st q"
    using assms by (auto simp: slot_idle_def worker_ready_def queue_ok_def)
  have "worker_free send until_exit (sl_worker s) ?st (sl_notify s) = worker_release ?w ?st"
    using assms by (simp add: worker_free_def worker_stop_def worker_join_def slot_idle_def Let_def)
  with worker_release_ok [OF q] show ?thesis by (auto simp: slot_free_def slot_done_def)
qed

lemma slots_free_idle:
  "list_all slot_idle ss \<Longrightarrow> \<exists>ss'. slots_free send until_exit ss = Some ss' \<and> list_all slot_done ss'"
proof (induction ss)
  case (Cons s ss)
  with slot_free_idle [of s send until_exit] show ?case by auto
qed simp

lemma pool_start_loop_ok:
  assumes "exits until_exit" and "list_all slot_running started" and "list_all (\<lambda>s. \<exists>i. slot_fresh i s) ss"
  shows "case pool_start_loop send until_exit create started ss of
      (Inr _, ss') \<Rightarrow> list_all slot_running ss' | (Inl _, ss') \<Rightarrow> list_all slot_idle ss'"
  using assms(2,3)
proof (induction ss arbitrary: started)
  case (Cons s ss)
  then obtain i where f: "slot_fresh i s" by auto
  then have w: "w_base (sl_worker s)" "\<not> w_started (sl_worker s)"
    by (auto simp: slot_fresh_def init_outcome_def worker_ready_def)
  show ?case
  proof (cases "create (length started)")
    case None
    with w Cons.IH [of "started @ [s\<lparr>sl_worker := (sl_worker s)\<lparr>w_started := True\<rparr>\<rparr>]"] Cons.prems slot_started_running [OF f]
    show ?thesis by (simp add: worker_start_def)
  next
    case (Some e)
    have "list_all slot_idle (map (slot_join until_exit \<circ> slot_stop send) started)"
      using Cons.prems(1) slot_join_idle [OF assms(1)] by (auto simp: list_all_iff)
    moreover have "list_all slot_idle (s # ss)" using Cons.prems(2) slot_fresh_idle by (auto simp: list_all_iff)
    ultimately show ?thesis using w Some by (simp add: worker_start_def)
  qed
qed simp

section \<open>Routes while the threads run\<close>

lemma dg_step_ctx:
  assumes "table_inv r s" and "dg_step W s t"
  shows "\<exists>p. y_ctx t = (y_ctx s)\<lparr>dg_clients := p\<rparr>"
proof -
  obtain es where es: "dg_route (y_ctx s) = Some r" "table (y_ctx s, y_st s) es" using assms(1) by (auto simp: table_inv_def)
  have same: "\<exists>p. c = c\<lparr>dg_clients := p\<rparr>" for c :: datagram_route_ctx by (rule exI [of _ "dg_clients c"]) simp
  from assms(2) show ?thesis
  proof (cases rule: dg_step.cases)
    case (clean w now ctx' st')
    with cleanup_table [OF es(2,1), of now] show ?thesis by auto
  next
    case (handle w k pkt bytes rc out ctx' st')
    show ?thesis
    proof (cases "ep_kind (upstream r) = ENDPOINT_BUILTIN")
      case True
      with handle es(1) same show ?thesis by (auto simp: datagram_route_handle_packet_def split: prod.splits)
    next
      case False
      with handle handle_packet_table [OF es(2,1) False fresh_calls_fresh [OF es(2)], of k w pkt bytes] show ?thesis by auto
    qed
  qed (use same in auto)
qed

lemma dg_steps_ctx:
  assumes "(dg_step W)\<^sup>*\<^sup>* s t" and "table_inv r s"
  shows "table_inv r t \<and> dg_listen_ev (y_ctx t) = dg_listen_ev (y_ctx s)"
  using assms
proof (induction rule: rtranclp_induct)
  case (step t u)
  then have "table_inv r t" "dg_listen_ev (y_ctx t) = dg_listen_ev (y_ctx s)" by simp_all
  with dg_step_ctx [OF this(1) step.hyps(2)] table_inv_step [OF this(1) step.hyps(2)] show ?case by auto
qed simp

lemma route_moves_live:
  assumes "route_moves cs cs'" and "route_live cs"
  shows "route_live cs' \<and> (route_stopped (fst cs) \<longrightarrow> route_stopped (fst cs'))"
proof (cases "cs' = cs")
  case False
  then obtain u u' W y y' where y: "rx_u (fst cs) = ROUTE_CTX_DATAGRAM u" "fst cs' = (fst cs)\<lparr>rx_u := ROUTE_CTX_DATAGRAM u'\<rparr>"
    "y_ctx y = u" "y_st y = snd cs" "(dg_step W)\<^sup>*\<^sup>* y y'" "y_ctx y' = u'" "y_st y' = snd cs'"
    using assms(1) by (auto simp: route_moves_def)
  obtain r where "table_inv r y"
    using assms(2) y(1,3,4) by (cases cs) (auto simp: route_live_def datagram_live_def table_inv_def)
  from dg_steps_ctx [OF y(5) this] y show ?thesis
    by (cases cs') (auto simp: route_live_def datagram_live_def route_stopped_def table_inv_def)
qed (use assms(2) in simp)

lemma routes_move_live:
  assumes "list_all2 route_moves css css'" and "list_all route_live css"
  shows "list_all route_live css'" and "list_all (route_stopped \<circ> fst) css \<Longrightarrow> list_all (route_stopped \<circ> fst) css'"
  using assms by (induction rule: list_all2_induct) (auto dest: route_moves_live)

lemma stop_routes_live:
  "list_all route_live css \<Longrightarrow>
   list_all route_live (map stop_route_listeners css) \<and> list_all (route_stopped \<circ> fst) (map stop_route_listeners css)"
  using route_runtime.stop_ok by (auto simp: list_all_iff)

lemma free_routes_ok:
  assumes "css = [] \<or> pool_quiet pool" and "list_all route_live css" and "list_all (route_stopped \<circ> fst) css"
  shows "\<exists>css'. free_routes lstat pool css = Some css' \<and> length css' = length css \<and> list_all (route_clean \<circ> snd) css'"
  using assms
proof (induction css)
  case (Cons cs css)
  then have "route_live cs" "route_stopped (fst cs)" by simp_all
  from route_runtime.free_ok [OF this, of lstat] obtain c st where "free_route lstat cs = Some (c, st)" "route_clean st" by blast
  moreover obtain css' where "free_routes lstat pool css = Some css'" "length css' = length css"
    "list_all (\<lambda>cs. route_clean (snd cs)) css'" using Cons by (auto simp: o_def)
  ultimately show ?case using Cons.prems(1) by (auto simp: o_def)
qed simp

definition waits_ok :: "route list \<Rightarrow> bool" where
  "waits_ok rs \<longleftrightarrow> list_all (\<lambda>r. 0 \<le> bind_wait_sec (opts r) \<and> bind_wait_sec (opts r) \<le> 2147483) rs"


section \<open>The state when the clean-up begins\<close>

definition main_res :: "main_state \<Rightarrow> resource list" where
  "main_res s = (if ms_signals_started s then [R_sigint, R_sigterm] else []) @
     (if ms_route_ctxs s then [R_route_ctxs] else []) @ (if ms_base s then [R_base 0] else []) @
     (if ms_routes s then [R_routes] else []) @ (if ms_inline_routes s then [R_inline_routes] else [])"

definition pool_inv :: "main_state \<Rightarrow> bool" where
  "pool_inv s \<longleftrightarrow> (if ms_worker_pool_started s then ms_worker_pool_ready s else True) \<and>
     (if ms_worker_pool_ready s
      then (\<exists>ss. pool_workers (ms_pool s) = Some ss \<and>
         list_all (if ms_worker_pool_started s then slot_running else slot_idle) ss)
      else list_all slot_done (ms_slots s))"

definition main_inv :: "main_state \<Rightarrow> bool" where
  "main_inv s \<longleftrightarrow> holds (ms_trace s) (main_res s) \<and> pool_inv s \<and>
     (ms_signals_started s \<longrightarrow> sigint_ev (ms_signals s) \<and> sigterm_ev (ms_signals s)) \<and>
     (ms_ctxs s \<noteq> [] \<longrightarrow> ms_worker_pool_started s) \<and>
     list_all route_live (ms_ctxs s)"

lemma option_loop_trace:
  assumes "option_loop sysconf ok items o' = Inr o''" and "ledger [] (mo_trace o') = Some (if mo_cap o' = 0 then [] else [R_inline_routes])"
  shows "ledger [] (mo_trace o'') = Some (if mo_cap o'' = 0 then [] else [R_inline_routes])"
  using assms
proof (induction items arbitrary: o')
  case (Cons item items)
  obtain o1 where o1: "option_step sysconf ok item o' = Inr o1" "option_loop sysconf ok items o1 = Inr o''"
    using Cons.prems(1) by (auto split: sum.splits)
  have "ledger [] (mo_trace o1) = Some (if mo_cap o1 = 0 then [] else [R_inline_routes])"
    using o1(1) Cons.prems(2)
    by (auto simp: option_step_def add_inline_def free_inline_def ledger_append Let_def
      split: getopt_item.splits if_splits option.splits prod.splits)
  with Cons.IH o1(2) show ?case by blast
qed simp

lemma main_options_trace:
  assumes "main_options sysconf ok argv = Inr o'"
  shows "ledger [] (mo_trace o') = Some (if mo_cap o' = 0 then [] else [R_inline_routes])"
  using assms option_loop_trace [of sysconf ok _ main_opts_init o']
  by (auto simp: main_options_def main_opts_init_def split: prod.splits sum.splits if_splits)

lemma main_init_inv:
  assumes "ledger [] (mo_trace o') = Some (if mo_cap o' = 0 then [] else [R_inline_routes])"
  shows "main_inv ((main_init o')\<lparr>ms_routes := mem, ms_trace := mo_trace o' @ (if mem then [Acquire R_routes] else [])\<rparr>)"
proof -
  have h: "holds (mo_trace o') (if mo_cap o' = 0 then [] else [R_inline_routes])" using assms by (simp add: holds_def)
  have "holds (mo_trace o' @ [Acquire R_routes]) (R_routes # (if mo_cap o' = 0 then [] else [R_inline_routes]))"
    by (rule holds_acquire [OF h]) simp
  with h show ?thesis by (auto simp: main_inv_def main_res_def pool_inv_def main_init_def)
qed

text \<open>
  An early return of the option loop frees the array of inline routes, but for some of those with exit code 2.
\<close>

lemma option_loop_exit:
  assumes "option_loop sysconf ok items o' = Inl (ec, tr)" and "ledger [] (mo_trace o') = Some (if mo_cap o' = 0 then [] else [R_inline_routes])"
  shows "ledger [] tr = Some [] \<or> ec = 2 \<and> ledger [] tr = Some [R_inline_routes]"
  using assms
proof (induction items arbitrary: o')
  case (Cons item items)
  have free: "ledger [] (free_inline o') = Some []" using Cons.prems(2) by (simp add: free_inline_def ledger_append)
  show ?case
  proof (cases "option_step sysconf ok item o'")
    case (Inl e)
    with Cons.prems free show ?thesis
      by (auto simp: option_step_def Let_def split: getopt_item.splits if_splits option.splits prod.splits)
  next
    case (Inr o1)
    have "option_loop sysconf ok [item] o' = Inr o1" using Inr by simp
    with option_loop_trace Cons.prems(2) have "ledger [] (mo_trace o1) = Some (if mo_cap o1 = 0 then [] else [R_inline_routes])" by blast
    with Cons.IH Cons.prems(1) Inr show ?thesis by simp
  qed
qed simp

lemma main_options_exit:
  assumes "main_options sysconf ok argv = Inl (ec, tr)"
  shows "ledger [] tr = Some [] \<or> ec = 2 \<and> ledger [] tr = Some [R_inline_routes]"
proof -
  obtain items rest where g: "getopt_all ''c:L:w:h:v'' argv = (items, rest)" by fastforce
  have i: "ledger [] (mo_trace main_opts_init) = Some (if mo_cap main_opts_init = 0 then [] else [R_inline_routes])"
    by (simp add: main_opts_init_def)
  show ?thesis
  proof (cases "option_loop sysconf ok items main_opts_init")
    case (Inl e)
    with assms g option_loop_exit [OF _ i, of sysconf ok items ec tr] show ?thesis by (simp add: main_options_def)
  next
    case (Inr o')
    with option_loop_trace [OF this i] assms g show ?thesis
      by (auto simp: main_options_def free_inline_def ledger_append split: if_splits)
  qed
qed

text \<open>The parts that start something keep the rest of the state.\<close>

definition unstarted :: "main_state \<Rightarrow> bool" where
  "unstarted s \<longleftrightarrow> \<not> ms_signals_started s \<and> \<not> ms_base s \<and> \<not> ms_route_ctxs s"

definition poolless :: "main_state \<Rightarrow> bool" where
  "poolless s \<longleftrightarrow> \<not> ms_worker_pool_ready s \<and> \<not> ms_worker_pool_started s \<and> ms_ctxs s = [] \<and> ms_failed s = []"

text \<open>
  The calls on which \<^verbatim>\<open>setup_signal_handlers\<close> frees an event that was not made.
\<close>

definition signals_crash :: "main_calls \<Rightarrow> bool" where
  "signals_crash k \<longleftrightarrow> mc_ctxs_calloc k \<and> mc_event_base_new k \<and>
     \<not> (gk_sigint_new (mc_signals k) \<and> gk_sigterm_new (mc_signals k))"

lemma start_base_crash: "signals_crash k \<Longrightarrow> start_base k s = None"
  by (auto simp: signals_crash_def start_base_def signal_defs Let_def)

lemma start_base_ok:
  assumes "\<not> signals_crash k" and "main_inv s" and "unstarted s" and "poolless s"
  shows "\<exists>ok s'. start_base k s = Some (ok, s') \<and> main_inv s' \<and> poolless s'"
proof -
  have s: "\<not> ms_signals_started s" "\<not> ms_base s" "\<not> ms_route_ctxs s" using assms(3) by (simp_all add: unstarted_def)
  let ?rs = "main_res s" and ?s1 = "s\<lparr>ms_route_ctxs := True, ms_trace := ms_trace s @ [Acquire R_route_ctxs]\<rparr>"
  have h: "holds (ms_trace s) ?rs" using assms(2) by (simp add: main_inv_def)
  have rs: "main_res s = (if ms_routes s then [R_routes] else []) @ (if ms_inline_routes s then [R_inline_routes] else [])"
    using s by (simp add: main_res_def)
  have h1: "holds (ms_trace ?s1) (R_route_ctxs # ?rs)" using holds_acquire [OF h, of R_route_ctxs] rs by simp
  have i1: "main_inv ?s1" using assms(2) h1 s by (auto simp: main_inv_def main_res_def pool_inv_def)
  let ?s2 = "?s1\<lparr>ms_base := True, ms_trace := ms_trace ?s1 @ [Acquire (R_base 0)]\<rparr>"
  have h2: "holds (ms_trace ?s2) (R_base 0 # R_route_ctxs # ?rs)"
    using holds_acquire [OF h1, of "R_base 0"] rs by simp
  show ?thesis
  proof (cases "mc_ctxs_calloc k \<and> mc_event_base_new k")
    case False
    then have "start_base k s = Some (False, if mc_ctxs_calloc k then ?s1 else s)" by (simp add: start_base_def Let_def)
    with assms(2,4) i1 show ?thesis by (auto simp: poolless_def)
  next
    case True
    then have k: "gk_sigint_new (mc_signals k)" "gk_sigterm_new (mc_signals k)" using assms(1) by (simp_all add: signals_crash_def)
    obtain ok signals tr where sig: "setup_signal_handlers (mc_signals k) True (ms_trace ?s2) = Some (ok, signals, tr)"
      "holds tr (if ok then R_sigterm # R_sigint # R_base 0 # R_route_ctxs # ?rs else R_base 0 # R_route_ctxs # ?rs)"
      "ok \<longrightarrow> sigint_ev signals \<and> sigterm_ev signals"
      using setup_signal_handlers_ok [OF k h2] rs by auto
    let ?s3 = "?s2\<lparr>ms_signals := signals, ms_trace := tr, ms_signals_started := ok\<rparr>"
    have "mset (main_res ?s3) = mset (if ok then R_sigterm # R_sigint # R_base 0 # R_route_ctxs # ?rs else R_base 0 # R_route_ctxs # ?rs)"
      using s by (simp add: main_res_def)
    then have "holds (ms_trace ?s3) (main_res ?s3)" using holds_perm [OF sig(2)] by simp
    then have i3: "main_inv ?s3" using assms(2) sig(3) by (auto simp: main_inv_def pool_inv_def)
    have "start_base k s = Some (ok, ?s3)" using True sig(1) s by (auto simp: start_base_def Let_def)
    with assms(4) i3 show ?thesis by (auto simp: poolless_def)
  qed
qed

lemma start_pool_ok:
  assumes "main_fine k" and "main_inv s" and "poolless s"
  shows "\<exists>ok s'. start_pool k n s = Some (ok, s') \<and> main_inv s' \<and> ms_ctxs s' = [] \<and> ms_failed s' = [] \<and>
    ms_worker_pool_started s' = ok"
proof -
  have k: "\<forall>i. calls_ok (mc_worker k i)" and ex: "exits (mc_until_exit k)" using assms(1) by (simp_all add: main_fine_def)
  have s: "\<not> ms_worker_pool_ready s" "\<not> ms_worker_pool_started s" "ms_ctxs s = []" "ms_failed s = []"
    using assms(3) by (simp_all add: poolless_def)
  obtain rc pool ss where init: "worker_pool_init (mc_send k) (mc_until_exit k) (mc_pool_calloc k) (mc_worker k) (ms_pool s) (nat n) = Some (rc, pool, ss)"
    and out: "case rc of Inl _ \<Rightarrow> pool = (if nat n = 0 then ms_pool s else worker_pool_zero) \<and> list_all slot_clean ss
      | Inr _ \<Rightarrow> pool_ok pool \<and> pool_count pool = nat n \<and> pool_next pool = 0 \<and>
         (\<forall>i < nat n. slot_fresh i (the (pool_workers pool) ! i))"
    using worker_pool_init_ok [OF k] by blast
  show ?thesis
  proof (cases rc)
    case (Inl e)
    then have "list_all slot_done ss" using out by (auto simp: list_all_iff slot_clean_def slot_done_def)
    with Inl init assms(2) s show ?thesis
      by (auto simp: start_pool_def main_inv_def main_res_def pool_inv_def)
  next
    case (Inr u)
    with out obtain ws where ws: "pool_workers pool = Some ws" "length ws = nat n" "\<forall>i < nat n. slot_fresh i (ws ! i)"
      by (auto simp: pool_ok_def split: option.splits)
    then have "list_all (\<lambda>s. \<exists>i. slot_fresh i s) ws" by (auto simp: list_all_length)
    note run = pool_start_loop_ok [OF ex, of "[]" ws "mc_send k" "mc_thread_create k", simplified, OF this]
    obtain rc' ws' where "pool_start_loop (mc_send k) (mc_until_exit k) (mc_thread_create k) [] ws = (rc', ws')" by fastforce
    with run Inr init ws(1) assms(2) s show ?thesis
      by (cases rc') (auto simp: start_pool_def worker_pool_start_def main_inv_def main_res_def pool_inv_def Let_def)
  qed
qed

text \<open>What is left of the route that did not start, the first one that has no context.\<close>

definition failed_left :: "main_calls \<Rightarrow> route list \<Rightarrow> main_state \<Rightarrow> bool" where
  "failed_left k rs s \<longleftrightarrow> ms_failed s = [] \<or>
     (let n = length (ms_ctxs s) in
      n < length rs \<and> (\<exists>st. ms_failed s = [st] \<and> route_left (route_leak (mc_route k n) (rs ! n)) st))"

lemma start_routes_ok:
  assumes "\<forall>i. route_fine (mc_route k i)" and "waits_ok rs" and "main_inv s" and "ms_worker_pool_started s" and "ms_failed s = []"
    and "length (ms_ctxs s) = length ps"
  shows "\<exists>ok s'. start_routes k rs s = Some (ok, s') \<and> main_inv s' \<and> ms_worker_pool_started s' \<and> failed_left k (ps @ rs) s' \<and>
    (ok \<longrightarrow> length (ms_ctxs s') = length (ps @ rs) \<and> ms_failed s' = [])"
  using assms(2-6)
proof (induction rs arbitrary: s ps)
  case Nil
  then show ?case by (auto simp: failed_left_def)
next
  case (Cons r rs)
  have w: "0 \<le> bind_wait_sec (opts r)" "bind_wait_sec (opts r) \<le> 2147483" "waits_ok rs"
    using Cons.prems(1) by (simp_all add: waits_ok_def)
  obtain rc ctx st where st: "start_route True (mc_route k (length (ms_ctxs s))) r dstore_empty = Some (rc, ctx, st)"
    "case rc of Inl _ \<Rightarrow> route_left (route_leak (mc_route k (length (ms_ctxs s))) r) st | Inr _ \<Rightarrow> route_live (ctx, st)"
    using route_runtime.start_ok [OF assms(1) [rule_format] w(1,2), of True] by blast
  show ?case
  proof (cases "validate_route (Some r)")
    case (Inl e)
    with Cons.prems show ?thesis by (auto simp: failed_left_def)
  next
    case v: (Inr x)
    show ?thesis
    proof (cases rc)
      case (Inl e)
      with st v Cons.prems show ?thesis by (auto simp: main_inv_def main_res_def pool_inv_def failed_left_def Let_def nth_append)
    next
      case (Inr y)
      let ?s = "s\<lparr>ms_ctxs := ms_ctxs s @ [(ctx, st)]\<rparr>"
      have "main_inv ?s" using st Inr Cons.prems(2,3) by (auto simp: main_inv_def main_res_def pool_inv_def)
      with Cons.IH [OF w(3), of ?s "ps @ [r]"] Cons.prems(3-5) st v Inr show ?thesis by auto
    qed
  qed
qed

lemma slot_moves_running: "slot_moves s s' \<Longrightarrow> slot_running s \<Longrightarrow> slot_running s'"
  by (auto simp: slot_moves_def slot_running_def same_resources_def worker_ready_def)

lemma run_loop_ok:
  assumes "main_fine k" and "main_inv s" and "ms_worker_pool_started s"
  shows "main_inv (snd (run_loop k s)) \<and> length (ms_ctxs (snd (run_loop k s))) = length (ms_ctxs s) \<and>
    ms_failed (snd (run_loop k s)) = ms_failed s"
proof -
  obtain ok pool ctxs where d: "mc_dispatch k (ms_pool s, ms_ctxs s) = (ok, pool, ctxs)" by (metis prod_cases3)
  obtain ss where ss: "pool_workers (ms_pool s) = Some ss" "list_all slot_running ss"
    using assms(2,3) by (auto simp: main_inv_def pool_inv_def split: if_splits)
  have "pool_moves (ms_pool s) pool" and ctxs: "list_all2 route_moves (ms_ctxs s) ctxs"
    using assms(1) d ss(1) unfolding main_fine_def by (metis option.discI)+
  then obtain ss' where ss': "pool_workers pool = Some ss'" "list_all2 slot_moves ss ss'"
    using ss(1) by (auto simp: pool_moves_def split: option.splits)
  from this(2) ss(2) have "list_all slot_running ss'"
    by (induction rule: list_all2_induct) (auto dest: slot_moves_running)
  moreover have "list_all route_live ctxs"
    using routes_move_live(1) [OF ctxs] assms(2) by (simp add: main_inv_def)
  ultimately show ?thesis
    using assms(2,3) d ss'(1) list_all2_lengthD [OF ctxs]
    by (auto simp: run_loop_def main_inv_def main_res_def pool_inv_def)
qed

section \<open>The clean-up\<close>

text \<open>Nothing is left of the program and of the routes that were started.\<close>

definition all_released :: "main_state \<Rightarrow> bool" where
  "all_released s \<longleftrightarrow> list_all (route_clean \<circ> snd) (ms_ctxs s) \<and> list_all slot_done (ms_slots s) \<and> ledger [] (ms_trace s) = Some []"

lemma slot_idle_quiet: "list_all slot_idle ss \<Longrightarrow> pool_workers p = Some ss \<Longrightarrow> pool_quiet p"
  by (auto simp: pool_quiet_def list_all_iff slot_idle_def worker_ready_def)

text \<open>After the workers were stopped and joined, and before they are freed.\<close>

definition joined_pool :: "main_calls \<Rightarrow> main_state \<Rightarrow> worker_pool" where
  "joined_pool k s = (if ms_worker_pool_started s
     then worker_pool_join (mc_until_exit k) (worker_pool_stop (mc_send k) (ms_pool s)) else ms_pool s)"

lemma joined_pool_idle:
  assumes "exits (mc_until_exit k)" and "pool_inv s" and "ms_worker_pool_ready s"
  shows "\<exists>ss. pool_workers (joined_pool k s) = Some ss \<and> list_all slot_idle ss"
proof (cases "ms_worker_pool_started s")
  case True
  then obtain ss where ss: "pool_workers (ms_pool s) = Some ss" "list_all slot_running ss"
    using assms(2,3) by (auto simp: pool_inv_def)
  then have "list_all slot_idle (map (slot_join (mc_until_exit k)) (map (slot_stop (mc_send k)) ss))"
    using slot_join_idle [OF assms(1)] by (auto simp: list_all_iff)
  with ss(1) True show ?thesis by (simp add: joined_pool_def worker_pool_join_def worker_pool_stop_def)
next
  case False
  with assms(2,3) show ?thesis by (auto simp: pool_inv_def joined_pool_def)
qed

lemma main_out_trace:
  assumes "main_inv s"
  shows "\<exists>signals tr. (if ms_signals_started s then free_signal_handlers (ms_signals s, ms_trace s)
      else Some (ms_signals s, ms_trace s)) = Some (signals, tr) \<and>
    ledger [] (tr @ (if ms_route_ctxs s then [Release R_route_ctxs] else []) @ (if ms_base s then [Release (R_base 0)] else []) @
      (if ms_routes s then [Release R_routes] else []) @ (if ms_inline_routes s then [Release R_inline_routes] else []) @ [Klog_Free]) = Some []"
proof -
  let ?rest = "(if ms_route_ctxs s then [R_route_ctxs] else []) @ (if ms_base s then [R_base 0] else []) @
    (if ms_routes s then [R_routes] else []) @ (if ms_inline_routes s then [R_inline_routes] else [])"
  have h: "holds (ms_trace s) (main_res s)" using assms by (simp add: main_inv_def)
  obtain signals tr where sig: "(if ms_signals_started s then free_signal_handlers (ms_signals s, ms_trace s)
      else Some (ms_signals s, ms_trace s)) = Some (signals, tr)" "holds tr ?rest"
  proof (cases "ms_signals_started s")
    case True
    moreover have "mset (main_res s) = mset (R_sigint # R_sigterm # ?rest)" using True by (simp add: main_res_def)
    ultimately show thesis
      using free_signal_handlers_ok [OF _ _ h, of "ms_signals s" ?rest] assms that by (auto simp: main_inv_def)
  next
    case False
    then have "main_res s = ?rest" by (simp add: main_res_def)
    with False h that show thesis by simp
  qed
  have rest: "map Release ?rest = (if ms_route_ctxs s then [Release R_route_ctxs] else []) @
      (if ms_base s then [Release (R_base 0)] else []) @ (if ms_routes s then [Release R_routes] else []) @
      (if ms_inline_routes s then [Release R_inline_routes] else [])" by simp
  have "ledger [] (tr @ map Release ?rest) = Some []" by (rule holds_release_all [OF sig(2) refl])
  then have "ledger [] ((tr @ map Release ?rest) @ [Klog_Free]) = Some []" by (subst ledger_append) simp
  with sig(1) show ?thesis unfolding rest append_assoc by blast
qed

lemma main_out_ok:
  assumes "main_fine k" and "main_inv s"
  shows "\<exists>s'. main_out k s = Some s' \<and> all_released s' \<and> length (ms_ctxs s') = length (ms_ctxs s) \<and> ms_failed s' = ms_failed s"
proof -
  have ex: "exits (mc_until_exit k)" and fin: "list_all2 route_moves css (mc_finish k css)" for css
    using assms(1) by (simp_all add: main_fine_def)
  have s: "pool_inv s" "ms_ctxs s \<noteq> [] \<longrightarrow> ms_worker_pool_started s" "list_all route_live (ms_ctxs s)"
    using assms(2) by (simp_all add: main_inv_def)
  let ?stop = "map stop_route_listeners (ms_ctxs s)"
  let ?ctxs = "if ms_worker_pool_started s then mc_finish k ?stop else ?stop"
  note stop = stop_routes_live [OF s(3)]
  have up: "list_all route_live ?ctxs" "list_all (route_stopped \<circ> fst) ?ctxs" "length ?ctxs = length (ms_ctxs s)"
    using stop routes_move_live [OF fin [of ?stop]] list_all2_lengthD [OF fin [of ?stop]] by auto
  have quiet: "?ctxs = [] \<or> pool_quiet (joined_pool k s)"
  proof (cases "ms_ctxs s = []")
    case False
    then have "ms_worker_pool_ready s" using s(1,2) by (simp add: pool_inv_def split: if_splits)
    from joined_pool_idle [OF ex s(1) this] show ?thesis using slot_idle_quiet by blast
  qed (use up(3) in simp)
  obtain ctxs where ctxs: "free_routes (mc_lstat k) (joined_pool k s) ?ctxs = Some ctxs" "length ctxs = length ?ctxs"
    "list_all (route_clean \<circ> snd) ctxs" using free_routes_ok [OF quiet up(1,2)] by blast
  obtain pool slots where pool: "(if ms_worker_pool_ready s then worker_pool_free (mc_send k) (mc_until_exit k) (joined_pool k s)
      else Some (joined_pool k s, ms_slots s)) = Some (pool, slots)" "list_all slot_done slots"
  proof (cases "ms_worker_pool_ready s")
    case True
    obtain ss where ss: "pool_workers (joined_pool k s) = Some ss" "list_all slot_idle ss"
      using joined_pool_idle [OF ex s(1) True] by blast
    from slots_free_idle [OF ss(2), of "mc_send k" "mc_until_exit k"] ss(1) True that show thesis
      by (auto simp: worker_pool_free_def)
  qed (use s(1) that in \<open>auto simp: pool_inv_def\<close>)
  obtain signals tr where sig: "(if ms_signals_started s then free_signal_handlers (ms_signals s, ms_trace s)
      else Some (ms_signals s, ms_trace s)) = Some (signals, tr)"
    "ledger [] (tr @ (if ms_route_ctxs s then [Release R_route_ctxs] else []) @ (if ms_base s then [Release (R_base 0)] else []) @
      (if ms_routes s then [Release R_routes] else []) @ (if ms_inline_routes s then [Release R_inline_routes] else []) @ [Klog_Free]) = Some []"
    using main_out_trace [OF assms(2)] by blast
  have pc: "(if ms_worker_pool_started s
      then (worker_pool_join (mc_until_exit k) (worker_pool_stop (mc_send k) (ms_pool s)), mc_finish k ?stop)
      else (ms_pool s, ?stop)) = (joined_pool k s, ?ctxs)" by (simp add: joined_pool_def)
  show ?thesis
    unfolding main_out_def Let_def pc prod.case ctxs(1) bind.bind_lunit pool(1) sig(1)
    using ctxs(2,3) pool(2) sig(2) up(3) by (simp add: all_released_def)
qed

text \<open>The signal handlers are set up once routes were loaded.\<close>

definition main_crashes :: "main_calls \<Rightarrow> main_opts \<Rightarrow> bool" where
  "main_crashes k o' \<longleftrightarrow> (case fst (load_routes k o') of Inl _ \<Rightarrow> False | Inr rs \<Rightarrow> rs \<noteq> [] \<and> signals_crash k)"

definition main_left :: "main_calls \<Rightarrow> main_opts \<Rightarrow> main_state \<Rightarrow> bool" where
  "main_left k o' s \<longleftrightarrow> (case fst (load_routes k o') of Inl _ \<Rightarrow> ms_failed s = [] | Inr rs \<Rightarrow> failed_left k rs s)"

lemma main_start_crash:
  assumes "main_crashes k o'" shows "main_start k o' = None"
proof -
  obtain rs mem where "load_routes k o' = (Inr rs, mem)" "rs \<noteq> []" "signals_crash k"
    using assms by (cases "load_routes k o'") (auto simp: main_crashes_def split: sum.splits)
  with start_base_crash show ?thesis by (simp add: main_start_def)
qed

lemma main_start_ok:
  assumes "main_fine k" and "ledger [] (mo_trace o') = Some (if mo_cap o' = 0 then [] else [R_inline_routes])"
    and "\<forall>rs. fst (load_routes k o') = Inr rs \<longrightarrow> waits_ok rs" and "\<not> main_crashes k o'"
  shows "\<exists>ok s. main_start k o' = Some (ok, s) \<and> main_inv s \<and> main_left k o' s \<and>
    (ok \<longrightarrow> (\<exists>rs. fst (load_routes k o') = Inr rs \<and> rs \<noteq> [] \<and> length (ms_ctxs s) = length rs))"
proof -
  obtain res mem where l: "load_routes k o' = (res, mem)" by fastforce
  let ?s = "(main_init o')\<lparr>ms_routes := mem, ms_trace := mo_trace o' @ (if mem then [Acquire R_routes] else [])\<rparr>"
  have i: "main_inv ?s" by (rule main_init_inv [OF assms(2)])
  have left: "main_left k o' s" if "ms_failed s = []" for s
    using that by (simp add: main_left_def failed_left_def split: sum.split)
  show ?thesis
  proof (cases "case res of Inl _ \<Rightarrow> True | Inr rs \<Rightarrow> rs = []")
    case True
    then have "main_start k o' = Some (False, ?s)" using l by (cases res) (simp_all add: main_start_def)
    moreover have "main_left k o' ?s" by (rule left) (simp add: main_init_def)
    ultimately show ?thesis using i by blast
  next
    case False
    then obtain rs where rs: "res = Inr rs" "rs \<noteq> []" by (cases res) auto
    then have w: "waits_ok rs" and crash: "\<not> signals_crash k" using assms(3,4) l by (simp_all add: main_crashes_def)
    have r: "\<forall>i. route_fine (mc_route k i)" using assms(1) by (simp add: main_fine_def)
    have u: "unstarted ?s" "poolless ?s" by (simp_all add: unstarted_def poolless_def main_init_def)
    obtain ok1 s1 where s1: "start_base k ?s = Some (ok1, s1)" "main_inv s1" "poolless s1"
      using start_base_ok [OF crash i u] by blast
    obtain ok2 s2 where s2: "start_pool k (mo_worker_count o') s1 = Some (ok2, s2)" "main_inv s2" "ms_ctxs s2 = []"
      "ms_failed s2 = []" "ms_worker_pool_started s2 = ok2" using start_pool_ok [OF assms(1) s1(2,3)] by blast
    show ?thesis
    proof (cases "ok1 \<and> ok2")
      case False
      then have "main_start k o' = Some (False, if ok1 then s2 else s1)" using l rs s1(1) s2(1) by (simp add: main_start_def)
      moreover have "ms_failed (if ok1 then s2 else s1) = []" using s1(3) s2(4) by (simp add: poolless_def)
      ultimately show ?thesis using s1(2) s2(2) left by (metis (full_types))
    next
      case True
      obtain ok3 s3 where s3: "start_routes k rs s2 = Some (ok3, s3)" "main_inv s3" "ms_worker_pool_started s3" "failed_left k rs s3"
        "ok3 \<longrightarrow> length (ms_ctxs s3) = length rs \<and> ms_failed s3 = []"
        using start_routes_ok [OF r w s2(2), of "[]"] True s2(3-5) by auto
      obtain ok4 s4 where s4: "run_loop k s3 = (ok4, s4)" by fastforce
      then have "main_start k o' = Some (ok3 \<and> ok4, if ok3 then s4 else s3)"
        using l rs s1(1) s2(1) s3(1) True by (simp add: main_start_def)
      moreover have "main_inv (if ok3 then s4 else s3)" "ok3 \<and> ok4 \<longrightarrow> length (ms_ctxs (if ok3 then s4 else s3)) = length rs"
        "main_left k o' (if ok3 then s4 else s3)"
        using run_loop_ok [OF assms(1) s3(2,3)] s3(2,4,5) s4 left [of s4] l rs by (auto simp: main_left_def)
      moreover have "fst (load_routes k o') = Inr rs" using l rs(1) by simp
      ultimately show ?thesis using rs(2) by blast
    qed
  qed
qed


text \<open>A machine on which every call succeeds and the threads have nothing to do until they end.\<close>

definition example_exit :: "worker \<times> store \<Rightarrow> worker \<times> store" where
  "example_exit = (\<lambda>(w, st). (w\<lparr>pending_head := None, pending_tail := None, w_stopping := True\<rparr>,
     st\<lparr>st_msgs := Map.empty, st_bufs := Map.empty\<rparr>))"

definition example_main_calls :: main_calls where
  "example_main_calls = \<lparr>mc_sysconf = 4, mc_inline_realloc = (\<lambda>_. True), mc_routes_calloc = True, mc_strdup = (\<lambda>_. True),
     mc_file = (\<lambda>_. \<lparr>fopen_err = Some ENOENT, fseek_end_err = None, ftell_res = Inr 0, fseek_set_err = None,
       malloc_ok = True, fread_data = [], fread_err = None\<rparr>),
     mc_file_realloc = (\<lambda>_. True), mc_ctxs_calloc = True, mc_event_base_new = True,
     mc_signals = \<lparr>gk_sigint_new = True, gk_sigterm_new = True, gk_sigint_add = True, gk_sigterm_add = True\<rparr>,
     mc_pool_calloc = True, mc_worker = example_calls, mc_thread_create = (\<lambda>_. None), mc_send = (\<lambda>_. None),
     mc_until_exit = example_exit,
     mc_route = (\<lambda>_. \<lparr>rk_stream = example_listen_calls, rk_datagram = example_dr_calls\<lparr>dr_mutex_init := None\<rparr>\<rparr>),
     mc_dispatch = Pair True, mc_finish = id, mc_lstat = (\<lambda>_. None)\<rparr>"

lemma exits_example: "exits example_exit"
  unfolding exits_def
proof (intro allI impI)
  fix ws assume t: "thread_state (\<lambda>_. True) ws"
  obtain w st where ws: "ws = (w, st)" by (cases ws)
  have w: "w_started w" using t ws thread_state_started by simp
  let ?w0 = "w\<lparr>pending_head := None, pending_tail := None, w_stopping := False\<rparr>"
  let ?w1 = "w\<lparr>pending_head := None, pending_tail := None, w_stopping := True\<rparr>"
  let ?st = "st\<lparr>st_msgs := Map.empty, st_bufs := Map.empty\<rparr>"
  let ?y = "\<lambda>w n i pc. \<lparr>s_w = w, s_st = ?st, s_notify = n, s_inflight = i, s_pc = pc, s_app = (), s_accepted = [], s_done = [], s_missed = False\<rparr>"
  let ?H = "undefined :: unit handlers" and ?R = "reach (worker_initial ()) (worker_step (undefined :: unit handlers))"
  have "?R (?y ?w0 0 0 In_Dispatch)"
    using w by (intro reach.intros(1)) (simp add: worker_initial_def queue_ok_def store_ok_def)
  from reach.intros(2) [OF this worker_step.stop] have "?R (?y ?w1 0 1 In_Dispatch)" using w by simp
  from reach.intros(2) [OF this worker_step.notify [of _ "\<lambda>_. None" None 1]] have "?R (?y ?w1 1 0 In_Dispatch)"
    by (simp add: notify_worker_def)
  from reach.intros(2) [OF this worker_step.wake] have "?R (?y ?w1 1 0 Draining)" by simp
  from reach.intros(2) [OF this worker_step.recv [of _ 1]] have "?R (?y ?w1 0 0 Drained)" by simp
  from reach.intros(2) [OF this worker_step.take_pending [of _ None ?w1]] have "?R (?y ?w1 0 0 (Running None))"
    by (simp add: worker_take_pending_def)
  from reach.intros(2) [OF this worker_step.processed] have "?R (?y ?w1 0 0 Checking)" by simp
  from reach.intros(2) [OF this worker_step.check] have "?R (?y ?w1 0 0 Exited)" by simp
  then have "worker_reach ?H () (?y ?w1 0 0 Exited) \<and> s_pc (?y ?w1 0 0 Exited) = Exited \<and>
      s_w (?y ?w1 0 0 Exited) = ?w1 \<and> s_st (?y ?w1 0 0 Exited) = ?st" by (simp add: worker_reach_def)
  then show "thread_state (\<lambda>pc. pc = Exited) (example_exit ws) \<and> same_resources (fst ws) (fst (example_exit ws))"
    unfolding ws example_exit_def thread_state_def prod.case fst_conv snd_conv
    by (intro conjI) (blast, simp add: same_resources_def)
qed

lemma main_fine_example: "main_fine example_main_calls"
proof -
  have "route_fine (mc_route example_main_calls i)" for i
    by (simp add: example_main_calls_def route_fine_def listen_calls_ok_def dr_calls_ok_def example_listen_calls_def
      example_dr_calls_def socket_is_valid_def EVUTIL_INVALID_SOCKET_def)
  moreover have "calls_ok (mc_worker example_main_calls i)" for i
    by (simp add: example_main_calls_def calls_ok_def example_calls_def socket_is_valid_def EVUTIL_INVALID_SOCKET_def)
  moreover have "list_all2 route_moves ctxs ctxs" for ctxs by (simp add: list_all2_conv_all_nth route_moves_def)
  moreover have "list_all2 slot_moves ss ss" for ss by (simp add: list_all2_conv_all_nth slot_moves_def same_resources_def)
  ultimately show ?thesis using exits_example
    by (auto simp: main_fine_def pool_moves_def example_main_calls_def split: option.split)
qed

definition example_argv :: "string list" where
  "example_argv = [''-w'', ''1'', ''-L'', ''udp :53 udp 10.0.0.1:53 proxy_v2'']"


end
