(* ===== verification/Proxy_System.thy ===== *)
theory Proxy_System
  imports Tinyproxy
begin

text \<open>
  The running proxy as one transition system: the main thread, which accepts clients, receives datagrams, handles signals
  and at the end stops and joins the workers (\<^verbatim>\<open>src/tinyproxy.c\<close>, \<^verbatim>\<open>src/stream_listener.c\<close>, \<^verbatim>\<open>src/datagram_listener.c\<close>,
  \<^verbatim>\<open>src/signals.c\<close>), and all worker threads of the pool (\<^verbatim>\<open>src/worker.c\<close>), interleaved at the critical sections and
  at the calls on the notify sockets. Seen from one worker, a step of the proxy is a step of
  \<open>Worker_System\<close> or none, so that what is shown there holds here; what is new is what the threads do together.
\<close>

section \<open>The state\<close>

text \<open>
  Where the main thread is: in its event loop, between queueing a message for a worker and sending that worker
  the wake-up byte, in the loop of \<^verbatim>\<open>worker_pool_stop\<close> before or after the stop flag of a worker was set,
  or in \<^verbatim>\<open>worker_pool_join\<close>.
\<close>

datatype main_pc = Main_Loop | Main_Notify nat | Main_Stopping nat | Main_Stop_Notify nat | Main_Joining

text \<open>What a worker did: ran a job, or another callback of its event loop.\<close>

datatype 'cb activity = Ran nat job | Called nat 'cb

text \<open>
  \<open>px_pcs\<close> holds where each worker is, \<open>px_app\<close> the state that the handlers share, \<open>px_disabled\<close> the
  listeners that were disabled. The last five fields are histories: the sockets of the clients that were
  accepted and those that the main thread closed, the jobs that were queued with the worker that got
  them, what the workers did, in the order of time, and the workers whose notify socket was left empty by a \<^verbatim>\<open>send\<close> that
  failed, since they last took their queue.
\<close>

record ('app, 'cb) proxy =
  px_pool :: worker_pool
  px_pcs :: "worker_pc list"
  px_app :: 'app
  px_main :: main_pc
  px_loop :: event_loop
  px_ctxs :: "route_ctx list"
  px_disabled :: "nat set"
  px_accepted :: "int list"
  px_closed :: "int list"
  px_sent :: "(nat \<times> job) list"
  px_hist :: "'cb activity list"
  px_missed :: "nat set"

definition px_slot :: "('app, 'cb) proxy \<Rightarrow> nat \<Rightarrow> slot" where
  "px_slot p i = pool_slot (px_pool p) i"

definition px_count :: "('app, 'cb) proxy \<Rightarrow> nat" where
  "px_count p = pool_count (px_pool p)"

text \<open>The worker whose turn it is.\<close>

definition next_slot :: "('app, 'cb) proxy \<Rightarrow> nat" where
  "next_slot p = unat (pool_next (px_pool p)) mod px_count p"

definition upd_slot :: "nat \<Rightarrow> slot \<Rightarrow> worker_pc \<Rightarrow> ('app, 'cb) proxy \<Rightarrow> ('app, 'cb) proxy" where
  "upd_slot i s pc p = p\<lparr>px_pool := set_slot (px_pool p) i s, px_pcs := (px_pcs p)[i := pc]\<rparr>"

text \<open>Memory that the allocator returns is not in use, in no worker's part of the heap.\<close>

definition alloc_fresh :: "addr option \<Rightarrow> addr option \<Rightarrow> ('app, 'cb) proxy \<Rightarrow> bool" where
  "alloc_fresh calloc malloc p \<longleftrightarrow> (\<forall>i < px_count p.
     (\<forall>a. calloc = Some a \<longrightarrow> st_msgs (sl_store (px_slot p i)) a = None) \<and>
     (\<forall>b. malloc = Some b \<longrightarrow> st_bufs (sl_store (px_slot p i)) b = None))"

section \<open>The steps of the main thread\<close>

text \<open>
  Up to the wake-up byte a callback does what it does when \<^verbatim>\<open>send\<close> changes nothing; the byte is a
  step of its own.
\<close>

definition unsent :: "nat \<Rightarrow> errno option" where
  "unsent n = Some EAGAIN"

definition in_callback :: "('app, 'cb) proxy \<Rightarrow> bool" where
  "in_callback p \<longleftrightarrow> px_main p = Main_Loop \<and> \<not> el_break (px_loop p)"

definition after_dispatch :: "bool \<Rightarrow> job \<Rightarrow> ('app, 'cb) proxy \<Rightarrow> worker_pool \<Rightarrow> ('app, 'cb) proxy" where
  "after_dispatch queued j p pool =
     p\<lparr>px_pool := pool, px_main := (if queued then Main_Notify (next_slot p) else Main_Loop),
       px_sent := px_sent p @ (if queued then [(next_slot p, j)] else [])\<rparr>"

text \<open>
  After \<^verbatim>\<open>notify_worker\<close>, which may fail in any way, the notify socket holds \<open>n\<close> bytes; whatever it returns, its two callers go on.
\<close>

definition after_notify :: "nat \<Rightarrow> nat \<Rightarrow> main_pc \<Rightarrow> ('app, 'cb) proxy \<Rightarrow> ('app, 'cb) proxy" where
  "after_notify i n m p = (upd_slot i ((px_slot p i)\<lparr>sl_notify := n\<rparr>) (px_pcs p ! i) p)
     \<lparr>px_main := m, px_missed := (if n = 0 then insert i (px_missed p) else px_missed p)\<rparr>"

inductive main_step :: "('app, 'cb) proxy \<Rightarrow> ('app, 'cb) proxy \<Rightarrow> bool" where
  accept: "in_callback p \<Longrightarrow> k < length (px_ctxs p) \<Longrightarrow> k \<notin> px_disabled p \<Longrightarrow>
    rx_u (px_ctxs p ! k) = ROUTE_CTX_STREAM u \<Longrightarrow> sr_route u = Some r \<Longrightarrow>
    alloc_fresh calloc None p \<Longrightarrow> socket_is_valid fd \<Longrightarrow>
    accept_cb unsent calloc (px_pool p) r fd addr socklen = Some (pool, closed) \<Longrightarrow>
    main_step p ((after_dispatch (closed = []) (stream_client_payload r fd addr (nat socklen), []) p pool)
      \<lparr>px_accepted := px_accepted p @ [fd], px_closed := px_closed p @ closed\<rparr>)"
| datagram: "in_callback p \<Longrightarrow> k < length (px_ctxs p) \<Longrightarrow>
    rx_u (px_ctxs p ! k) = ROUTE_CTX_DATAGRAM ctx \<Longrightarrow>
    alloc_fresh calloc malloc p \<Longrightarrow> length data \<le> 65535 \<Longrightarrow>
    dispatch_datagram_packet unsent calloc malloc ctx_addr ctx (px_pool p) peer len data = Some (rc, pool) \<Longrightarrow>
    listen_read_cb unsent calloc malloc ctx_addr ctx (px_pool p) (Inr (data, peer, len)) = Some pool' \<Longrightarrow>
    main_step p (after_dispatch (rc = Inr ())
      (datagram_payload (the (dg_route ctx)) ctx_addr peer len (if data = [] then None else malloc) (length data), data) p pool')"
| notify: "px_main p = Main_Notify i \<Longrightarrow> notify_worker send (sl_notify (px_slot p i)) = (rc, n) \<Longrightarrow>
    main_step p (after_notify i n Main_Loop p)"
| sig: "in_callback p \<Longrightarrow> main_step p (p\<lparr>px_loop := snd (signal_cb s (px_loop p))\<rparr>)"
| accept_error: "in_callback p \<Longrightarrow> accept_error_cb (k \<notin> px_disabled p, px_loop p) = (enabled, loop) \<Longrightarrow>
    main_step p (p\<lparr>px_loop := loop, px_disabled := (if enabled then px_disabled p else insert k (px_disabled p))\<rparr>)"
| loop_ends: "px_main p = Main_Loop \<Longrightarrow> el_break (px_loop p) \<or> el_exit (px_loop p) \<or> failed \<Longrightarrow>
    main_step p (p\<lparr>px_main := Main_Stopping 0\<rparr>)"
| stop: "px_main p = Main_Stopping i \<Longrightarrow> i < px_count p \<Longrightarrow>
    main_step p ((upd_slot i (slot_stop unsent (px_slot p i)) (px_pcs p ! i) p)
      \<lparr>px_main := (if w_started (sl_worker (px_slot p i)) then Main_Stop_Notify i else Main_Stopping (i + 1))\<rparr>)"
| stop_notify: "px_main p = Main_Stop_Notify i \<Longrightarrow> notify_worker send (sl_notify (px_slot p i)) = (rc, n) \<Longrightarrow>
    main_step p (after_notify i n (Main_Stopping (i + 1)) p)"
| stopped: "px_main p = Main_Stopping i \<Longrightarrow> i = px_count p \<Longrightarrow> main_step p (p\<lparr>px_main := Main_Joining\<rparr>)"

section \<open>The steps of a worker thread\<close>

text \<open>
  \<open>C\<close> is what the other callbacks of a worker's event loop do. They run on the worker's own thread, so not while it
  runs jobs.
\<close>

inductive thread_step :: "'app handlers \<Rightarrow> ('cb \<Rightarrow> 'app \<Rightarrow> 'app) \<Rightarrow> nat \<Rightarrow> ('app, 'cb) proxy \<Rightarrow> ('app, 'cb) proxy \<Rightarrow> bool"
  for H C i where
  wake: "px_pcs p ! i = In_Dispatch \<Longrightarrow> 0 < sl_notify (px_slot p i) \<Longrightarrow>
    thread_step H C i p (upd_slot i (px_slot p i) Draining p)"
| recv: "px_pcs p ! i = Draining \<Longrightarrow> k \<le> sl_notify (px_slot p i) \<Longrightarrow> k \<le> 128 \<Longrightarrow>
    thread_step H C i p (upd_slot i ((px_slot p i)\<lparr>sl_notify := sl_notify (px_slot p i) - k\<rparr>)
      (if k < 128 then Drained else Draining) p)"
| take_pending: "px_pcs p ! i = Drained \<Longrightarrow> worker_take_pending (sl_worker (px_slot p i)) = (m, w') \<Longrightarrow>
    thread_step H C i p ((upd_slot i ((px_slot p i)\<lparr>sl_worker := w'\<rparr>) (Running m) p)\<lparr>px_missed := px_missed p - {i}\<rparr>)"
| process: "px_pcs p ! i = Running (Some a) \<Longrightarrow>
    worker_process_one H (sl_worker (px_slot p i)) a (sl_store (px_slot p i)) (px_app p) = Some (m, st', app') \<Longrightarrow>
    thread_step H C i p ((upd_slot i ((px_slot p i)\<lparr>sl_store := st'\<rparr>) (Running m) p)
      \<lparr>px_app := app', px_hist := px_hist p @ [Ran i (the (job_at (sl_store (px_slot p i)) a))]\<rparr>)"
| processed: "px_pcs p ! i = Running None \<Longrightarrow> thread_step H C i p (upd_slot i (px_slot p i) Checking p)"
| check: "px_pcs p ! i = Checking \<Longrightarrow>
    thread_step H C i p (upd_slot i (px_slot p i)
      (if w_stopping (sl_worker (px_slot p i)) then Exited else In_Dispatch) p)"
| callback: "px_pcs p ! i = In_Dispatch \<Longrightarrow>
    thread_step H C i p (p\<lparr>px_app := C c (px_app p), px_hist := px_hist p @ [Called i c]\<rparr>)"

definition proxy_step :: "'app handlers \<Rightarrow> ('cb \<Rightarrow> 'app \<Rightarrow> 'app) \<Rightarrow> ('app, 'cb) proxy \<Rightarrow> ('app, 'cb) proxy \<Rightarrow> bool" where
  "proxy_step H C p q \<longleftrightarrow> main_step p q \<or> (\<exists>i < px_count p. thread_step H C i p q)"


text \<open>The pool as \<^verbatim>\<open>worker_pool_init\<close> and \<^verbatim>\<open>worker_pool_start\<close> leave it, at the start of the event loop.\<close>

definition slot_started :: "nat \<Rightarrow> slot \<Rightarrow> bool" where
  "slot_started i s \<longleftrightarrow> w_started (sl_worker s) \<and> \<not> w_stopping (sl_worker s) \<and> w_id (sl_worker s) = word_of_nat (i + 1) \<and>
     queue_ok (sl_worker s) (sl_store s) [] \<and> store_ok (sl_store s) [] \<and> sl_notify s = 0"

definition proxy_initial :: "'app \<Rightarrow> ('app, 'cb) proxy \<Rightarrow> bool" where
  "proxy_initial app0 p \<longleftrightarrow> pool_ok (px_pool p) \<and> (\<forall>i < px_count p. slot_started i (px_slot p i)) \<and>
     px_pcs p = replicate (px_count p) In_Dispatch \<and> px_app p = app0 \<and> px_main p = Main_Loop \<and>
     px_loop p = \<lparr>el_break = False, el_exit = False\<rparr> \<and> px_disabled p = {} \<and>
     px_accepted p = [] \<and> px_closed p = [] \<and> px_sent p = [] \<and> px_hist p = [] \<and> px_missed p = {}"

definition proxy_reach :: "'app handlers \<Rightarrow> ('cb \<Rightarrow> 'app \<Rightarrow> 'app) \<Rightarrow> 'app \<Rightarrow> ('app, 'cb) proxy \<Rightarrow> bool" where
  "proxy_reach H C app0 = reach (proxy_initial app0) (proxy_step H C)"

section \<open>The proxy seen from one worker\<close>

definition jobs_for :: "nat \<Rightarrow> (nat \<times> job) list \<Rightarrow> job list" where
  "jobs_for i sent = map snd (filter (\<lambda>x. fst x = i) sent)"

definition jobs_run :: "nat \<Rightarrow> 'cb activity list \<Rightarrow> job list" where
  "jobs_run i hist = concat (map (\<lambda>x. case x of Ran k j \<Rightarrow> if k = i then [j] else [] | Called _ _ \<Rightarrow> []) hist)"

definition main_inflight :: "main_pc \<Rightarrow> nat \<Rightarrow> nat" where
  "main_inflight m i = (case m of Main_Notify k \<Rightarrow> if k = i then 1 else 0
     | Main_Stop_Notify k \<Rightarrow> if k = i then 1 else 0 | _ \<Rightarrow> 0)"

definition worker_view :: "nat \<Rightarrow> ('app, 'cb) proxy \<Rightarrow> unit sys" where
  "worker_view i p = \<lparr>s_w = sl_worker (px_slot p i), s_st = sl_store (px_slot p i), s_notify = sl_notify (px_slot p i),
     s_inflight = main_inflight (px_main p) i, s_pc = px_pcs p ! i, s_app = (),
     s_accepted = jobs_for i (px_sent p), s_done = jobs_run i (px_hist p),
     s_missed = (i \<in> px_missed p)\<rparr>"

definition unit_handlers :: "unit handlers" where
  "unit_handlers = \<lparr>worker_adopt_client_fd_call = (\<lambda>_ _ _. ()), cleanup_idle_datagram_clients_call = (\<lambda>_ _. ()),
     datagram_route_handle_packet_call = (\<lambda>_ _ _ _. ())\<rparr>"

text \<open>What a message does to the heap does not depend on what the handlers do.\<close>

lemma process_one_heap:
  assumes "worker_process_one H w a st app = Some (m, st', app')"
  shows "worker_process_one unit_handlers w a st () = Some (m, st', ())"
proof -
  obtain x where "st_msgs st a = Some x" using assms by (cases "st_msgs st a") (simp_all add: worker_process_one_def)
  with assms show ?thesis
    by (cases "payload x") (auto simp: worker_process_one_def worker_process_msg_def Option.bind_eq_Some_conv)
qed

lemma jobs_for_simps [simp]:
  "jobs_for i [] = []" "jobs_for i (xs @ ys) = jobs_for i xs @ jobs_for i ys"
  "jobs_for i [(k, j)] = (if k = i then [j] else [])"
  by (simp_all add: jobs_for_def)

lemma jobs_run_simps [simp]:
  "jobs_run i [] = []" "jobs_run i (xs @ ys) = jobs_run i xs @ jobs_run i ys"
  "jobs_run i [Ran k j] = (if k = i then [j] else [])" "jobs_run i [Called k c] = []"
  by (simp_all add: jobs_run_def)

lemma main_inflight_simps [simp]:
  "main_inflight Main_Loop i = 0" "main_inflight (Main_Notify k) i = (if k = i then 1 else 0)"
  "main_inflight (Main_Stopping k) i = 0" "main_inflight (Main_Stop_Notify k) i = (if k = i then 1 else 0)"
  "main_inflight Main_Joining i = 0"
  by (simp_all add: main_inflight_def)

section \<open>Slots\<close>

lemma px_slot_upd:
  assumes "pool_ok (px_pool p)" and "i < px_count p"
  shows "px_slot (upd_slot i s pc p) k = (if k = i then s else px_slot p k)"
    and "pool_ok (px_pool (upd_slot i s pc p))"
    and "pool_next (px_pool (upd_slot i s pc p)) = pool_next (px_pool p)"
  using assms by (auto simp: px_slot_def px_count_def upd_slot_def pool_slot_def set_slot_def pool_ok_def split: option.splits)

lemma px_count_upd [simp]: "px_count (upd_slot i s pc p) = px_count p"
  by (simp add: px_count_def upd_slot_def set_slot_def)

lemma upd_slot_fields [simp]:
  "px_pcs (upd_slot i s pc p) = (px_pcs p)[i := pc]" "px_app (upd_slot i s pc p) = px_app p"
  "px_main (upd_slot i s pc p) = px_main p" "px_loop (upd_slot i s pc p) = px_loop p"
  "px_ctxs (upd_slot i s pc p) = px_ctxs p" "px_disabled (upd_slot i s pc p) = px_disabled p"
  "px_accepted (upd_slot i s pc p) = px_accepted p" "px_closed (upd_slot i s pc p) = px_closed p"
  "px_sent (upd_slot i s pc p) = px_sent p" "px_hist (upd_slot i s pc p) = px_hist p"
  "px_missed (upd_slot i s pc p) = px_missed p"
  by (simp_all add: upd_slot_def)

lemma px_slot_fields [simp]:
  "px_slot (p\<lparr>px_pcs := v1\<rparr>) = px_slot p" "px_slot (p\<lparr>px_app := v2\<rparr>) = px_slot p" "px_slot (p\<lparr>px_main := v3\<rparr>) = px_slot p"
  "px_slot (p\<lparr>px_loop := v4\<rparr>) = px_slot p" "px_slot (p\<lparr>px_disabled := v5\<rparr>) = px_slot p"
  "px_slot (p\<lparr>px_accepted := v6\<rparr>) = px_slot p" "px_slot (p\<lparr>px_closed := v7\<rparr>) = px_slot p"
  "px_slot (p\<lparr>px_sent := v8\<rparr>) = px_slot p" "px_slot (p\<lparr>px_hist := v9\<rparr>) = px_slot p"
  "px_slot (p\<lparr>px_missed := v10\<rparr>) = px_slot p"
  by (simp_all add: px_slot_def fun_eq_iff)

lemma px_count_fields [simp]:
  "px_count (p\<lparr>px_pcs := v1\<rparr>) = px_count p" "px_count (p\<lparr>px_app := v2\<rparr>) = px_count p" "px_count (p\<lparr>px_main := v3\<rparr>) = px_count p"
  "px_count (p\<lparr>px_loop := v4\<rparr>) = px_count p" "px_count (p\<lparr>px_disabled := v5\<rparr>) = px_count p"
  "px_count (p\<lparr>px_accepted := v6\<rparr>) = px_count p" "px_count (p\<lparr>px_closed := v7\<rparr>) = px_count p"
  "px_count (p\<lparr>px_sent := v8\<rparr>) = px_count p" "px_count (p\<lparr>px_hist := v9\<rparr>) = px_count p"
  "px_count (p\<lparr>px_missed := v10\<rparr>) = px_count p"
  by (simp_all add: px_count_def)

section \<open>A dispatch, up to the wake-up\<close>

text \<open>
  The pools before and after a message was dispatched to a worker: the other workers are as before, and so is this
  one unless the message was queued.
\<close>

definition dispatched :: "nat \<Rightarrow> job \<Rightarrow> bool \<Rightarrow> worker_pool \<Rightarrow> worker_pool \<Rightarrow> bool" where
  "dispatched i j queued pool pool' \<longleftrightarrow> pool_ok pool' \<and> pool_count pool' = pool_count pool \<and>
     (\<forall>k. k \<noteq> i \<or> \<not> queued \<longrightarrow> pool_slot pool' k = pool_slot pool k) \<and>
     (queued \<longrightarrow> (\<exists>a w' st'. fresh_job a j (sl_store (pool_slot pool i)) \<and>
        enqueue_locked (sl_worker (pool_slot pool i)) a (put_job a j (sl_store (pool_slot pool i))) = Some (True, w', st') \<and>
        pool_slot pool' i = \<lparr>sl_worker = w', sl_store = st', sl_notify = sl_notify (pool_slot pool i)\<rparr>))"

lemma enqueue_msg_unsent:
  assumes "\<not> w_stopping w" and "worker_enqueue_msg unsent w a st n = Some (rc, w', st', n')"
  shows "rc = Inr () \<and> enqueue_locked w a st = Some (True, w', st') \<and> n' = n"
  using assms by (auto simp: worker_enqueue_msg_def enqueue_locked_def notify_worker_def unsent_def Option.bind_eq_Some_conv)

text \<open>Replacing the slot of the chosen worker in the pool whose counter was advanced.\<close>

lemma dispatched_set_slot:
  assumes "pool_ok pool" and "i < pool_count pool"
    and "s = pool_slot pool i \<and> \<not> queued \<or> queued \<and> (\<exists>a w' st'. fresh_job a j (sl_store (pool_slot pool i)) \<and>
        enqueue_locked (sl_worker (pool_slot pool i)) a (put_job a j (sl_store (pool_slot pool i))) = Some (True, w', st') \<and>
        s = \<lparr>sl_worker = w', sl_store = st', sl_notify = sl_notify (pool_slot pool i)\<rparr>)"
  shows "dispatched i j queued pool (set_slot (pool\<lparr>pool_next := pool_next pool + 1\<rparr>) i s)"
proof -
  obtain ss where ss: "pool_workers pool = Some ss" "length ss = pool_count pool" "0 < pool_count pool"
    using assms(1) by (auto simp: pool_ok_def split: option.splits)
  let ?pool = "set_slot (pool\<lparr>pool_next := pool_next pool + 1\<rparr>) i s"
  have slots: "pool_slot ?pool k = (if k = i then s else pool_slot pool k)" for k
    using ss assms(2) by (simp add: pool_slot_def set_slot_def)
  have "pool_ok ?pool" "pool_count ?pool = pool_count pool"
    using ss by (simp_all add: pool_ok_def set_slot_def)
  then show ?thesis using assms(3) unfolding dispatched_def slots by auto
qed

lemma worker_pool_next_ok:
  assumes "pool_ok pool"
  shows "worker_pool_next pool = (Some (unat (pool_next pool) mod pool_count pool), pool\<lparr>pool_next := pool_next pool + 1\<rparr>)"
    and "unat (pool_next pool) mod pool_count pool < pool_count pool"
    and "pool_slot (pool\<lparr>pool_next := n\<rparr>) k = pool_slot pool k"
  using assms by (auto simp: pool_ok_def worker_pool_next_def pool_slot_def split: option.splits)


lemma stream_enqueue_unsent:
  assumes "\<not> w_stopping w" and "\<And>a. calloc = Some a \<Longrightarrow> st_msgs st a = None"
    and "worker_enqueue_stream_client unsent calloc w (Some r) fd addr len st n = Some (rc, w', st', n')"
    and "j = (stream_client_payload r fd addr len, [])"
  shows "rc \<noteq> Inr () \<and> w' = w \<and> st' = st \<and> n' = n \<or>
    rc = Inr () \<and> n' = n \<and> (\<exists>a. fresh_job a j st \<and> enqueue_locked w a (put_job a j st) = Some (True, w', st'))"
proof (cases "socket_is_valid fd \<and> len \<le> SIZEOF_SS \<and> calloc \<noteq> None")
  case False
  then show ?thesis using assms(3) by (auto simp: worker_enqueue_stream_client_def split: if_splits option.splits)
next
  case True
  then obtain a where a: "calloc = Some a" by blast
  have "data_ptr (fst j) = None" "snd j = []" by (simp_all add: assms(4) stream_client_payload_def)
  then have "fresh_job a j st" and "worker_enqueue_msg unsent w a (put_job a j st) n = Some (rc, w', st', n')"
    using True a assms(2-4) by (simp_all add: fresh_job_def worker_enqueue_stream_client_def put_job_def)
  with enqueue_msg_unsent [OF assms(1)] show ?thesis by blast
qed

lemma datagram_enqueue_unsent:
  assumes "\<not> w_stopping w" and "\<And>a. calloc = Some a \<Longrightarrow> st_msgs st a = None" and "\<And>b. malloc = Some b \<Longrightarrow> st_bufs st b = None"
    and "worker_enqueue_datagram_packet unsent calloc malloc w ctx_addr ro fd (Some peer) len
      (Some data) (length data) st n = Some (rc, w', st', n')"
    and "j = (datagram_payload (the ro) ctx_addr peer len (if data = [] then None else malloc) (length data), data)"
  shows "rc \<noteq> Inr () \<and> w' = w \<and> st' = st \<and> n' = n \<or>
    rc = Inr () \<and> n' = n \<and> (\<exists>a. fresh_job a j st \<and> enqueue_locked w a (put_job a j st) = Some (True, w', st'))"
proof (cases "ro \<noteq> None \<and> socket_is_valid fd \<and> 0 < len \<and> len \<le> SIZEOF_SS \<and> calloc \<noteq> None")
  case False
  then show ?thesis using assms(4) by (auto simp: worker_enqueue_datagram_packet_def Let_def split: if_splits option.splits)
next
  case True
  then obtain r a where ra: "ro = Some r" "calloc = Some a" by blast
  have "a \<notin> dom (st_msgs st)" using assms(2) ra(2) by auto
  then have upd: "(st_msgs st)(a := None) = st_msgs st" by auto
  show ?thesis
  proof (cases "data \<noteq> [] \<and> malloc = None")
    case nomem: True
    have "free_msg a (st\<lparr>st_msgs := (st_msgs st)(a \<mapsto> m)\<rparr>) = Some st" for m by (simp add: free_msg_def upd)
    then show ?thesis using True nomem ra assms(4) by (auto simp: worker_enqueue_datagram_packet_def Let_def)
  next
    case mem: False
    have ptr: "data_ptr (fst j) = (if data = [] then None else malloc)" "snd j = data"
      by (simp_all add: assms(5) datagram_payload_def)
    have "fresh_job a j st" using assms(2,3) ra mem ptr by (auto simp: fresh_job_def split: option.split)
    moreover have "worker_enqueue_msg unsent w a (put_job a j st) n = Some (rc, w', st', n')"
      using True ra mem assms(4,5)
      by (auto simp: worker_enqueue_datagram_packet_def put_job_def datagram_payload_def Let_def store_upd_comm
        split: option.splits)
    ultimately show ?thesis using enqueue_msg_unsent [OF assms(1)] by blast
  qed
qed

lemma accept_cb_dispatched:
  assumes "pool_ok pool" and "i = unat (pool_next pool) mod pool_count pool"
    and "\<not> w_stopping (sl_worker (pool_slot pool i))" and "\<And>a. calloc = Some a \<Longrightarrow> st_msgs (sl_store (pool_slot pool i)) a = None"
    and "accept_cb unsent calloc pool r fd addr socklen = Some (pool', closed)"
  shows "dispatched i (stream_client_payload r fd addr (nat socklen), []) (closed = []) pool pool' \<and> (closed = [] \<or> closed = [fd])"
proof (cases "addr = None \<or> socklen \<le> 0 \<or> SIZEOF_SS < nat socklen")
  case True
  then have "pool' = pool \<and> closed = [fd]" using assms(5) by (auto simp: accept_cb_def split: option.splits)
  then show ?thesis using assms(1) by (simp add: dispatched_def)
next
  case False
  then obtain a where a: "addr = Some a" by (cases addr) auto
  note nx = worker_pool_next_ok [OF assms(1), folded assms(2)]
  let ?s = "pool_slot pool i"
  obtain rc w' st' n' where enq: "worker_enqueue_stream_client unsent calloc (sl_worker ?s) (Some r) fd addr (nat socklen)
      (sl_store ?s) (sl_notify ?s) = Some (rc, w', st', n')"
    and res: "pool' = set_slot (pool\<lparr>pool_next := pool_next pool + 1\<rparr>) i \<lparr>sl_worker = w', sl_store = st', sl_notify = n'\<rparr>"
      "closed = (case rc of Inl _ \<Rightarrow> [fd] | Inr _ \<Rightarrow> [])"
    using False a assms(5) by (auto simp: accept_cb_def nx dispatch_client_fd_def Let_def)
  have "closed = [] \<longleftrightarrow> rc = Inr ()" using res(2) by (cases rc) simp_all
  with stream_enqueue_unsent [OF assms(3,4) enq refl] have "dispatched i (stream_client_payload r fd addr (nat socklen), []) (closed = []) pool pool'"
    unfolding res(1) by (intro dispatched_set_slot [OF assms(1) nx(2)]) auto
  then show ?thesis using res(2) by (auto split: sum.splits)
qed

lemma listen_read_dispatched:
  assumes "pool_ok pool" and "i = unat (pool_next pool) mod pool_count pool"
    and "\<not> w_stopping (sl_worker (pool_slot pool i))" and "\<And>a. calloc = Some a \<Longrightarrow> st_msgs (sl_store (pool_slot pool i)) a = None"
    and "\<And>b. malloc = Some b \<Longrightarrow> st_bufs (sl_store (pool_slot pool i)) b = None" and "length data \<le> 65535"
    and "dispatch_datagram_packet unsent calloc malloc ctx_addr ctx pool peer len data = Some (rc, pool'')"
    and "listen_read_cb unsent calloc malloc ctx_addr ctx pool (Inr (data, peer, len)) = Some pool'"
  shows "dispatched i (datagram_payload (the (dg_route ctx)) ctx_addr peer len (if data = [] then None else malloc) (length data), data)
    (rc = Inr ()) pool pool'"
proof -
  have eq: "pool'' = pool'" using assms(6-8) by (simp add: listen_read_cb_def)
  note nx = worker_pool_next_ok [OF assms(1), folded assms(2)]
  let ?s = "pool_slot pool i"
  show ?thesis
  proof (cases "dg_worker_pool ctx")
    case False
    then show ?thesis using assms(1,7) eq by (auto simp: dispatch_datagram_packet_def dispatched_def)
  next
    case True
    then obtain w' st' n' where enq: "worker_enqueue_datagram_packet unsent calloc malloc (sl_worker ?s) ctx_addr (dg_route ctx)
        (dg_listen_fd ctx) (Some peer) len (Some data) (length data) (sl_store ?s) (sl_notify ?s) = Some (rc, w', st', n')"
      and res: "pool' = set_slot (pool\<lparr>pool_next := pool_next pool + 1\<rparr>) i \<lparr>sl_worker = w', sl_store = st', sl_notify = n'\<rparr>"
      using assms(7) eq by (auto simp: dispatch_datagram_packet_def nx Let_def)
    from datagram_enqueue_unsent [OF assms(3-5) enq refl] show ?thesis
      unfolding res by (intro dispatched_set_slot [OF assms(1) nx(2)]) auto
  qed
qed


section \<open>The invariant of the threads\<close>

text \<open>The workers that the main thread has told to stop are those below this number.\<close>

definition stopped_below :: "('app, 'cb) proxy \<Rightarrow> nat" where
  "stopped_below p = (case px_main p of Main_Loop \<Rightarrow> 0 | Main_Notify _ \<Rightarrow> 0 | Main_Stopping k \<Rightarrow> k
     | Main_Stop_Notify k \<Rightarrow> k + 1 | Main_Joining \<Rightarrow> px_count p)"

lemma stopped_below_simps [simp]:
  "stopped_below (p\<lparr>px_accepted := v1\<rparr>) = stopped_below p" "stopped_below (p\<lparr>px_closed := v2\<rparr>) = stopped_below p"
  "stopped_below (p\<lparr>px_loop := v3\<rparr>) = stopped_below p" "stopped_below (p\<lparr>px_disabled := v4\<rparr>) = stopped_below p"
  "stopped_below (p\<lparr>px_app := v5\<rparr>) = stopped_below p" "stopped_below (p\<lparr>px_hist := v6\<rparr>) = stopped_below p"
  "stopped_below (upd_slot i s pc p) = stopped_below p" "stopped_below (p\<lparr>px_missed := v7\<rparr>) = stopped_below p"
  "stopped_below (p\<lparr>px_main := Main_Loop\<rparr>) = 0" "stopped_below (p\<lparr>px_main := Main_Stopping k\<rparr>) = k"
  "stopped_below (p\<lparr>px_main := Main_Stop_Notify k\<rparr>) = k + 1" "stopped_below (p\<lparr>px_main := Main_Joining\<rparr>) = px_count p"
  by (simp_all add: stopped_below_def split: main_pc.split)

lemma stopped_below_main:
  "px_main p = Main_Loop \<Longrightarrow> stopped_below p = 0" "px_main p = Main_Notify k \<Longrightarrow> stopped_below p = 0"
  "px_main p = Main_Stopping k \<Longrightarrow> stopped_below p = k" "px_main p = Main_Stop_Notify k \<Longrightarrow> stopped_below p = k + 1"
  "px_main p = Main_Joining \<Longrightarrow> stopped_below p = px_count p"
  by (simp_all add: stopped_below_def)

definition perform :: "'app handlers \<Rightarrow> ('cb \<Rightarrow> 'app \<Rightarrow> 'app) \<Rightarrow> 'cb activity \<Rightarrow> 'app \<Rightarrow> 'app" where
  "perform H C x = (case x of Ran i j \<Rightarrow> run_job H (word_of_nat (i + 1)) j | Called i c \<Rightarrow> C c)"

definition proxy_shape :: "('app, 'cb) proxy \<Rightarrow> bool" where
  "proxy_shape p \<longleftrightarrow> pool_ok (px_pool p) \<and> length (px_pcs p) = px_count p \<and> stopped_below p \<le> px_count p \<and>
     (\<forall>k. px_main p = Main_Notify k \<longrightarrow> k < px_count p) \<and>
     (\<forall>i < px_count p. w_started (sl_worker (px_slot p i)) \<and> w_id (sl_worker (px_slot p i)) = word_of_nat (i + 1) \<and>
        (w_stopping (sl_worker (px_slot p i)) \<longleftrightarrow> i < stopped_below p))"

text \<open>What is left of the whole, apart from the views of the workers.\<close>

definition proxy_histories :: "'app handlers \<Rightarrow> ('cb \<Rightarrow> 'app \<Rightarrow> 'app) \<Rightarrow> 'app \<Rightarrow> ('app, 'cb) proxy \<Rightarrow> bool" where
  "proxy_histories H C app0 p \<longleftrightarrow> px_app p = fold (perform H C) (px_hist p) app0 \<and>
     mset (px_accepted p) = mset (px_closed p) + mset (client_fds (map snd (px_sent p))) \<and>
     (\<forall>(i, j) \<in> set (px_sent p). i < px_count p) \<and> (\<forall>i j. Ran i j \<in> set (px_hist p) \<longrightarrow> i < px_count p)"

lemma same_worker_append:
  assumes "worker_append w a st = Some (w', st')"
  shows "w_started w' = w_started w \<and> w_stopping w' = w_stopping w \<and> w_id w' = w_id w"
  using assms by (auto simp: worker_append_def Option.bind_eq_Some_conv split: option.splits)

lemma same_worker_enqueue:
  assumes "enqueue_locked w a st = Some (True, w', st')"
  shows "w_started w' = w_started w \<and> w_stopping w' = w_stopping w \<and> w_id w' = w_id w"
  using assms by (auto simp: enqueue_locked_def dest: same_worker_append split: if_splits)

text \<open>A dispatch from the event loop, as the callbacks for clients and for datagrams make it.\<close>

lemma px_slot_dispatch: "px_slot (after_dispatch queued j p pool) k = pool_slot pool k"
  by (simp add: px_slot_def after_dispatch_def)

lemma px_count_dispatch: "px_count (after_dispatch queued j p pool) = pool_count pool"
  by (simp add: px_count_def after_dispatch_def)

lemma dispatch_shape:
  assumes "proxy_shape p" and "in_callback p" and "dispatched (next_slot p) j queued (px_pool p) pool"
  shows "proxy_shape (after_dispatch queued j p pool)" and "px_count (after_dispatch queued j p pool) = px_count p"
proof -
  let ?q = "after_dispatch queued j p pool"
  have d: "pool_ok pool" "pool_count pool = px_count p"
    using assms(3) by (simp_all add: dispatched_def px_count_def)
  have same: "w_started (sl_worker (pool_slot pool k)) = w_started (sl_worker (px_slot p k)) \<and>
      w_stopping (sl_worker (pool_slot pool k)) = w_stopping (sl_worker (px_slot p k)) \<and>
      w_id (sl_worker (pool_slot pool k)) = w_id (sl_worker (px_slot p k))" for k
    using assms(3) same_worker_enqueue unfolding dispatched_def px_slot_def by (cases "k = next_slot p \<and> queued") fastforce+
  have main: "px_main p = Main_Loop" using assms(2) by (simp add: in_callback_def)
  have nxt: "next_slot p < px_count p"
    using assms(1) worker_pool_next_ok(2) [of "px_pool p"] by (simp add: proxy_shape_def next_slot_def px_count_def)
  have "stopped_below ?q = stopped_below p" "px_pcs ?q = px_pcs p" "px_pool ?q = pool"
    using main by (auto simp: stopped_below_def after_dispatch_def)
  then show "proxy_shape ?q"
    using assms(1) d same nxt unfolding proxy_shape_def px_slot_dispatch px_count_dispatch
    by (auto simp: after_dispatch_def split: if_splits)
  show "px_count ?q = px_count p" using d(2) by (simp add: px_count_dispatch)
qed

lemma dispatch_view:
  assumes "in_callback p" and "dispatched (next_slot p) j queued (px_pool p) pool"
  shows "worker_view i (after_dispatch queued j p pool) = worker_view i p \<or>
    worker_step unit_handlers (worker_view i p) (worker_view i (after_dispatch queued j p pool))"
proof (cases "i = next_slot p \<and> queued")
  case False
  then show ?thesis
    using assms by (auto simp: worker_view_def px_slot_dispatch dispatched_def in_callback_def after_dispatch_def px_slot_def)
next
  case True
  then obtain a w' st' where e: "fresh_job a j (s_st (worker_view i p))"
    "enqueue_locked (s_w (worker_view i p)) a (put_job a j (s_st (worker_view i p))) = Some (True, w', st')"
    "pool_slot pool i = \<lparr>sl_worker = w', sl_store = st', sl_notify = sl_notify (pool_slot (px_pool p) i)\<rparr>"
    using assms(2) by (auto simp: dispatched_def worker_view_def px_slot_def)
  have "worker_view i (after_dispatch queued j p pool) = (worker_view i p)\<lparr>s_w := w', s_st := st',
      s_inflight := s_inflight (worker_view i p) + 1, s_accepted := s_accepted (worker_view i p) @ [j]\<rparr>"
    using True e(3) assms(1) by (simp add: worker_view_def px_slot_dispatch after_dispatch_def in_callback_def px_slot_def)
  with worker_step.enqueue [OF e(1,2), of unit_handlers] show ?thesis by simp
qed


section \<open>Every step of the proxy, seen from a worker\<close>

lemma worker_view_fields [simp]:
  "worker_view i (p\<lparr>px_accepted := v1\<rparr>) = worker_view i p" "worker_view i (p\<lparr>px_closed := v2\<rparr>) = worker_view i p"
  "worker_view i (p\<lparr>px_loop := v3\<rparr>) = worker_view i p" "worker_view i (p\<lparr>px_disabled := v4\<rparr>) = worker_view i p"
  "worker_view i (p\<lparr>px_app := v5\<rparr>) = worker_view i p"
  "worker_view i (p\<lparr>px_main := m\<rparr>) = (worker_view i p)\<lparr>s_inflight := main_inflight m i\<rparr>"
  "worker_view i (p\<lparr>px_hist := h\<rparr>) = (worker_view i p)\<lparr>s_done := jobs_run i h\<rparr>"
  "worker_view i (p\<lparr>px_missed := x\<rparr>) = (worker_view i p)\<lparr>s_missed := (i \<in> x)\<rparr>"
  by (simp_all add: worker_view_def)

lemma worker_view_sel [simp]:
  "s_w (worker_view i p) = sl_worker (px_slot p i)" "s_st (worker_view i p) = sl_store (px_slot p i)"
  "s_notify (worker_view i p) = sl_notify (px_slot p i)" "s_pc (worker_view i p) = px_pcs p ! i"
  "s_inflight (worker_view i p) = main_inflight (px_main p) i" "s_done (worker_view i p) = jobs_run i (px_hist p)"
  "s_app (worker_view i p) = ()" "s_accepted (worker_view i p) = jobs_for i (px_sent p)"
  "s_missed (worker_view i p) = (i \<in> px_missed p)"
  by (simp_all add: worker_view_def)

lemma worker_view_same [simp]:
  "(worker_view i p)\<lparr>s_done := jobs_run i (px_hist p)\<rparr> = worker_view i p"
  "(worker_view i p)\<lparr>s_inflight := main_inflight (px_main p) i\<rparr> = worker_view i p"
  "(worker_view i p)\<lparr>s_missed := (i \<in> px_missed p)\<rparr> = worker_view i p"
  by (simp_all add: worker_view_def)

lemma worker_view_upd:
  assumes "proxy_shape p" and "i < px_count p"
  shows "worker_view k (upd_slot i s pc p) = (if k = i then (worker_view i p)\<lparr>s_w := sl_worker s, s_st := sl_store s,
      s_notify := sl_notify s, s_pc := pc\<rparr> else worker_view k p)"
  using assms px_slot_upd(1) [of p i s pc] by (auto simp: worker_view_def proxy_shape_def)

lemma thread_view_other:
  assumes "proxy_shape p" and "i < px_count p" and "thread_step H C i p q" and "k \<noteq> i"
  shows "worker_view k q = worker_view k p"
  using assms(3) by cases (use assms(4) in \<open>simp_all add: worker_view_upd [OF assms(1,2)]\<close>)

lemma thread_view:
  assumes "proxy_shape p" and "i < px_count p" and "thread_step H C i p q"
  shows "worker_view k q = worker_view k p \<or> worker_step unit_handlers (worker_view k p) (worker_view k q)"
proof (cases "k = i")
  case False
  with thread_view_other [OF assms] show ?thesis by simp
next
  case True
  let ?v = "worker_view i p"
  note view = worker_view_upd [OF assms(1,2)]
  from assms(3) have "worker_view i q = ?v \<or> worker_step unit_handlers ?v (worker_view i q)"
  proof cases
    case wake
    then show ?thesis using worker_step.wake [of ?v unit_handlers] by (simp add: view) (simp add: worker_view_def)
  next
    case (recv n)
    then show ?thesis using worker_step.recv [of ?v n unit_handlers]
      by (cases "n < 128") (simp_all add: view, simp_all add: worker_view_def)
  next
    case (take_pending m w')
    then show ?thesis using worker_step.take_pending [of ?v m w' unit_handlers] by (simp add: view) (simp add: worker_view_def)
  next
    case (process a m st' app')
    from process_one_heap [OF process(3)] process(2) worker_step.process [of ?v a unit_handlers m st' "()"] show ?thesis
      unfolding process(1) by (simp add: view) (simp add: worker_view_def)
  next
    case processed
    then show ?thesis using worker_step.processed [of ?v unit_handlers] by (simp add: view) (simp add: worker_view_def)
  next
    case check
    then show ?thesis using worker_step.check [of ?v unit_handlers]
      by (cases "w_stopping (sl_worker (px_slot p i))") (simp_all add: view, simp_all add: worker_view_def)
  next
    case (callback c)
    then show ?thesis by (simp add: worker_view_def)
  qed
  with True show ?thesis by simp
qed


lemma thread_shape:
  assumes "proxy_shape p" and "i < px_count p" and "thread_step H C i p q"
  shows "proxy_shape q \<and> px_count q = px_count p"
proof -
  note slots = px_slot_upd [OF _ assms(2)]
  have shape: "proxy_shape (upd_slot i s pc p)"
    if "w_started (sl_worker s) = w_started (sl_worker (px_slot p i))" "w_id (sl_worker s) = w_id (sl_worker (px_slot p i))"
      "w_stopping (sl_worker s) = w_stopping (sl_worker (px_slot p i))" for s pc
    using assms(1) that by (auto simp: proxy_shape_def slots)
  have fields: "proxy_shape (r\<lparr>px_app := x, px_hist := y\<rparr>) = proxy_shape r" "proxy_shape (r\<lparr>px_missed := z\<rparr>) = proxy_shape r"
    for r :: "('a, 'b) proxy" and x y z by (simp_all add: proxy_shape_def)
  from assms(3) show ?thesis
    by cases (use assms(1) in \<open>auto simp: shape fields worker_take_pending_def\<close>)
qed

lemma notify_view:
  assumes "proxy_shape p" and "i < px_count p" and "0 < main_inflight (px_main p) i" and "main_inflight m i = 0"
    and "notify_worker send (sl_notify (px_slot p i)) = (rc, n)" and "\<And>k. k \<noteq> i \<Longrightarrow> main_inflight (px_main p) k = main_inflight m k"
    and "q = after_notify i n m p"
  shows "worker_view k q = worker_view k p \<or> worker_step unit_handlers (worker_view k p) (worker_view k q)"
proof (cases "k = i")
  case True
  have "main_inflight (px_main p) i = 1" using assms(3) by (simp add: main_inflight_def split: main_pc.splits if_splits)
  then show ?thesis using worker_step.notify [of "worker_view i p" send rc n unit_handlers] assms(3-5) True
    by (cases "n = 0") (simp_all add: assms(7) after_notify_def worker_view_upd [OF assms(1,2)], simp_all add: worker_view_def)
next
  case False
  then show ?thesis using assms(6) [of k, symmetric] by (auto simp: assms(7) after_notify_def worker_view_upd [OF assms(1,2)])
qed

lemma alloc_fresh_next:
  assumes "proxy_shape p" and "alloc_fresh calloc malloc p"
  shows "next_slot p < px_count p"
    and "calloc = Some a \<Longrightarrow> st_msgs (sl_store (pool_slot (px_pool p) (next_slot p))) a = None"
    and "malloc = Some b \<Longrightarrow> st_bufs (sl_store (pool_slot (px_pool p) (next_slot p))) b = None"
proof -
  show "next_slot p < px_count p"
    using assms(1) worker_pool_next_ok(2) [of "px_pool p"] by (simp add: proxy_shape_def next_slot_def px_count_def)
  with assms(2) show "calloc = Some a \<Longrightarrow> st_msgs (sl_store (pool_slot (px_pool p) (next_slot p))) a = None"
    "malloc = Some b \<Longrightarrow> st_bufs (sl_store (pool_slot (px_pool p) (next_slot p))) b = None"
    by (auto simp: alloc_fresh_def px_slot_def)
qed

text \<open>While the event loop runs no worker is stopping, so no message is refused.\<close>

lemma callback_not_stopping:
  assumes "proxy_shape p" and "in_callback p" and "i < px_count p"
  shows "\<not> w_stopping (sl_worker (pool_slot (px_pool p) i))"
  using assms by (auto simp: proxy_shape_def in_callback_def stopped_below_main px_slot_def)

lemma accept_dispatched:
  assumes "proxy_shape p" and "in_callback p" and "alloc_fresh calloc None p"
    and "accept_cb unsent calloc (px_pool p) r fd addr socklen = Some (pool, closed)"
  shows "dispatched (next_slot p) (stream_client_payload r fd addr (nat socklen), []) (closed = []) (px_pool p) pool"
    and "closed = [] \<or> closed = [fd]"
  using accept_cb_dispatched [OF _ _ callback_not_stopping [OF assms(1,2) alloc_fresh_next(1) [OF assms(1,3)]]
      alloc_fresh_next(2) [OF assms(1,3)] assms(4)] assms(1)
  by (auto simp: proxy_shape_def next_slot_def px_count_def)

lemma datagram_dispatched:
  assumes "proxy_shape p" and "in_callback p" and "alloc_fresh calloc malloc p" and "length data \<le> 65535"
    and "dispatch_datagram_packet unsent calloc malloc ctx_addr ctx (px_pool p) peer len data = Some (rc, pool)"
    and "listen_read_cb unsent calloc malloc ctx_addr ctx (px_pool p) (Inr (data, peer, len)) = Some pool'"
  shows "dispatched (next_slot p) (datagram_payload (the (dg_route ctx)) ctx_addr peer len (if data = [] then None else malloc)
    (length data), data) (rc = Inr ()) (px_pool p) pool'"
  using listen_read_dispatched [OF _ _ callback_not_stopping [OF assms(1,2) alloc_fresh_next(1) [OF assms(1,3)]]
      alloc_fresh_next(2,3) [OF assms(1,3)] assms(4-6)] assms(1)
  by (auto simp: proxy_shape_def next_slot_def px_count_def)


lemma main_view:
  assumes "proxy_shape p" and "i < px_count p" and "main_step p q"
  shows "worker_view i q = worker_view i p \<or> worker_step unit_handlers (worker_view i p) (worker_view i q)"
  using assms(3)
proof cases
  case (accept k u r calloc fd addr socklen pool closed)
  note d = accept_dispatched [OF assms(1) accept(2,7,9)]
  from dispatch_view [OF accept(2) d(1)] accept(1) show ?thesis by simp
next
  case (datagram k ctx calloc malloc data ctx_addr peer len rc pool pool')
  note d = datagram_dispatched [OF assms(1) datagram(2,5-8)]
  from dispatch_view [OF datagram(2) d] datagram(1) show ?thesis by simp
next
  case (notify k send rc n)
  have "k < px_count p" using assms(1) notify(2) by (simp add: proxy_shape_def)
  then show ?thesis by (rule notify_view [OF assms(1) _ _ _ notify(3) _ notify(1)]) (simp_all add: notify(2))
next
  case (stop k)
  let ?s = "px_slot p k" and ?v = "worker_view i p"
  show ?thesis
  proof (cases "i = k")
    case True
    have "w_started (sl_worker (px_slot p k))" using assms(1) stop(3) by (simp add: proxy_shape_def)
    with True show ?thesis using worker_step.stop [of unit_handlers ?v] stop(2)
      by (simp add: stop(1) worker_view_upd [OF assms(1) stop(3)] slot_stop_def worker_stop_def unsent_def notify_worker_def Let_def)
        (simp add: worker_view_def)
  next
    case False
    then show ?thesis using stop(2)
      by (simp add: stop(1) worker_view_upd [OF assms(1) stop(3)])
  qed
next
  case (stop_notify k send rc n)
  have "k < px_count p" using assms(1) stop_notify(2) by (simp add: proxy_shape_def stopped_below_main)
  then show ?thesis by (rule notify_view [OF assms(1) _ _ _ stop_notify(3) _ stop_notify(1)]) (simp_all add: stop_notify(2))
qed (simp_all add: worker_view_def)

lemma proxy_shape_fields [simp]:
  "proxy_shape (p\<lparr>px_accepted := v1\<rparr>) = proxy_shape p" "proxy_shape (p\<lparr>px_closed := v2\<rparr>) = proxy_shape p"
  by (simp_all add: proxy_shape_def)

lemma main_shape:
  assumes "proxy_shape p" and "main_step p q"
  shows "proxy_shape q \<and> px_count q = px_count p"
  using assms(2)
proof cases
  case (accept k u r calloc fd addr socklen pool closed)
  note d = accept_dispatched [OF assms(1) accept(2,7,9)]
  from dispatch_shape [OF assms(1) accept(2) d(1)] accept(1) show ?thesis by simp
next
  case (datagram k ctx calloc malloc data ctx_addr peer len rc pool pool')
  note d = datagram_dispatched [OF assms(1) datagram(2,5-8)]
  from dispatch_shape [OF assms(1) datagram(2) d] datagram(1) show ?thesis by simp
next
  case (notify k send rc n)
  have "k < px_count p" using assms(1) notify(2) by (simp add: proxy_shape_def)
  with assms(1) notify show ?thesis by (auto simp: proxy_shape_def after_notify_def px_slot_upd stopped_below_main)
next
  case (stop k)
  with assms(1) show ?thesis
    by (auto simp: proxy_shape_def px_slot_upd stopped_below_main slot_stop_def worker_stop_def Let_def less_Suc_eq split: if_splits)
next
  case (stop_notify k send rc n)
  have "k < px_count p" using assms(1) stop_notify(2) by (simp add: proxy_shape_def stopped_below_main)
  with assms(1) stop_notify show ?thesis by (auto simp: proxy_shape_def after_notify_def px_slot_upd stopped_below_main)
qed (use assms(1) in \<open>auto simp: proxy_shape_def stopped_below_main\<close>)


section \<open>The invariant\<close>

lemma process_one_app:
  assumes "worker_process_one H w a st app = Some (m, st', app')"
  shows "app' = run_job H (w_id w) (the (job_at st a)) app"
proof -
  obtain x where "st_msgs st a = Some x" using assms by (cases "st_msgs st a") (simp_all add: worker_process_one_def)
  with assms show ?thesis
    by (cases "payload x") (auto simp: worker_process_one_def worker_process_msg_def Option.bind_eq_Some_conv job_at_def bytes_of_def)
qed

lemma client_fds_simps [simp]:
  "client_fds [] = []" "client_fds (xs @ ys) = client_fds xs @ client_fds ys"
  "client_fds [(datagram_payload r x peer len b n, bs)] = []"
  "socket_is_valid fd \<Longrightarrow> client_fds [(stream_client_payload r fd addr len, bs)] = [fd]"
  by (simp_all add: client_fds_def datagram_payload_def stream_client_payload_def split: option.split)

lemma thread_histories:
  assumes "proxy_shape p" and "i < px_count p" and "thread_step H C i p q" and "proxy_histories H C app0 p"
  shows "proxy_histories H C app0 q"
proof -
  have count: "px_count q = px_count p" using thread_shape [OF assms(1-3)] by simp
  have "w_id (sl_worker (px_slot p i)) = word_of_nat (i + 1)" using assms(1,2) by (simp add: proxy_shape_def)
  with assms(3) have "px_app q = fold (perform H C) (px_hist q) app0"
    by cases (use assms(4) in \<open>auto simp: proxy_histories_def perform_def dest: process_one_app\<close>)
  moreover have "px_accepted q = px_accepted p \<and> px_closed q = px_closed p \<and> px_sent q = px_sent p"
    using assms(3) by cases simp_all
  moreover have "k = i \<or> Ran k j \<in> set (px_hist p)" if "Ran k j \<in> set (px_hist q)" for k j
    using assms(3) that by cases auto
  ultimately show ?thesis using assms(2,4) count unfolding proxy_histories_def by metis
qed

lemma main_histories:
  assumes "proxy_shape p" and "main_step p q" and "proxy_histories H C app0 p"
  shows "proxy_histories H C app0 q"
proof -
  have count: "px_count q = px_count p" using main_shape [OF assms(1,2)] by simp
  have "next_slot p < px_count p"
    using assms(1) worker_pool_next_ok(2) [of "px_pool p"] by (simp add: proxy_shape_def next_slot_def px_count_def)
  from assms(2) this have "px_app q = px_app p \<and> px_hist q = px_hist p \<and>
      mset (px_accepted q) = mset (px_closed q) + mset (client_fds (map snd (px_sent q))) \<and>
      (\<forall>(i, j) \<in> set (px_sent q). i < px_count p)"
  proof cases
    case (accept k u r calloc fd addr socklen pool closed)
    with assms(3) accept_dispatched(2) [OF assms(1) accept(2,7,9)] \<open>next_slot p < px_count p\<close> show ?thesis
      by (auto simp: after_dispatch_def proxy_histories_def)
  next
    case (datagram k ctx calloc malloc data ctx_addr peer len rc pool pool')
    with assms(3) \<open>next_slot p < px_count p\<close> show ?thesis by (auto simp: after_dispatch_def proxy_histories_def)
  qed (use assms(3) in \<open>auto simp: proxy_histories_def after_notify_def\<close>)
  then show ?thesis using assms(3) count by (simp add: proxy_histories_def)
qed

definition proxy_inv :: "'app handlers \<Rightarrow> ('cb \<Rightarrow> 'app \<Rightarrow> 'app) \<Rightarrow> 'app \<Rightarrow> ('app, 'cb) proxy \<Rightarrow> bool" where
  "proxy_inv H C app0 p \<longleftrightarrow> proxy_shape p \<and> proxy_histories H C app0 p"

interpretation proxy_sys: component_view "proxy_initial app0" "proxy_step H C" "proxy_inv H C app0"
  "\<lambda>p. {..<px_count p}" worker_view "worker_initial ()" "worker_step unit_handlers"
proof unfold_locales
  fix p :: "('a, 'b) proxy"
  assume "proxy_initial app0 p"
  then show "proxy_inv H C app0 p"
    by (simp add: proxy_initial_def proxy_inv_def proxy_shape_def proxy_histories_def slot_started_def stopped_below_main)
next
  fix p q :: "('a, 'b) proxy"
  assume "proxy_inv H C app0 p" "proxy_step H C p q"
  then show "proxy_inv H C app0 q"
    unfolding proxy_inv_def proxy_step_def
    using main_shape [of p q] thread_shape [of p _ H C q] main_histories [of p q H C app0] thread_histories [of p _ H C q app0]
    by blast
next
  fix p :: "('a, 'b) proxy" and i
  assume "proxy_initial app0 p" "i \<in> {..<px_count p}"
  then show "worker_initial () (worker_view i p)"
    by (simp add: proxy_initial_def worker_initial_def slot_started_def)
next
  fix p q :: "('a, 'b) proxy"
  assume "proxy_inv H C app0 p" "proxy_step H C p q"
  then show "{..<px_count q} = {..<px_count p}"
    unfolding proxy_inv_def proxy_step_def using main_shape [of p q] thread_shape [of p _ H C q] by auto
next
  fix p q :: "('a, 'b) proxy" and i
  assume "proxy_inv H C app0 p" "proxy_step H C p q" "i \<in> {..<px_count p}"
  then show "worker_view i q = worker_view i p \<or> worker_step unit_handlers (worker_view i p) (worker_view i q)"
    unfolding proxy_inv_def proxy_step_def using main_view [of p i q] thread_view [of p _ H C q i] by auto
qed

lemma proxy_reach_view:
  assumes "proxy_reach H C app0 p" and "i < px_count p"
  shows "worker_reach unit_handlers () (worker_view i p)"
  using assms proxy_sys.view_reach [of app0 H C p i] by (simp add: proxy_reach_def worker_reach_def)

lemma proxy_reach_inv: "proxy_reach H C app0 p \<Longrightarrow> proxy_inv H C app0 p"
  unfolding proxy_reach_def by (rule proxy_sys.inv_reach)


text \<open>Every state of a worker is one that the release of the program (\<open>Tinyproxy\<close>) allows the threads to leave behind.\<close>

lemma proxy_thread_state:
  assumes "proxy_reach H C app0 p" and "i < px_count p" and "P (px_pcs p ! i)"
  shows "thread_state P (sl_worker (px_slot p i), sl_store (px_slot p i))"
  unfolding thread_state_def
  by (intro exI [of _ unit_handlers] exI [of _ "()"] exI [of _ "worker_view i p"])
    (simp add: proxy_reach_view [OF assms(1,2)] assms(3))

section \<open>Shutting down\<close>

text \<open>
  A step of a worker on its queue: not one of the other callbacks of its event loop, which it may run
  whenever it waits.
\<close>

definition busy_step :: "'app handlers \<Rightarrow> ('cb \<Rightarrow> 'app \<Rightarrow> 'app) \<Rightarrow> ('app, 'cb) proxy \<Rightarrow> ('app, 'cb) proxy \<Rightarrow> bool" where
  "busy_step H C p q \<longleftrightarrow> (\<exists>i < px_count p. thread_step H C i p q \<and> worker_view i q \<noteq> worker_view i p)"

text \<open>What a worker that was told to stop still has to do.\<close>

definition pc_rank :: "worker_pc \<Rightarrow> nat" where
  "pc_rank pc = (case pc of In_Dispatch \<Rightarrow> 5 | Draining \<Rightarrow> 4 | Drained \<Rightarrow> 3 | Running _ \<Rightarrow> 2 | Checking \<Rightarrow> 1 | Exited \<Rightarrow> 0)"

definition work_left :: "unit sys \<Rightarrow> nat" where
  "work_left s = pc_rank (s_pc s) + s_notify s + card (dom (st_msgs (s_st s)))"

definition all_work :: "('app, 'cb) proxy \<Rightarrow> nat" where
  "all_work p = (\<Sum>i < px_count p. work_left (worker_view i p))"

lemma process_one_msgs:
  assumes "worker_process_one H w a st app = Some (m, st', app')" and "finite (dom (st_msgs st))"
  shows "card (dom (st_msgs st')) < card (dom (st_msgs st))"
proof -
  have "dispose a st = Some st'"
    using assms(1) by (auto simp: worker_process_one_def free_processed_dispose Option.bind_eq_Some_conv)
  then have "st_msgs st' = (st_msgs st)(a := None)" "a \<in> dom (st_msgs st)"
    by (auto simp: dispose_def free_data_def free_msg_def Option.bind_eq_Some_conv split: option.splits)
  moreover from this have "dom (st_msgs st') = dom (st_msgs st) - {a}" by simp
  ultimately show ?thesis using assms(2) by (metis card_Diff1_less)
qed

lemma view_finite:
  assumes "proxy_reach H C app0 p" and "i < px_count p"
  shows "finite (dom (st_msgs (sl_store (px_slot p i))))"
proof -
  obtain b q where "heap_inv unit_handlers () (worker_view i p) b q" using worker_reach_inv [OF proxy_reach_view [OF assms]] .
  then show ?thesis by (auto simp: heap_inv_def store_ok_def)
qed

lemma busy_work:
  assumes "proxy_reach H C app0 p" and "px_main p = Main_Joining" and "i < px_count p" and "thread_step H C i p q"
    and "worker_view i q \<noteq> worker_view i p"
  shows "work_left (worker_view i q) < work_left (worker_view i p)"
proof -
  have shape: "proxy_shape p" using proxy_reach_inv [OF assms(1)] by (simp add: proxy_inv_def)
  note view = worker_view_upd [OF shape assms(3)]
  have stop: "w_stopping (sl_worker (px_slot p i))" using shape assms(2,3) by (simp add: proxy_shape_def stopped_below_main)
  from assms(4) show ?thesis
  proof cases
    case (process a m st' app')
    from process_one_msgs [OF process(3) view_finite [OF assms(1,3)]] process(1,2) show ?thesis
      by (simp add: view work_left_def pc_rank_def)
  next
    case (callback c)
    with assms(5) show ?thesis by simp
  qed (use stop in \<open>auto simp: view work_left_def pc_rank_def\<close>)
qed


lemma busy_total:
  assumes "proxy_reach H C app0 p" and "px_main p = Main_Joining" and "busy_step H C p q"
  shows "proxy_reach H C app0 q \<and> px_main q = Main_Joining \<and> all_work q < all_work p \<and> px_missed q \<subseteq> px_missed p"
proof -
  obtain i where i: "i < px_count p" "thread_step H C i p q" "worker_view i q \<noteq> worker_view i p"
    using assms(3) by (auto simp: busy_step_def)
  have shape: "proxy_shape p" using proxy_reach_inv [OF assms(1)] by (simp add: proxy_inv_def)
  have "proxy_step H C p q" using i by (auto simp: proxy_step_def)
  then have "proxy_reach H C app0 q" using assms(1) unfolding proxy_reach_def by (rule reach_step [rotated])
  moreover have "px_main q = px_main p" "px_missed q \<subseteq> px_missed p" using i(2) by (cases; auto)+
  moreover have "all_work q < all_work p"
  proof -
    have "px_count q = px_count p" using thread_shape [OF shape i(1,2)] by simp
    then have "all_work q = (\<Sum>k < px_count p. work_left (worker_view k q))" by (simp add: all_work_def)
    also have "\<dots> < all_work p"
      unfolding all_work_def
    proof (rule sum_strict_mono_ex1)
      show "\<forall>k \<in> {..<px_count p}. work_left (worker_view k q) \<le> work_left (worker_view k p)"
        using busy_work [OF assms(1,2) i] thread_view_other [OF shape i(1,2)] by (metis less_imp_le order_refl)
    qed (use busy_work [OF assms(1,2) i] i(1) in auto)
    finally show ?thesis .
  qed
  ultimately show ?thesis using assms(2) by simp
qed

lemma busy_run:
  assumes "(busy_step H C ^^ m) p q" and "proxy_reach H C app0 p" and "px_main p = Main_Joining"
  shows "proxy_reach H C app0 q \<and> px_main q = Main_Joining \<and> m + all_work q \<le> all_work p \<and> px_missed q \<subseteq> px_missed p"
  using assms
proof (induction m arbitrary: q)
  case (Suc m)
  then obtain r where r: "(busy_step H C ^^ m) p r" "busy_step H C r q" by auto
  with Suc.IH [OF r(1) Suc.prems(2,3)] busy_total [of H C app0 r q] show ?case by force
qed simp

text \<open>The message that a worker is at can be run.\<close>

lemma running_worker_steps:
  assumes "proxy_reach H C app0 p" and "i < px_count p" and "px_pcs p ! i = Running (Some a)"
  shows "\<exists>q. thread_step H C i p q \<and> worker_view i q \<noteq> worker_view i p"
proof -
  let ?s = "px_slot p i"
  have shape: "proxy_shape p" using proxy_reach_inv [OF assms(1)] by (simp add: proxy_inv_def)
  obtain b q where h: "heap_inv unit_handlers () (worker_view i p) b q"
    using worker_reach_inv [OF proxy_reach_view [OF assms(1,2)]] .
  then obtain b' where b: "b = a # b'" "chain (sl_store ?s) (Some a) (a # b')"
    using assms(3) by (cases b) (auto simp: heap_inv_def batch_ptr_def)
  have "store_ok (sl_store ?s) (a # b' @ q)" using h b(1) by (simp add: heap_inv_def)
  then obtain m st' app' where "worker_process_one H (sl_worker ?s) a (sl_store ?s) (px_app p) = Some (m, st', app')"
    using worker_process_one_ok [OF _ b(2), of "b' @ q" H "sl_worker ?s" "px_app p"] by (metis Un_upper1 set_append)
  from thread_step.process [OF assms(3) this] show ?thesis
    by (intro exI conjI, assumption)
      (rule notI, drule arg_cong [where f = s_done], simp add: worker_view_upd [OF shape assms(2)])
qed

text \<open>
  A worker that waits with an empty notify socket because the byte that should wake it could not be sent. Any other worker that
  was told to stop can go on until it has left its loop.
\<close>

definition asleep :: "('app, 'cb) proxy \<Rightarrow> nat \<Rightarrow> bool" where
  "asleep p i \<longleftrightarrow> px_pcs p ! i = In_Dispatch \<and> sl_notify (px_slot p i) = 0 \<and> i \<in> px_missed p"

lemma stopping_worker_steps:
  assumes "proxy_reach H C app0 p" and "px_main p = Main_Joining" and "i < px_count p" and "px_pcs p ! i \<noteq> Exited"
    and "\<not> asleep p i"
  shows "\<exists>q. thread_step H C i p q \<and> worker_view i q \<noteq> worker_view i p"
proof -
  have shape: "proxy_shape p" using proxy_reach_inv [OF assms(1)] by (simp add: proxy_inv_def)
  have stop: "w_stopping (sl_worker (px_slot p i))" using shape assms(2,3) by (simp add: proxy_shape_def stopped_below_main)
  have len: "i < length (px_pcs p)" using shape assms(3) by (simp add: proxy_shape_def)
  obtain q where wk: "wake_inv (worker_view i p) q"
    using worker_reach_inv [OF proxy_reach_view [OF assms(1,3)]] .
  have pc: "worker_view i q \<noteq> worker_view i p" if "px_pcs q ! i \<noteq> px_pcs p ! i" for q :: "('a, 'b) proxy"
    using that by (metis worker_view_sel(4))
  show ?thesis
  proof (cases "px_pcs p ! i")
    case In_Dispatch
    then have "0 < sl_notify (px_slot p i)" using wk stop assms(2,5) by (auto simp: wake_inv_def asleep_def)
    from thread_step.wake [OF In_Dispatch this] show ?thesis using pc len In_Dispatch by (metis upd_slot_fields(1) nth_list_update_eq worker_pc.distinct(1))
  next
    case Draining
    let ?k = "min 128 (sl_notify (px_slot p i))"
    let ?q = "upd_slot i ((px_slot p i)\<lparr>sl_notify := sl_notify (px_slot p i) - ?k\<rparr>) (if ?k < 128 then Drained else Draining) p"
    have "thread_step H C i p ?q" by (rule thread_step.recv [OF Draining]) simp_all
    moreover have "worker_view i ?q \<noteq> worker_view i p"
    proof
      assume eq: "worker_view i ?q = worker_view i p"
      from arg_cong [OF eq, of s_pc] arg_cong [OF eq, of s_notify] show False
        using Draining by (auto simp: worker_view_upd [OF shape assms(3)] split: if_splits)
    qed
    ultimately show ?thesis by blast
  next
    case Drained
    obtain m w' where "worker_take_pending (sl_worker (px_slot p i)) = (m, w')" by fastforce
    from thread_step.take_pending [OF Drained this] show ?thesis using len Drained by (intro exI conjI pc) (assumption, simp)
  next
    case (Running x)
    show ?thesis
    proof (cases x)
      case None
      with Running have "px_pcs p ! i = Running None" by simp
      from thread_step.processed [OF this] show ?thesis using len Running by (intro exI conjI pc) (assumption, simp)
    qed (use running_worker_steps [OF assms(1,3)] Running in simp)
  next
    case Checking
    from thread_step.check [OF this] show ?thesis using len Checking by (intro exI conjI pc) (assumption, simp)
  next
    case Exited
    with assms(4) show ?thesis by simp
  qed
qed


section \<open>A run\<close>

text \<open>
  One worker and one route, with any handlers. A client connects; either it is served, or the program is
  interrupted before that. A state is given by the state of the handlers, the worker, its heap and its notify
  socket, and where the threads are.
\<close>

definition px_job :: job where
  "px_job = (stream_client_payload example_route 9 (Some (mk_sin 5000 [10, 0, 0, 1])) 16, [])"

definition example_proxy ::
  "'app \<Rightarrow> worker \<Rightarrow> store \<Rightarrow> nat \<Rightarrow> worker_pc \<Rightarrow> main_pc \<Rightarrow> ('app, 'cb) proxy" where
  "example_proxy app w st n pc m = \<lparr>px_pool = \<lparr>pool_workers = Some [\<lparr>sl_worker = w, sl_store = st, sl_notify = n\<rparr>],
       pool_count = 1, pool_next = 1\<rparr>,
     px_pcs = [pc], px_app = app, px_main = m, px_loop = \<lparr>el_break = False, el_exit = False\<rparr>,
     px_ctxs = [\<lparr>rx_route = Some example_route, rx_u = ROUTE_CTX_STREAM \<lparr>sr_route = Some example_route, sr_listener = Some 3\<rparr>\<rparr>],
     px_disabled = {}, px_accepted = [9], px_closed = [], px_sent = [(0, px_job)], px_hist = [], px_missed = {}\<rparr>"

definition px_idle :: worker where
  "px_idle = s_w run_start"

definition px_busy :: worker where
  "px_busy = px_idle\<lparr>pending_head := Some 1, pending_tail := Some 1\<rparr>"

definition px_store :: store where
  "px_store = put_job 1 px_job store_empty"

definition px_start :: "'app \<Rightarrow> ('app, 'cb) proxy" where
  "px_start app = (example_proxy app px_idle store_empty 0 In_Dispatch Main_Loop)
     \<lparr>px_pool := \<lparr>pool_workers = Some [\<lparr>sl_worker = px_idle, sl_store = store_empty, sl_notify = 0\<rparr>], pool_count = 1, pool_next = 0\<rparr>,
      px_accepted := [], px_sent := []\<rparr>"

definition px_served :: "'app \<Rightarrow> ('app, 'cb) proxy" where
  "px_served app = (example_proxy app px_idle (store_empty\<lparr>st_msgs := (Map.empty)(1 := None)\<rparr>) 0 In_Dispatch Main_Loop)
     \<lparr>px_hist := [Ran 0 px_job]\<rparr>"

definition px_joining :: "'app \<Rightarrow> ('app, 'cb) proxy" where
  "px_joining app = example_proxy app (px_busy\<lparr>w_stopping := True\<rparr>) px_store 2 In_Dispatch Main_Joining"

lemma example_slot [simp]:
  "px_slot (example_proxy app w st n pc m) 0 = \<lparr>sl_worker = w, sl_store = st, sl_notify = n\<rparr>"
  "px_count (example_proxy app w st n pc m) = 1" "px_pcs (example_proxy app w st n pc m) = [pc]" "px_main (example_proxy app w st n pc m) = m"
  "px_loop (example_proxy app w st n pc m) = \<lparr>el_break = False, el_exit = False\<rparr>" "px_app (example_proxy app w st n pc m) = app"
  "px_hist (example_proxy app w st n pc m) = []" "px_missed (example_proxy app w st n pc m) = {}" "px_sent (example_proxy app w st n pc m) = [(0, px_job)]"
  by (simp_all add: example_proxy_def px_slot_def px_count_def pool_slot_def)

lemma example_upd [simp]:
  "upd_slot 0 s pc' (example_proxy app w st n pc m) = example_proxy app (sl_worker s) (sl_store s) (sl_notify s) pc' m"
  "(example_proxy app w st n pc m)\<lparr>px_main := m'\<rparr> = example_proxy app w st n pc m'"
  "(example_proxy app w st n pc m)\<lparr>px_app := app'\<rparr> = example_proxy app' w st n pc m"
  "(example_proxy app w st n pc m)\<lparr>px_missed := {}\<rparr> = example_proxy app w st n pc m"
  by (simp_all add: example_proxy_def upd_slot_def set_slot_def)

lemma px_reach_start: "proxy_reach H C app (px_start app)"
  unfolding proxy_reach_def
  by (rule reach_init) (simp add: proxy_initial_def px_start_def example_proxy_def px_slot_def px_count_def pool_slot_def pool_ok_def
    slot_started_def px_idle_def run_start_def example_worker_def worker_zero_def store_empty_def queue_ok_def store_ok_def)

lemma px_reach_main: "proxy_reach H C app0 p \<Longrightarrow> main_step p q \<Longrightarrow> proxy_reach H C app0 q"
  unfolding proxy_reach_def by (erule reach_step) (simp add: proxy_step_def)

lemma px_reach_thread: "proxy_reach H C app0 p \<Longrightarrow> thread_step H C i p q \<Longrightarrow> i < px_count p \<Longrightarrow> proxy_reach H C app0 q"
  unfolding proxy_reach_def by (erule reach_step) (auto simp: proxy_step_def)

lemma px_reach_queued:
  fixes C :: "'cb \<Rightarrow> 'app \<Rightarrow> 'app"
  shows "proxy_reach H C app (example_proxy app px_busy px_store 0 In_Dispatch (Main_Notify 0))"
proof -
  let ?p = "px_start app :: ('app, 'cb) proxy"
  let ?pool = "px_pool (example_proxy app px_busy px_store 0 In_Dispatch Main_Loop :: ('app, 'cb) proxy)"
  have "accept_cb unsent (Some 1) (px_pool ?p) example_route 9 (Some (mk_sin 5000 [10, 0, 0, 1])) 16 = Some (?pool, [])"
    by (simp add: accept_cb_def px_start_def worker_pool_next_def dispatch_client_fd_def pool_slot_def worker_enqueue_stream_client_def
      worker_enqueue_msg_def enqueue_locked_def worker_append_def set_slot_def socket_is_valid_def EVUTIL_INVALID_SOCKET_def sizeof_defs
      px_idle_def px_busy_def px_store_def px_job_def put_job_def store_empty_def example_proxy_def stream_client_payload_def
      notify_worker_def unsent_def run_start_def example_worker_def worker_zero_def set_next_def)
  then have "main_step ?p ((after_dispatch ([] = ([] :: int list)) (stream_client_payload example_route 9 (Some (mk_sin 5000 [10, 0, 0, 1]))
      (nat 16), []) ?p ?pool)\<lparr>px_accepted := px_accepted ?p @ [9], px_closed := px_closed ?p @ []\<rparr>)"
    by (intro main_step.accept [where k = 0 and u = "\<lparr>sr_route = Some example_route, sr_listener = Some 3\<rparr>"])
      (simp_all add: in_callback_def px_start_def example_proxy_def alloc_fresh_def px_slot_def px_count_def pool_slot_def store_empty_def
        socket_is_valid_def EVUTIL_INVALID_SOCKET_def)
  also have "\<dots> = example_proxy app px_busy px_store 0 In_Dispatch (Main_Notify 0)"
    by (simp add: after_dispatch_def px_start_def example_proxy_def next_slot_def px_count_def px_job_def)
  finally show ?thesis by (rule px_reach_main [OF px_reach_start])
qed

lemma px_reach_told: "proxy_reach H C app (example_proxy app px_busy px_store 1 In_Dispatch Main_Loop)"
  using main_step.notify [of "example_proxy app px_busy px_store 0 In_Dispatch (Main_Notify 0)" 0 "\<lambda>_. None" None 1]
  by (intro px_reach_main [OF px_reach_queued]) (simp add: after_notify_def notify_worker_def)

lemma px_reach_served:
  fixes C :: "'cb \<Rightarrow> 'app \<Rightarrow> 'app"
  shows "proxy_reach H C app (px_served (run_job H 1 px_job app))"
proof -
  let ?w = "px_idle" and ?e = "store_empty\<lparr>st_msgs := (Map.empty)(1 := None)\<rparr>"
  let ?at = "\<lambda>w st n pc. example_proxy app w st n pc Main_Loop :: ('app, 'cb) proxy"
  let ?app = "run_job H 1 px_job app"
  let ?done = "\<lambda>pc. (example_proxy ?app ?w ?e 0 pc Main_Loop :: ('app, 'cb) proxy)\<lparr>px_hist := [Ran 0 px_job]\<rparr>"
  have "proxy_reach H C app (?at px_busy px_store 1 Draining)"
    using thread_step.wake [of "?at px_busy px_store 1 In_Dispatch" 0] by (intro px_reach_thread [OF px_reach_told, where i = 0]) simp_all
  then have "proxy_reach H C app (?at px_busy px_store 0 Drained)"
    using thread_step.recv [of "?at px_busy px_store 1 Draining" 0 1 H C] by (elim px_reach_thread [where i = 0]) simp_all
  then have "proxy_reach H C app (?at ?w px_store 0 (Running (Some 1)))"
    using thread_step.take_pending [of "?at px_busy px_store 0 Drained" 0 "Some 1" ?w H C]
    by (elim px_reach_thread [where i = 0]) (simp_all add: worker_take_pending_def px_busy_def px_idle_def run_start_def)
  moreover have "worker_process_one H px_idle 1 px_store app = Some (None, ?e, ?app)" "job_at px_store 1 = Some px_job"
    by (simp_all add: worker_process_one_def worker_process_msg_def free_processed_worker_msg_def free_msg_def job_at_def bytes_of_def
      px_store_def put_job_def store_empty_def px_job_def stream_client_payload_def px_idle_def run_start_def example_worker_def worker_zero_def)
  ultimately have "proxy_reach H C app (?done (Running None))"
    using thread_step.process [of "?at ?w px_store 0 (Running (Some 1))" 0 1 H None ?e ?app C]
    by (elim px_reach_thread [where i = 0]) simp_all
  then have "proxy_reach H C app (?done Checking)"
    using thread_step.processed [of "?done (Running None)" 0 H C]
    by (elim px_reach_thread [where i = 0]) (simp_all add: example_proxy_def upd_slot_def set_slot_def px_slot_def pool_slot_def px_count_def)
  then show ?thesis
    using thread_step.check [of "?done Checking" 0 H C]
    by (elim px_reach_thread [where i = 0]) (simp_all add: px_served_def example_proxy_def upd_slot_def set_slot_def px_slot_def
      pool_slot_def px_count_def px_idle_def run_start_def example_worker_def worker_zero_def)
qed

lemma px_reach_joining:
  fixes C :: "'cb \<Rightarrow> 'app \<Rightarrow> 'app"
  shows "proxy_reach H C app (px_joining app)"
proof -
  let ?s = "px_busy\<lparr>w_stopping := True\<rparr>"
  let ?at = "\<lambda>w n m. example_proxy app w px_store n In_Dispatch m :: ('app, 'cb) proxy"
  have "proxy_reach H C app (?at px_busy 1 (Main_Stopping 0))"
    using main_step.loop_ends [of "?at px_busy 1 Main_Loop" True] by (intro px_reach_main [OF px_reach_told]) simp
  then have "proxy_reach H C app (?at ?s 1 (Main_Stop_Notify 0))"
    using main_step.stop [of "?at px_busy 1 (Main_Stopping 0)" 0]
    by (elim px_reach_main) (simp add: slot_stop_def worker_stop_def px_busy_def px_idle_def run_start_def notify_worker_def unsent_def)
  then have "proxy_reach H C app (?at ?s 2 (Main_Stopping 1))"
    using main_step.stop_notify [of "?at ?s 1 (Main_Stop_Notify 0)" 0 "\<lambda>_. None" None 2]
    by (elim px_reach_main) (simp add: after_notify_def notify_worker_def numeral_2_eq_2)
  then show ?thesis
    using main_step.stopped [of "?at ?s 2 (Main_Stopping 1)" 1] by (elim px_reach_main) (simp add: px_joining_def)
qed

text \<open>The same run when the handlers only log the sockets of clients.\<close>

abbreviation log_reach :: "(int list, unit) proxy \<Rightarrow> bool" where
  "log_reach \<equiv> proxy_reach log_handlers (\<lambda>_ app. app) []"

abbreviation log_served :: "(int list, unit) proxy" where
  "log_served \<equiv> px_served [9]"

abbreviation log_joining :: "(int list, unit) proxy" where
  "log_joining \<equiv> px_joining []"

lemma log_reach_served: "log_reach log_served"
  using px_reach_served [of log_handlers "\<lambda>_ app. app" "[]"] by (simp add: log_handlers_def px_job_def stream_client_payload_def)

text \<open>What a worker was given is what it has run and what it has on its heap.\<close>

lemma worker_share:
  assumes "proxy_reach H C app0 p" and "i < px_count p"
  shows "\<exists>as. jobs_for i (px_sent p) = jobs_run i (px_hist p) @ jobs (sl_store (px_slot p i)) as \<and>
    store_ok (sl_store (px_slot p i)) as"
proof -
  obtain b q where h: "heap_inv unit_handlers () (worker_view i p) b q"
    using worker_reach_inv [OF proxy_reach_view [OF assms]] .
  show ?thesis using heap_inv_parts(1,3) [OF h] by (intro exI [of _ "b @ q"]) simp
qed

section \<open>The properties\<close>

text \<open>
  C1. The proxy as a whole, in every interleaving of the main thread with all workers: each client or datagram
  that the main thread dispatched is run by the one worker it was given to, exactly once and in the order of
  dispatch; what was not run yet is exactly what that worker still has on its heap. The state
  the handlers share is the one that the jobs and the other callbacks produce, in the order in which they were run.
  Each accepted socket was either given to a worker or closed by the main thread, once: that a
  worker refuses a client, in which case its socket would be closed twice, never happens.
\<close>

theorem proxy_exactly_once:
  assumes "proxy_reach H C app0 p"
  shows "px_app p = fold (perform H C) (px_hist p) app0 \<and>
    mset (px_accepted p) = mset (px_closed p) + mset (client_fds (map snd (px_sent p))) \<and>
    (\<forall>(i, j) \<in> set (px_sent p). i < px_count p) \<and>
    (\<forall>i < px_count p. \<exists>as. jobs_for i (px_sent p) = jobs_run i (px_hist p) @ jobs (sl_store (px_slot p i)) as \<and>
       store_ok (sl_store (px_slot p i)) as)"
  using worker_share [OF assms] proxy_reach_inv [OF assms] by (simp add: proxy_inv_def proxy_histories_def)

theorem proxy_exactly_once_witness:
  "log_reach log_served \<and> px_app log_served = [9] \<and> jobs_for 0 (px_sent log_served) = jobs_run 0 (px_hist log_served) \<and>
   fold (perform log_handlers (\<lambda>_ app. app)) (px_hist log_served) [] = [9]"
  using proxy_exactly_once [OF log_reach_served] log_reach_served by (simp add: px_served_def)

text \<open>
  C6. No client and no datagram is forgotten, unless the wake-up for it could not be sent: whenever the main thread is in its
  event loop and every worker waits with nothing in its notify socket, all that was ever dispatched to a worker has been run,
  and none of its message memory is in use, but for the workers in \<open>px_missed\<close>: those for which a \<^verbatim>\<open>send\<close> of the wake-up byte
  failed on the empty socket since they last took their queue (which the program only warns of).
\<close>

theorem proxy_all_served:
  assumes "proxy_reach H C app0 p" and "px_main p = Main_Loop"
    and "\<forall>i < px_count p. px_pcs p ! i = In_Dispatch \<and> sl_notify (px_slot p i) = 0"
  shows "\<forall>i < px_count p. i \<notin> px_missed p \<longrightarrow> jobs_run i (px_hist p) = jobs_for i (px_sent p) \<and>
    st_msgs (sl_store (px_slot p i)) = Map.empty \<and> st_bufs (sl_store (px_slot p i)) = Map.empty"
proof (intro allI impI)
  fix i
  assume i: "i < px_count p" and told: "i \<notin> px_missed p"
  obtain b q where h: "heap_inv unit_handlers () (worker_view i p) b q" and wk: "wake_inv (worker_view i p) q"
    using worker_reach_inv [OF proxy_reach_view [OF assms(1) i]] .
  have "q = []" "b = []" using wk heap_inv_parts(5) [OF h] assms(2,3) i told by (auto simp: wake_inv_def draining_def batch_ptr_def)
  with heap_inv_parts(1,3) [OF h] show "jobs_run i (px_hist p) = jobs_for i (px_sent p) \<and>
    st_msgs (sl_store (px_slot p i)) = Map.empty \<and> st_bufs (sl_store (px_slot p i)) = Map.empty"
    by (auto dest: store_ok_Nil)
qed

theorem proxy_all_served_witness:
  "px_count log_served = 1 \<and> jobs_run 0 (px_hist log_served) = [px_job] \<and> jobs_for 0 (px_sent log_served) = [px_job]"
  using proxy_all_served [OF log_reach_served] by (simp add: px_served_def)

text \<open>
  C5. The shutdown completes, unless a wake-up could not be sent: once the main thread waits in \<^verbatim>\<open>worker_pool_join\<close>, the
  workers make at most \<open>all_work\<close> more steps, the other callbacks of their event loops apart, and such a step is possible until every worker has left
  its loop or sleeps because the \<^verbatim>\<open>send\<close> of its wake-up byte failed (\<^verbatim>\<open>worker_stop\<close> ignores that error, and the
  join then waits forever). Workers whose wake-up was not missed at the start of the join all leave their loops.
\<close>

theorem proxy_shutdown_completes:
  assumes "proxy_reach H C app0 p" and "px_main p = Main_Joining" and "(busy_step H C ^^ m) p q"
  shows "m \<le> all_work p \<and> px_missed q \<subseteq> px_missed p \<and>
    ((\<forall>i < px_count q. px_pcs q ! i = Exited \<or> asleep q i) \<or> (\<exists>r. busy_step H C q r))"
proof -
  have q: "proxy_reach H C app0 q" "px_main q = Main_Joining" "m \<le> all_work p" "px_missed q \<subseteq> px_missed p"
    using busy_run [OF assms(3,1,2)] by simp_all
  show ?thesis using stopping_worker_steps [OF q(1,2)] q(3,4) by (auto simp: busy_step_def)
qed

theorem proxy_shutdown_completes_witness:
  "log_reach log_joining \<and> all_work log_joining = 8 \<and> (\<exists>r. busy_step log_handlers (\<lambda>_ app. app) log_joining r)"
proof -
  have r: "log_reach log_joining" by (rule px_reach_joining)
  have "px_main log_joining = Main_Joining" "\<not> (\<forall>i < px_count log_joining. px_pcs log_joining ! i = Exited \<or> asleep log_joining i)"
    by (simp_all add: px_joining_def asleep_def)
  with proxy_shutdown_completes [OF r, of 0 log_joining]
  have "\<exists>r. busy_step log_handlers (\<lambda>_ app. app) log_joining r" by simp
  moreover have "all_work log_joining = 8"
    by (simp add: all_work_def work_left_def pc_rank_def px_joining_def px_store_def put_job_def store_empty_def px_job_def
      stream_client_payload_def)
  ultimately show ?thesis using r by simp
qed

end
