(* ===== verification/Stream_Conn.thy ===== *)
theory Stream_Conn
  imports Route Sniff Proxy_V2
begin

text \<open>
  A proxied stream connection (\<^verbatim>\<open>src/stream_conn.c\<close>, \<^verbatim>\<open>src/stream_route.h\<close>): the state of a
  connection, its two bufferevents, the idle timer, the ordered ways to end it, and the callbacks
  for connection events. Libevent is not part of the program: its byte buffers are of an arbitrary type
  \<open>'b\<close> handled only through the operations of an \<open>evbuffer_api\<close>, with the documented behaviour of
  those as the hypothesis \<open>evbuffer_laws\<close>; a bufferevent otherwise records what the program has
  asked for (which directions are enabled, timeouts, watermarks, callbacks).
\<close>

section \<open>Libevent buffers\<close>

record 'b evbuffer_api =
  contents :: "'b \<Rightarrow> byte list"
  evbuffer_new :: 'b
  evbuffer_get_length :: "'b \<Rightarrow> nat"
  evbuffer_copyout :: "'b \<Rightarrow> nat \<Rightarrow> int"
  evbuffer_add_buffer :: "'b \<Rightarrow> 'b \<Rightarrow> 'b \<times> 'b"
  evbuffer_drain :: "'b \<Rightarrow> nat \<Rightarrow> 'b"
  evbuffer_add :: "'b \<Rightarrow> byte list \<Rightarrow> bool \<times> 'b"

text \<open>
  Moving a buffer to the end of another moves all of it, or fails and moves nothing; adding bytes
  appends them, or fails and adds nothing; draining removes bytes from the front; copying out
  delivers no more than was asked for and no more than there is.
\<close>

definition evbuffer_laws :: "'b evbuffer_api \<Rightarrow> bool" where
  "evbuffer_laws E \<longleftrightarrow>
     contents E (evbuffer_new E) = [] \<and>
     (\<forall>b. evbuffer_get_length E b = length (contents E b)) \<and>
     (\<forall>b n. evbuffer_copyout E b n \<le> int n \<and> evbuffer_copyout E b n \<le> int (length (contents E b))) \<and>
     (\<forall>d s d' s'. evbuffer_add_buffer E d s = (d', s') \<longrightarrow>
        contents E d' = contents E d @ contents E s \<and> contents E s' = [] \<or>
        contents E d' = contents E d \<and> contents E s' = contents E s) \<and>
     (\<forall>b n. contents E (evbuffer_drain E b n) = drop n (contents E b)) \<and>
     (\<forall>b bs ok b'. evbuffer_add E b bs = (ok, b') \<longrightarrow>
        contents E b' = (if ok then contents E b @ bs else contents E b))"

text \<open>Byte lists are such buffers.\<close>

definition list_evbuffer :: "byte list evbuffer_api" where
  "list_evbuffer = \<lparr>contents = (\<lambda>b. b), evbuffer_new = [], evbuffer_get_length = length,
     evbuffer_copyout = (\<lambda>b n. int (min n (length b))), evbuffer_add_buffer = (\<lambda>d s. (d @ s, [])),
     evbuffer_drain = (\<lambda>b n. drop n b), evbuffer_add = (\<lambda>b bs. (True, b @ bs))\<rparr>"

lemma list_evbuffer_laws: "evbuffer_laws list_evbuffer"
  by (auto simp: evbuffer_laws_def list_evbuffer_def)

section \<open>Data\<close>

datatype read_cb = No_read_cb | pipe_client_read | pipe_upstream_read | builtin_client_read

datatype write_cb =
    No_write_cb | pipe_client_write | pipe_upstream_write | builtin_close_after_write
  | builtin_http_close_after_write | file_write

datatype event_cb = No_event_cb | stream_client_event | stream_upstream_event | file_event

record 'b bufferevent =
  bev_fd :: int
  bev_input :: 'b
  bev_output :: 'b
  ev_read :: bool
  ev_write :: bool
  read_timeout :: "int option"
  write_timeout :: "int option"
  read_high_water :: nat
  write_high_water :: nat
  max_single_read :: "nat option"
  max_single_write :: "nat option"
  read_callback :: read_cb
  write_callback :: write_cb
  event_callback :: event_cb

text \<open>
  A new bufferevent of libevent: empty buffers, writing enabled and reading disabled, no timeouts,
  no watermarks, no callbacks, and libevent's own limits on a single read and write (\<open>None\<close>).
\<close>

definition bufferevent_socket_new :: "'b evbuffer_api \<Rightarrow> int \<Rightarrow> 'b bufferevent" where
  "bufferevent_socket_new E fd = \<lparr>bev_fd = fd, bev_input = evbuffer_new E, bev_output = evbuffer_new E,
     ev_read = False, ev_write = True, read_timeout = None, write_timeout = None,
     read_high_water = 0, write_high_water = 0, max_single_read = None, max_single_write = None,
     read_callback = No_read_cb, write_callback = No_write_cb, event_callback = No_event_cb\<rparr>"

text \<open>
  \<^verbatim>\<open>conn_t\<close>. The client bufferevent of a connection always exists; the other pointers may be
  null. The idle timer is \<open>Some (Some t)\<close> when it is pending with a timeout of \<open>t\<close> seconds and
  \<open>Some None\<close> when it exists but is not pending.
\<close>

record 'b conn =
  owner :: "32 word"
  conn_route :: route
  client :: "'b bufferevent"
  upstream_bev :: "'b bufferevent option"
  peer_addr :: sockaddr
  peer_addr_len :: nat
  sniff :: stream_sniff
  upstream_connected :: bool
  close_after_client_eof :: bool
  close_client_after_drain :: bool
  activity_seq :: "64 word"
  idle_check_seq :: "64 word"
  idle_ev :: "int option option"

text \<open>The fields that \<^verbatim>\<open>worker_adopt_client_fd\<close> sets in the zeroed connection.\<close>

definition conn_new ::
  "32 word \<Rightarrow> route \<Rightarrow> sockaddr \<Rightarrow> nat \<Rightarrow> 'b bufferevent \<Rightarrow> 'b conn" where
  "conn_new w r peer peer_len cl = \<lparr>owner = w, conn_route = r, client = cl, upstream_bev = None,
     peer_addr = peer, peer_addr_len = peer_len, sniff = stream_sniff_zero, upstream_connected = False,
     close_after_client_eof = False, close_client_after_drain = False,
     activity_seq = 1, idle_check_seq = 1, idle_ev = None\<rparr>"

text \<open>
  What the program does to the outside, in order: freeing a bufferevent closes its socket
  (\<^verbatim>\<open>BEV_OPT_CLOSE_ON_FREE\<close>). An operation gives the connection, \<open>None\<close> once it is freed.
\<close>

datatype conn_event =
    Event_free | Bufferevent_free int | Conn_free | Close_socket int | Shutdown_wr int
  | Set_keepalive int bool | Socket_connect sockaddr nat | Fclose | File_conn_free

type_synonym 'b outcome = "'b conn option \<times> conn_event list"

section \<open>Ending a connection\<close>

definition free_conn :: "'b conn \<Rightarrow> 'b outcome" where
  "free_conn c =
     (None,
      (if idle_ev c \<noteq> None then [Event_free] else []) @
      [Bufferevent_free (bev_fd (client c))] @
      (case upstream_bev c of None \<Rightarrow> [] | Some u \<Rightarrow> [Bufferevent_free (bev_fd u)]) @
      [Conn_free])"

definition set_timeouts :: "int option \<Rightarrow> int option \<Rightarrow> 'b bufferevent \<Rightarrow> 'b bufferevent" where
  "set_timeouts r w b = b\<lparr>read_timeout := r, write_timeout := w\<rparr>"

definition set_connect_timeout :: "'b conn \<Rightarrow> 'b conn" where
  "set_connect_timeout c =
     c\<lparr>upstream_bev := map_option (set_timeouts None (Some (connect_timeout_sec (opts (conn_route c)))))
        (upstream_bev c)\<rparr>"

definition clear_idle_timeout :: "'b conn \<Rightarrow> 'b conn" where
  "clear_idle_timeout c =
     c\<lparr>client := set_timeouts None None (client c),
       upstream_bev := map_option (set_timeouts None None) (upstream_bev c)\<rparr>"

definition set_client_idle_timeout :: "'b conn \<Rightarrow> 'b conn" where
  "set_client_idle_timeout c =
     (let t = idle_timeout_sec (opts (conn_route c)) in
      c\<lparr>client := set_timeouts (Some t) (Some t) (client c)\<rparr>)"

definition schedule_conn_idle_timer :: "'b conn \<Rightarrow> 'b conn" where
  "schedule_conn_idle_timer c =
     (if idle_ev c = None then c
      else if idle_timeout_sec (opts (conn_route c)) \<le> 0 then c
      else c\<lparr>idle_ev := Some (Some (idle_timeout_sec (opts (conn_route c))))\<rparr>)"

definition bev_output_len :: "'b evbuffer_api \<Rightarrow> 'b bufferevent option \<Rightarrow> nat" where
  "bev_output_len E b = (case b of None \<Rightarrow> 0 | Some b \<Rightarrow> evbuffer_get_length E (bev_output b))"

text \<open>\<^verbatim>\<open>conn_touch\<close>: the counter wraps around.\<close>

definition conn_touch :: "'b conn \<Rightarrow> 'b conn" where
  "conn_touch c = c\<lparr>activity_seq := activity_seq c + 1\<rparr>"

text \<open>\<^verbatim>\<open>conn_idle_timeout_cb\<close>: both branches at the end differ only in what they log.\<close>

definition conn_idle_timeout_cb :: "'b conn \<Rightarrow> 'b outcome" where
  "conn_idle_timeout_cb c =
     (if activity_seq c \<noteq> idle_check_seq c
      then (Some (schedule_conn_idle_timer (c\<lparr>idle_check_seq := activity_seq c\<rparr>)), [])
      else free_conn c)"

text \<open>\<^verbatim>\<open>start_conn_idle_timer\<close>; \<open>evtimer_new\<close> tells whether the timer could be made.\<close>

definition start_conn_idle_timer :: "bool \<Rightarrow> 'b conn \<Rightarrow> 'b conn" where
  "start_conn_idle_timer evtimer_new c =
     (if idle_timeout_sec (opts (conn_route c)) \<le> 0 then c
      else let c = c\<lparr>activity_seq := 1, idle_check_seq := 1\<rparr> in
        if \<not> evtimer_new then c\<lparr>idle_ev := None\<rparr>
        else schedule_conn_idle_timer (c\<lparr>idle_ev := Some None\<rparr>))"

definition client_has_pending_output :: "'b evbuffer_api \<Rightarrow> 'b conn \<Rightarrow> bool" where
  "client_has_pending_output E c \<longleftrightarrow> bev_output_len E (Some (client c)) > 0"

definition finish_client_write :: "'b conn \<Rightarrow> 'b conn \<times> conn_event list" where
  "finish_client_write c =
     (c\<lparr>client := set_timeouts (Some CLOSE_WAIT_TIMEOUT_SEC) None
          ((client c)\<lparr>ev_write := False, ev_read := True\<rparr>)\<rparr>,
      if bev_fd (client c) \<ge> 0 then [Shutdown_wr (bev_fd (client c))] else [])"

definition drain_client_then_close :: "'b evbuffer_api \<Rightarrow> 'b conn \<Rightarrow> 'b conn \<times> conn_event list" where
  "drain_client_then_close E c =
     (let c = c\<lparr>close_client_after_drain := True,
                upstream_bev := map_option (\<lambda>u. u\<lparr>ev_read := False, ev_write := False\<rparr>) (upstream_bev c)\<rparr> in
      if \<not> client_has_pending_output E c then
        (let (c, es) = finish_client_write c in
         (c\<lparr>close_client_after_drain := False, close_after_client_eof := True\<rparr>, es))
      else (c, []))"

section \<open>Connection events\<close>

text \<open>The bits of a bufferevent event mask that the program looks at.\<close>

record bev_events =
  BEV_EVENT_CONNECTED :: bool
  BEV_EVENT_TIMEOUT :: bool
  BEV_EVENT_ERROR :: bool
  BEV_EVENT_EOF :: bool

text \<open>\<open>stream_client_event_cb\<close>: the tests of the error number only choose what is logged.\<close>

definition stream_client_event_cb :: "bev_events \<Rightarrow> 'b conn \<Rightarrow> 'b outcome" where
  "stream_client_event_cb events c =
     (if BEV_EVENT_TIMEOUT events then free_conn c
      else if BEV_EVENT_ERROR events then free_conn c
      else if BEV_EVENT_EOF events then free_conn c
      else (Some c, []))"

definition stream_upstream_event_cb ::
  "'b evbuffer_api \<Rightarrow> bool \<Rightarrow> bev_events \<Rightarrow> 'b conn \<Rightarrow> 'b outcome" where
  "stream_upstream_event_cb E evtimer_new events c =
     (if BEV_EVENT_CONNECTED events then
        (let c = start_conn_idle_timer evtimer_new (clear_idle_timeout (c\<lparr>upstream_connected := True\<rparr>)) in
         (Some (c\<lparr>client := (client c)\<lparr>ev_read := True, ev_write := True\<rparr>\<rparr>), []))
      else if BEV_EVENT_TIMEOUT events then free_conn c
      else if BEV_EVENT_ERROR events then
        (if client_has_pending_output E c then
           (let (c, es) = drain_client_then_close E c in (Some c, es))
         else free_conn c)
      else if BEV_EVENT_EOF events then
        (let (c, es) = drain_client_then_close E c in (Some c, es))
      else free_conn c)"

section \<open>Connecting\<close>

text \<open>
  \<^verbatim>\<open>connect_upstream\<close>; \<open>connect\<close> is the result of \<^verbatim>\<open>bufferevent_socket_connect\<close> on an address. The
  calls made are returned too.
\<close>

definition connect_upstream ::
  "(string \<Rightarrow> byte list option) \<Rightarrow> (string \<Rightarrow> byte list option) \<Rightarrow> (sockaddr \<Rightarrow> errno option) \<Rightarrow> endpoint \<Rightarrow>
   unit result \<times> conn_event list" where
  "connect_upstream pton4 pton6 connect ep =
     (let try = (\<lambda>addr len. (case connect addr of None \<Rightarrow> Inr () | Some e \<Rightarrow> Inl e, [Socket_connect addr len])) in
      if ep_kind ep = ENDPOINT_INET \<or> ep_kind ep = ENDPOINT_INET6 then
        (case endpoint_to_sockaddr pton4 pton6 ep of
           Inl e \<Rightarrow> (Inl e, [])
         | Inr (addr, addr_len) \<Rightarrow> try addr addr_len)
      else if ep_kind ep = ENDPOINT_UNIX then
        (if ep_path ep = [] then (Inl EINVAL, [])
         else if length (ep_path ep) \<ge> SIZEOF_SUN_PATH then (Inl ENAMETOOLONG, [])
         else try (mk_sun (ep_path ep)) (2 + SIZEOF_SUN_PATH))
      else (Inl ENOTSUP, []))"

end
