(* ===== verification/Stream_Builtin.thy ===== *)
theory Stream_Builtin
  imports Stream_Conn
begin

text \<open>
  Connections answered by the proxy itself (\<^verbatim>\<open>src/stream_builtin.c\<close>): the callbacks installed on
  the client, the text of the client's address, and the start of each built-in.
\<close>

section \<open>Callbacks\<close>

definition builtin_client_read_cb :: "'b evbuffer_api \<Rightarrow> 'b conn \<Rightarrow> 'b conn" where
  "builtin_client_read_cb E c =
     (let input = bev_input (client c) in
      c\<lparr>client := (client c)\<lparr>bev_input := evbuffer_drain E input (evbuffer_get_length E input)\<rparr>\<rparr>)"

definition builtin_http_close_after_write_cb ::
  "'b evbuffer_api \<Rightarrow> 'b conn \<Rightarrow> 'b conn \<times> conn_event list" where
  "builtin_http_close_after_write_cb E c =
     (if evbuffer_get_length E (bev_output (client c)) \<noteq> 0 then (c, [])
      else let (c, es) = finish_client_write c in (c\<lparr>close_after_client_eof := True\<rparr>, es))"

definition builtin_close_after_write_cb :: "'b evbuffer_api \<Rightarrow> 'b conn \<Rightarrow> 'b outcome" where
  "builtin_close_after_write_cb E c =
     (if evbuffer_get_length E (bev_output (client c)) = 0 then free_conn c else (Some c, []))"

section \<open>The client's address\<close>

text \<open>
  \<^verbatim>\<open>stream_client_addr_string\<close> into a buffer of \<open>buf_len\<close> bytes; \<open>getpeername\<close> and the two
  conversions of \<^verbatim>\<open>inet_ntop\<close> are parameters, \<open>None\<close> when they fail.
\<close>

definition stream_client_addr_string ::
  "(int \<Rightarrow> sockaddr option) \<Rightarrow> (byte list \<Rightarrow> string option) \<Rightarrow> (byte list \<Rightarrow> string option) \<Rightarrow>
   'b conn \<Rightarrow> nat \<Rightarrow> string option" where
  "stream_client_addr_string getpeername ntop4 ntop6 c buf_len =
     (if buf_len = 0 then None
      else if bev_fd (client c) < 0 then None
      else case getpeername (bev_fd (client c)) of
        None \<Rightarrow> None
      | Some ss \<Rightarrow>
          let with_port = (\<lambda>a port. a @ snprintf_buf (buf_len - length a) ('':'' @ show_nat (unat (of_be16 port)))) in
          if ss_family ss = AF_INET then map_option (\<lambda>a. with_port a (sin_port ss)) (ntop4 (sin_addr ss))
          else if ss_family ss = AF_INET6 then map_option (\<lambda>a. with_port a (sin6_port ss)) (ntop6 (sin6_addr ss))
          else Some (snprintf_buf buf_len ''unknown''))"

section \<open>Starting a built-in\<close>

definition set_cbs :: "read_cb \<Rightarrow> write_cb \<Rightarrow> event_cb \<Rightarrow> 'b bufferevent \<Rightarrow> 'b bufferevent" where
  "set_cbs r w e b = b\<lparr>read_callback := r, write_callback := w, event_callback := e\<rparr>"

definition bufferevent_write :: "'b evbuffer_api \<Rightarrow> byte list \<Rightarrow> 'b bufferevent \<Rightarrow> bool \<times> 'b bufferevent" where
  "bufferevent_write E bs b =
     (let (ok, out) = evbuffer_add E (bev_output b) bs in (ok, b\<lparr>bev_output := out\<rparr>))"

definition builtin_respond :: "'b evbuffer_api \<Rightarrow> x_builtin_response \<Rightarrow> 'b conn \<Rightarrow> 'b outcome" where
  "builtin_respond E res c =
     (let data = take (res_data_len res) (map of_char (res_data res)) in
      case res_action res of
        X_BUILTIN_ACTION_CLOSE \<Rightarrow>
          (if res_data_len res > 0 then
             (let (_, cl) = bufferevent_write E data (client c);
                  cl = set_cbs No_read_cb builtin_close_after_write stream_client_event cl in
              (Some (c\<lparr>client := cl\<lparr>ev_write := True\<rparr>\<rparr>), []))
           else free_conn c)
      | X_BUILTIN_ACTION_HTTP_RESP \<Rightarrow>
          (if res_data_len res > 0 then
             (let cl = set_cbs builtin_client_read builtin_http_close_after_write stream_client_event (client c);
                  (_, cl) = bufferevent_write E data cl in
              (Some (c\<lparr>client := cl\<lparr>ev_read := True, ev_write := True\<rparr>\<rparr>), []))
           else
             (let (c, es) = finish_client_write c;
                  c = c\<lparr>close_after_client_eof := True\<rparr>;
                  cl = set_cbs builtin_client_read No_write_cb stream_client_event (client c) in
              (Some (c\<lparr>client := cl\<lparr>ev_read := True\<rparr>\<rparr>), es)))
      | X_BUILTIN_ACTION_DISCARD \<Rightarrow>
          (Some (c\<lparr>client := (set_cbs builtin_client_read No_write_cb stream_client_event (client c))\<lparr>ev_read := True\<rparr>\<rparr>), [])
      | X_BUILTIN_ACTION_HANG \<Rightarrow>
          (Some (c\<lparr>client := (set_cbs No_read_cb No_write_cb stream_client_event (client c))\<lparr>ev_read := True\<rparr>\<rparr>), []))"

definition start_stream_builtin ::
  "'b evbuffer_api \<Rightarrow> (int \<Rightarrow> sockaddr option) \<Rightarrow> (byte list \<Rightarrow> string option) \<Rightarrow> (byte list \<Rightarrow> string option) \<Rightarrow>
   'b conn \<Rightarrow> unit result \<times> 'b outcome" where
  "start_stream_builtin E getpeername ntop4 ntop6 c =
     (let req = \<lparr>req_builtin = ep_builtin (upstream (conn_route c)),
                 req_client_addr = stream_client_addr_string getpeername ntop4 ntop6 c 128\<rparr> in
      case x_builtin_handle req of
        Inl e \<Rightarrow> (Inl e, free_conn c)
      | Inr res \<Rightarrow>
          let es = (case upstream_bev c of None \<Rightarrow> [] | Some u \<Rightarrow> [Bufferevent_free (bev_fd u)]);
              c = set_client_idle_timeout (c\<lparr>upstream_bev := None\<rparr>);
              (co, es') = builtin_respond E res c in
          (Inr (), co, es @ es'))"

end
