(* ===== verification/Stream_File.thy ===== *)
theory Stream_File
  imports Stream_Builtin
begin

text \<open>
  A file served as a stream upstream (\<^verbatim>\<open>src/stream_file.c\<close>). The C library's file is of an
  arbitrary type \<open>'f\<close> read through a \<open>file_api\<close>; \<open>file_laws\<close> states the documented behaviour of
  \<^verbatim>\<open>fread\<close> and \<^verbatim>\<open>ferror\<close>. The loop that fills the output buffer is a partial function whose
  termination is proved.
\<close>

section \<open>Files\<close>

record 'f file_api =
  file_rest :: "'f \<Rightarrow> byte list"
  fread :: "'f \<Rightarrow> nat \<Rightarrow> byte list \<times> 'f"
  ferror :: "'f \<Rightarrow> bool"

definition file_laws :: "'f file_api \<Rightarrow> bool" where
  "file_laws F \<longleftrightarrow>
     (\<forall>f n bs f'. fread F f n = (bs, f') \<longrightarrow>
        file_rest F f = bs @ file_rest F f' \<and> length bs \<le> n \<and>
        (0 < n \<longrightarrow> bs = [] \<longrightarrow> \<not> ferror F f' \<longrightarrow> file_rest F f = []))"

definition FILE_CHUNK_SIZE :: nat where "FILE_CHUNK_SIZE = 4096"

record ('b, 'f) file_conn =
  fc_conn :: "'b conn"
  fc_fp :: 'f

text \<open>The outcome of a callback: the state, or \<open>None\<close> once everything was closed and freed.\<close>

type_synonym ('b, 'f) file_outcome = "('b, 'f) file_conn option \<times> conn_event list"

section \<open>Operations\<close>

definition file_done :: "('b, 'f) file_conn \<Rightarrow> ('b, 'f) file_outcome" where
  "file_done fc = (None, [Fclose] @ snd (free_conn (fc_conn fc)) @ [File_conn_free])"

definition file_event_cb :: "bev_events \<Rightarrow> ('b, 'f) file_conn \<Rightarrow> ('b, 'f) file_outcome" where
  "file_event_cb events fc = file_done fc"

definition fc_out :: "'b evbuffer_api \<Rightarrow> ('b, 'f) file_conn \<Rightarrow> byte list" where
  "fc_out E fc = contents E (bev_output (client (fc_conn fc)))"

partial_function (option) file_write_cb ::
  "'b evbuffer_api \<Rightarrow> 'f file_api \<Rightarrow> ('b, 'f) file_conn \<Rightarrow> ('b, 'f) file_outcome option" where
  "file_write_cb E F fc =
     (if evbuffer_get_length E (bev_output (client (fc_conn fc))) < STREAM_READ_HIGH_WATER then
        (let r = fread F (fc_fp fc) FILE_CHUNK_SIZE; buf = fst r; fc = fc\<lparr>fc_fp := snd r\<rparr> in
         if length buf > 0 then
           (let wr = bufferevent_write E buf (client (fc_conn fc));
                fc = fc\<lparr>fc_conn := (fc_conn fc)\<lparr>client := snd wr\<rparr>\<rparr> in
            if \<not> fst wr then Some (file_done fc)
            else file_write_cb E F fc)
         else if ferror F (fc_fp fc) then Some (file_done fc)
         else if evbuffer_get_length E (bev_output (client (fc_conn fc))) = 0 then Some (file_done fc)
         else Some (Some fc, []))
      else Some (Some fc, []))"

text \<open>
  \<^verbatim>\<open>start_stream_file\<close>; \<open>fopen\<close> and \<open>calloc\<close> are the results of those calls. The connection is
  consumed in every case.
\<close>

definition start_stream_file ::
  "'b evbuffer_api \<Rightarrow> 'f file_api \<Rightarrow> (string \<Rightarrow> 'f result) \<Rightarrow> bool \<Rightarrow> 'b conn \<Rightarrow>
   (unit result \<times> ('b, 'f) file_outcome) option" where
  "start_stream_file E F fopen calloc c =
     (case fopen (ep_path (upstream (conn_route c))) of
        Inl err \<Rightarrow> Some (Inl err, None, snd (free_conn c))
      | Inr fp \<Rightarrow>
          let es = (case upstream_bev c of None \<Rightarrow> [] | Some u \<Rightarrow> [Bufferevent_free (bev_fd u)]);
              c = c\<lparr>upstream_bev := None\<rparr> in
          if \<not> calloc then Some (Inl ENOMEM, None, es @ [Fclose] @ snd (free_conn c))
          else
            let cl = set_cbs No_read_cb file_write file_event
                       ((client c)\<lparr>write_high_water := STREAM_READ_HIGH_WATER\<rparr>);
                c = set_client_idle_timeout (c\<lparr>client := cl\<lparr>ev_write := True\<rparr>\<rparr>) in
            map_option (\<lambda>(fco, es'). (Inr (), fco, es @ es')) (file_write_cb E F \<lparr>fc_conn = c, fc_fp = fp\<rparr>))"

section \<open>One run of the write callback\<close>

text \<open>
  The case without errors of the file and of the buffer: every read succeeds and every byte can be queued.
\<close>

definition no_errors :: "'b evbuffer_api \<Rightarrow> 'f file_api \<Rightarrow> bool" where
  "no_errors E F \<longleftrightarrow> (\<forall>f. \<not> ferror F f) \<and> (\<forall>b bs. fst (evbuffer_add E b bs))"

text \<open>
  How a run of the callback from \<open>fc\<close> ends: the output has been extended by exactly the next bytes
  of the file, until the file is exhausted or the high-water mark is reached; everything is closed
  only when the whole file was read and sent.
\<close>

definition file_write_post ::
  "'b evbuffer_api \<Rightarrow> 'f file_api \<Rightarrow> ('b, 'f) file_conn \<Rightarrow> ('b, 'f) file_outcome \<Rightarrow> bool" where
  "file_write_post E F fc r =
     (case fst r of
        Some fc' \<Rightarrow> snd r = [] \<and>
          fc_out E fc' @ file_rest F (fc_fp fc') = fc_out E fc @ file_rest F (fc_fp fc) \<and>
          fc_out E fc' \<noteq> [] \<and>
          (file_rest F (fc_fp fc') = [] \<or> STREAM_READ_HIGH_WATER \<le> length (fc_out E fc')) \<and>
          length (fc_out E fc') < max (length (fc_out E fc) + 1) (STREAM_READ_HIGH_WATER + FILE_CHUNK_SIZE)
      | None \<Rightarrow> snd r = snd (file_done fc) \<and> fc_out E fc = [] \<and> file_rest F (fc_fp fc) = [])"

lemma file_write_step:
  assumes "evbuffer_laws E" and "file_laws F" and "no_errors E F"
    and "fread F (fc_fp fc) FILE_CHUNK_SIZE = (bs, f')"
  defines "wr \<equiv> bufferevent_write E bs (client (fc_conn fc))"
  defines "fc1 \<equiv> fc\<lparr>fc_fp := f', fc_conn := (fc_conn fc)\<lparr>client := snd wr\<rparr>\<rparr>"
  shows "fst wr" and "fc_out E fc1 @ file_rest F (fc_fp fc1) = fc_out E fc @ file_rest F (fc_fp fc)"
    and "length (fc_out E fc1) = length (fc_out E fc) + length bs" and "length bs \<le> FILE_CHUNK_SIZE"
    and "snd (file_done fc1) = snd (file_done fc)"
proof -
  obtain ok out where add: "evbuffer_add E (bev_output (client (fc_conn fc))) bs = (ok, out)"
    by (cases "evbuffer_add E (bev_output (client (fc_conn fc))) bs")
  then have ok: "ok" using assms(3) by (metis no_errors_def fst_conv)
  have out: "contents E out = contents E (bev_output (client (fc_conn fc))) @ bs"
    using assms(1) add ok unfolding evbuffer_laws_def by presburger
  have rest: "file_rest F (fc_fp fc) = bs @ file_rest F f'" "length bs \<le> FILE_CHUNK_SIZE"
    using assms(2,4) unfolding file_laws_def by blast+
  have wr: "wr = (True, (client (fc_conn fc))\<lparr>bev_output := out\<rparr>)"
    using add ok by (simp add: wr_def bufferevent_write_def)
  show "fst wr" "fc_out E fc1 @ file_rest F (fc_fp fc1) = fc_out E fc @ file_rest F (fc_fp fc)"
    "length (fc_out E fc1) = length (fc_out E fc) + length bs" "length bs \<le> FILE_CHUNK_SIZE"
    "snd (file_done fc1) = snd (file_done fc)"
    using wr out rest by (simp_all add: fc1_def fc_out_def file_done_def free_conn_def)
qed

lemma file_write_cb_ok:
  assumes laws: "evbuffer_laws E" "file_laws F" "no_errors E F"
  shows "\<exists>r. file_write_cb E F fc = Some r \<and> file_write_post E F fc r"
proof (induction "STREAM_READ_HIGH_WATER - length (fc_out E fc)" arbitrary: fc rule: less_induct)
  case less
  have len: "evbuffer_get_length E (bev_output (client (fc_conn fc))) = length (fc_out E fc)"
    using laws(1) by (simp add: evbuffer_laws_def fc_out_def)
  obtain bs f' where rd: "fread F (fc_fp fc) FILE_CHUNK_SIZE = (bs, f')" by (cases "fread F (fc_fp fc) FILE_CHUNK_SIZE")
  note step = file_write_step [OF laws rd]
  show ?case
  proof (cases "length (fc_out E fc) < STREAM_READ_HIGH_WATER")
    case False
    then show ?thesis
      using len by (subst file_write_cb.simps) (auto simp: file_write_post_def water_defs)
  next
    case True
    show ?thesis
    proof (cases "bs = []")
      case empty: True
      have "\<not> ferror F f'" using laws(3) by (simp add: no_errors_def)
      moreover from this have "file_rest F (fc_fp fc) = []" "file_rest F f' = []"
        using laws(2) rd empty unfolding file_laws_def FILE_CHUNK_SIZE_def by fastforce+
      ultimately show ?thesis
        using True len rd empty
        by (subst file_write_cb.simps) (auto simp: file_write_post_def file_done_def fc_out_def Let_def)
    next
      case False
      let ?wr = "bufferevent_write E bs (client (fc_conn fc))"
      let ?fc = "fc\<lparr>fc_fp := f', fc_conn := (fc_conn fc)\<lparr>client := snd ?wr\<rparr>\<rparr>"
      have code: "file_write_cb E F fc = file_write_cb E F ?fc"
        using True False len rd step(1) by (subst file_write_cb.simps) (simp add: Let_def)
      have "STREAM_READ_HIGH_WATER - length (fc_out E ?fc) < STREAM_READ_HIGH_WATER - length (fc_out E fc)"
        using True False step(3) by (simp add: diff_less_mono2)
      then obtain r where r: "file_write_cb E F ?fc = Some r" "file_write_post E F ?fc r"
        using less.hyps by blast
      have "file_write_post E F fc r"
        using r(2) step False True by (auto simp: file_write_post_def split: option.splits)
      with code r(1) show ?thesis by simp
    qed
  qed
qed

section \<open>Delivery\<close>

text \<open>
  A file connection and its environment: libevent sends bytes from the front of the output, calls
  the write callback when the output is empty, and may report an event on the socket at any time (the client is gone, an error, the idle
  timeout). \<open>fs_wire\<close> is what the client was sent; \<open>fs_event\<close> records that there was an event.
\<close>

record ('b, 'f) file_sys =
  fs_state :: "('b, 'f) file_conn option"
  fs_wire :: "byte list"
  fs_event :: bool

inductive file_step :: "'b evbuffer_api \<Rightarrow> 'f file_api \<Rightarrow> ('b, 'f) file_sys \<Rightarrow> ('b, 'f) file_sys \<Rightarrow> bool" for E F where
  file_flush: "fs_state s = Some fc \<Longrightarrow> 0 < k \<Longrightarrow> k \<le> length (fc_out E fc) \<Longrightarrow>
    file_step E F s (s\<lparr>fs_state := Some (fc\<lparr>fc_conn := (fc_conn fc)\<lparr>client :=
        (client (fc_conn fc))\<lparr>bev_output := evbuffer_drain E (bev_output (client (fc_conn fc))) k\<rparr>\<rparr>\<rparr>),
      fs_wire := fs_wire s @ take k (fc_out E fc)\<rparr>)"
| file_writable: "fs_state s = Some fc \<Longrightarrow> fc_out E fc = [] \<Longrightarrow> file_write_cb E F fc = Some (fco, es) \<Longrightarrow>
    file_step E F s (s\<lparr>fs_state := fco\<rparr>)"
| file_socket_event: "fs_state s = Some fc \<Longrightarrow> file_event_cb events fc = (fco, es) \<Longrightarrow>
    file_step E F s (s\<lparr>fs_state := fco, fs_event := True\<rparr>)"

text \<open>A connection for the file \<open>fp\<close> that \<^verbatim>\<open>start_stream_file\<close> has just started.\<close>

definition file_started ::
  "'b evbuffer_api \<Rightarrow> 'f file_api \<Rightarrow> 'f \<Rightarrow> 'b conn \<Rightarrow> ('b, 'f) file_sys \<Rightarrow> bool" where
  "file_started E F fp c s \<longleftrightarrow> fs_wire s = [] \<and> \<not> fs_event s \<and> contents E (bev_output (client c)) = [] \<and>
     (\<exists>es. start_stream_file E F (\<lambda>_. Inr fp) True c = Some (Inr (), fs_state s, es))"

text \<open>What is not sent yet, and a measure for the steps that are left: bytes to send, and calls of the callback.\<close>

definition file_left :: "'b evbuffer_api \<Rightarrow> 'f file_api \<Rightarrow> ('b, 'f) file_sys \<Rightarrow> byte list" where
  "file_left E F s = (case fs_state s of None \<Rightarrow> [] | Some fc \<Rightarrow> fc_out E fc @ file_rest F (fc_fp fc))"

definition file_work :: "'b evbuffer_api \<Rightarrow> 'f file_api \<Rightarrow> ('b, 'f) file_sys \<Rightarrow> nat" where
  "file_work E F s = (case fs_state s of None \<Rightarrow> 0
     | Some fc \<Rightarrow> 2 * length (file_left E F s) + (if fc_out E fc = [] then 2 else 1))"

definition file_inv :: "'b evbuffer_api \<Rightarrow> 'f file_api \<Rightarrow> 'f \<Rightarrow> ('b, 'f) file_sys \<Rightarrow> bool" where
  "file_inv E F fp s \<longleftrightarrow>
     (if fs_event s then fs_state s = None \<and> (\<exists>more. file_rest F fp = fs_wire s @ more)
      else file_rest F fp = fs_wire s @ file_left E F s)"

lemma file_write_post_rest:
  assumes "file_write_post E F fc (fco, es)"
  shows "(case fco of None \<Rightarrow> [] | Some fc' \<Rightarrow> fc_out E fc' @ file_rest F (fc_fp fc')) =
    fc_out E fc @ file_rest F (fc_fp fc)"
  using assms by (auto simp: file_write_post_def split: option.splits)

lemma file_inv_started:
  assumes laws: "evbuffer_laws E" "file_laws F" "no_errors E F" and s: "file_started E F fp c s"
  shows "file_inv E F fp s"
proof -
  let ?cl = "(set_cbs No_read_cb file_write file_event ((client c)\<lparr>write_high_water := STREAM_READ_HIGH_WATER\<rparr>))\<lparr>ev_write := True\<rparr>"
  let ?fc = "\<lparr>fc_conn = set_client_idle_timeout (c\<lparr>upstream_bev := None, client := ?cl\<rparr>), fc_fp = fp\<rparr>"
  obtain r where r: "file_write_cb E F ?fc = Some r" "file_write_post E F ?fc r"
    using file_write_cb_ok [OF laws] by blast
  have "fst r = fs_state s"
    using s r(1) by (auto simp: file_started_def start_stream_file_def Let_def split: prod.splits)
  moreover have "fc_out E ?fc = []"
    using s by (simp add: file_started_def fc_out_def set_client_idle_timeout_def set_timeouts_def set_cbs_def Let_def)
  moreover have "fs_wire s = []" using s by (simp add: file_started_def)
  moreover have "(case fst r of None \<Rightarrow> [] | Some fc' \<Rightarrow> fc_out E fc' @ file_rest F (fc_fp fc')) =
      fc_out E ?fc @ file_rest F (fc_fp ?fc)"
    using r(2) by (intro file_write_post_rest [where es = "snd r"]) simp
  moreover have "\<not> fs_event s" using s by (simp add: file_started_def)
  ultimately show ?thesis by (simp add: file_inv_def file_left_def)
qed

lemma file_drained:
  assumes "evbuffer_laws E"
  shows "fc_out E (fc\<lparr>fc_conn := (fc_conn fc)\<lparr>client := (client (fc_conn fc))\<lparr>bev_output :=
    evbuffer_drain E (bev_output (client (fc_conn fc))) k\<rparr>\<rparr>\<rparr>) = drop k (fc_out E fc)"
  using assms by (simp add: evbuffer_laws_def fc_out_def)

text \<open>Every step keeps the invariant and leaves less work.\<close>

lemma file_inv_step:
  assumes laws: "evbuffer_laws E" "file_laws F" "no_errors E F"
    and inv: "file_inv E F fp s" and step: "file_step E F s t"
  shows "file_inv E F fp t" and "file_work E F t < file_work E F s"
proof -
  have "file_inv E F fp t \<and> file_work E F t < file_work E F s"
    using step
  proof cases
    case (file_flush fc k)
    with inv show ?thesis by (auto simp: file_inv_def file_left_def file_work_def file_drained [OF laws(1)])
  next
    case (file_writable fc fco es)
    obtain r where "file_write_cb E F fc = Some r" "file_write_post E F fc r"
      using file_write_cb_ok [OF laws] by blast
    with file_writable have post: "file_write_post E F fc (fco, es)" by simp
    have "file_left E F t = file_left E F s"
      using file_write_post_rest [OF post] file_writable by (simp add: file_left_def)
    moreover have "fc_out E fc' \<noteq> []" if "fco = Some fc'" for fc' using post that by (simp add: file_write_post_def)
    ultimately show ?thesis using file_writable inv by (auto simp: file_inv_def file_work_def split: option.split)
  next
    case (file_socket_event fc events fco es)
    then have "fco = None" by (simp add: file_event_cb_def file_done_def)
    with file_socket_event inv show ?thesis by (auto simp: file_inv_def file_work_def split: if_splits)
  qed
  then show "file_inv E F fp t" "file_work E F t < file_work E F s" by simp_all
qed

lemma start_stream_file_some:
  assumes "evbuffer_laws E" "file_laws F" "no_errors E F"
  shows "\<exists>fco es. start_stream_file E F (\<lambda>_. Inr fp) True c = Some (Inr (), fco, es)"
  using file_write_cb_ok [OF assms] by (fastforce simp: start_stream_file_def Let_def)

definition file_env :: "'b evbuffer_api \<Rightarrow> 'f file_api \<Rightarrow> bool" where
  "file_env E F \<longleftrightarrow> evbuffer_laws E \<and> file_laws F \<and> no_errors E F"

interpretation file_delivery: inductive_invariant
  "\<lambda>s. file_env E F \<and> file_started E F fp c s" "file_step E F" "\<lambda>s. file_env E F \<and> file_inv E F fp s"
  by unfold_locales (auto simp: file_env_def intro: file_inv_started file_inv_step)

text \<open>A connection that is not closed can always go on, without an event on the socket.\<close>

lemma file_progress:
  assumes laws: "evbuffer_laws E" "file_laws F" "no_errors E F" and "fs_state s = Some fc"
  shows "\<exists>t. file_step E F s t \<and> fs_event t = fs_event s"
proof (cases "fc_out E fc = []")
  case True
  obtain fco es where "file_write_cb E F fc = Some (fco, es)" using file_write_cb_ok [OF laws, of fc] by auto
  from file_step.file_writable [OF assms(4) True this] show ?thesis by (intro exI [of _ "s\<lparr>fs_state := fco\<rparr>"]) simp
next
  case False
  then have "0 < length (fc_out E fc)" by simp
  note flush = file_step.file_flush [OF assms(4) this order_refl, of F]
  show ?thesis by (rule exI, rule conjI, rule flush) simp
qed

lemma file_runs_end:
  assumes "file_env E F" and "file_inv E F fp s" and "(file_step E F ^^ n) s t"
  shows "n + file_work E F t \<le> file_work E F s \<and> file_inv E F fp t"
  using assms(3)
proof (induction n arbitrary: t)
  case (Suc n)
  then obtain u where u: "(file_step E F ^^ n) s u" "file_step E F u t" by auto
  with Suc.IH [OF u(1)] file_inv_step [OF _ _ _ _ u(2)] assms(1) show ?case by (fastforce simp: file_env_def)
qed (use assms(2) in simp)

text \<open>
  C21. Serving a file delivers the file, when no read of the file fails and no byte is refused by the output buffer. However libevent cuts
  the output into sends, and whenever the socket has an event, what the client was sent is always an initial part of the
  file. Unless there was an event on the socket, the connection is closed only after the whole file was sent, byte for byte; and it
  is closed in the end: a connection that is not closed can always send or call back, and no run has more than two
  steps per byte of the file and two more. An event on the socket closes the connection at once.
\<close>

theorem stream_file_delivers:
  assumes laws: "evbuffer_laws E" "file_laws F" "no_errors E F"
    and "reach (file_started E F fp c) (file_step E F) s"
  shows "(\<exists>more. file_rest F fp = fs_wire s @ more) \<and>
    (fs_event s \<longrightarrow> fs_state s = None) \<and>
    (fs_state s = None \<and> \<not> fs_event s \<longrightarrow> fs_wire s = file_rest F fp) \<and>
    (fs_state s \<noteq> None \<longrightarrow> (\<exists>t. file_step E F s t \<and> \<not> fs_event t)) \<and>
    (\<forall>n t. (file_step E F ^^ n) s t \<longrightarrow> n \<le> 2 * length (file_rest F fp) + 2)"
proof -
  have env: "file_env E F" using laws by (simp add: file_env_def)
  have s: "reach (\<lambda>s. file_env E F \<and> file_started E F fp c s) (file_step E F) s"
    using reach_mono [OF assms(4)] env by simp
  have inv: "file_inv E F fp s" using file_delivery.inv_reach [OF s] by blast
  have "file_work E F s \<le> 2 * length (file_rest F fp) + 2"
    using inv by (auto simp: file_inv_def file_work_def split: option.split if_splits)
  then have "n \<le> 2 * length (file_rest F fp) + 2" if "(file_step E F ^^ n) s t" for n t
    using file_runs_end [OF env inv that] by linarith
  moreover have "\<exists>t. file_step E F s t \<and> \<not> fs_event t" if "fs_state s \<noteq> None"
    using that file_progress [OF laws, of s] inv by (auto simp: file_inv_def split: if_splits)
  moreover have "\<exists>more. file_rest F fp = fs_wire s @ more" using inv by (auto simp: file_inv_def split: if_splits)
  moreover have "fs_event s \<longrightarrow> fs_state s = None" "fs_state s = None \<and> \<not> fs_event s \<longrightarrow> fs_wire s = file_rest F fp"
    using inv by (auto simp: file_inv_def file_left_def)
  ultimately show ?thesis by blast
qed

text \<open>After an error of a read, the connection and the file are closed at once, whatever was not sent.\<close>

lemma file_read_error_closes:
  assumes "evbuffer_get_length E (bev_output (client (fc_conn fc))) < STREAM_READ_HIGH_WATER"
    and "fread F (fc_fp fc) FILE_CHUNK_SIZE = ([], f')" and "ferror F f'"
  shows "file_write_cb E F fc = Some (file_done (fc\<lparr>fc_fp := f'\<rparr>))"
  using assms by (subst file_write_cb.simps) (simp add: Let_def)

definition list_file :: "byte list file_api" where
  "list_file = \<lparr>file_rest = (\<lambda>f. f), fread = (\<lambda>f n. (take n f, drop n f)), ferror = (\<lambda>_. False)\<rparr>"

lemma list_file_laws: "file_laws list_file" "no_errors list_evbuffer list_file"
  by (auto simp: file_laws_def list_file_def no_errors_def list_evbuffer_def)

definition example_conn :: "byte list conn" where
  "example_conn = conn_new 1 route_zero [] 0 (bufferevent_socket_new list_evbuffer 9)"

lemma example_file_started:
  obtains s where "file_started list_evbuffer list_file [1, 2, 3] example_conn s"
proof -
  from start_stream_file_some [OF list_evbuffer_laws list_file_laws, of "[1, 2, 3]" example_conn]
  obtain fco es where "start_stream_file list_evbuffer list_file (\<lambda>_. Inr [1, 2, 3]) True example_conn = Some (Inr (), fco, es)"
    by blast
  then show thesis
    by (intro that [of "\<lparr>fs_state = fco, fs_wire = [], fs_event = False\<rparr>"])
      (auto simp: file_started_def example_conn_def conn_new_def bufferevent_socket_new_def list_evbuffer_def)
qed

theorem stream_file_delivers_witness:
  "\<exists>s. file_started list_evbuffer list_file [1, 2, 3] example_conn s \<and> (\<exists>more. [1, 2, 3] = fs_wire s @ more) \<and>
     (\<forall>n t. (file_step list_evbuffer list_file ^^ n) s t \<longrightarrow> n \<le> 8)"
proof -
  obtain s where s: "file_started list_evbuffer list_file [1, 2, 3] example_conn s" by (rule example_file_started)
  from stream_file_delivers [OF list_evbuffer_laws list_file_laws reach_init, OF s] s show ?thesis by (auto simp: list_file_def)
qed

end
