(* ===== verification/Stream_Adopt.thy ===== *)
theory Stream_Adopt
  imports Stream_File Stream_Pipe Worker_Queue
begin

text \<open>
  \<^verbatim>\<open>worker_adopt_client_fd\<close> of \<^verbatim>\<open>src/stream_conn.c\<close>: a worker takes over an accepted client, and
  answers it, serves it a file or connects it to its upstream, with the PROXY v2 header queued
  before anything else. The results of the calls it makes are the fields of \<open>adopt_calls\<close>.
\<close>

section \<open>The function\<close>

record 'f adopt_calls =
  ac_calloc :: bool
  ac_client_bev :: bool
  ac_upstream_bev :: bool
  ac_pton4 :: "string \<Rightarrow> byte list option"
  ac_pton6 :: "string \<Rightarrow> byte list option"
  ac_connect :: "sockaddr \<Rightarrow> errno option"
  ac_connect_fd :: int
  ac_setsockopt :: "int \<Rightarrow> errno option"
  ac_getsockname :: "int \<Rightarrow> (sockaddr \<times> nat) option"
  ac_getpeername :: "int \<Rightarrow> sockaddr option"
  ac_ntop4 :: "byte list \<Rightarrow> string option"
  ac_ntop6 :: "byte list \<Rightarrow> string option"
  ac_fopen :: "string \<Rightarrow> 'f result"
  ac_file_calloc :: bool

text \<open>What became of the client: nothing is left, a connection, or a file transfer.\<close>

datatype ('b, 'f) adopted = Adopt_none | Adopt_conn "'b conn" | Adopt_file "('b, 'f) file_conn"

fun adopted_conn :: "'b conn option \<Rightarrow> ('b, 'f) adopted" where
  "adopted_conn None = Adopt_none"
| "adopted_conn (Some c) = Adopt_conn c"

fun adopted_file :: "('b, 'f) file_conn option \<Rightarrow> ('b, 'f) adopted" where
  "adopted_file None = Adopt_none"
| "adopted_file (Some fc) = Adopt_file fc"

text \<open>
  \<^verbatim>\<open>set_socket_keepalive\<close>, with the option it sets; \<open>setsockopt\<close> is the error of the call. A failure is
  only logged by the callers.
\<close>

definition set_socket_keepalive :: "(int \<Rightarrow> errno option) \<Rightarrow> int \<Rightarrow> route \<Rightarrow> unit result \<times> conn_event list" where
  "set_socket_keepalive setsockopt fd r =
     ((case setsockopt fd of Some e \<Rightarrow> Inl e | None \<Rightarrow> Inr ()), [Set_keepalive fd (keep_alive (opts r))])"

lemma set_socket_keepalive_event [simp]: "snd (set_socket_keepalive so fd r) = [Set_keepalive fd (keep_alive (opts r))]"
  by (simp add: set_socket_keepalive_def)

definition tune_stream_bev :: "'b bufferevent \<Rightarrow> 'b bufferevent" where
  "tune_stream_bev b = b\<lparr>max_single_read := Some STREAM_IO_CHUNK_SIZE, max_single_write := Some STREAM_IO_CHUNK_SIZE\<rparr>"

text \<open>The connection with both bufferevents configured, reading from the client still disabled.\<close>

definition adopt_setup :: "'b evbuffer_api \<Rightarrow> 'b conn \<Rightarrow> 'b conn" where
  "adopt_setup E c =
     (let u = bufferevent_socket_new E (- 1);
          c = c\<lparr>client := tune_stream_bev (client c), upstream_bev := Some (tune_stream_bev u)\<rparr>;
          c = c\<lparr>client := (client c)\<lparr>read_high_water := STREAM_READ_HIGH_WATER\<rparr>,
                upstream_bev := map_option (\<lambda>u. u\<lparr>read_high_water := STREAM_READ_HIGH_WATER\<rparr>) (upstream_bev c)\<rparr>;
          c = c\<lparr>client := set_cbs pipe_client_read pipe_client_write stream_client_event (client c),
                upstream_bev := map_option (set_cbs pipe_upstream_read pipe_upstream_write stream_upstream_event) (upstream_bev c)\<rparr>;
          c = c\<lparr>client := (client c)\<lparr>ev_read := False\<rparr>\<rparr> in
      set_connect_timeout c)"

text \<open>The address family that is checked before the header is built, and the header.\<close>

definition SIZEOF_HDR :: nat where "SIZEOF_HDR = 256"

definition adopt_header :: "'f adopt_calls \<Rightarrow> worker_stream_client_msg \<Rightarrow> byte list option" where
  "adopt_header k ac =
     (case ac_getsockname k (sc_fd ac) of
        None \<Rightarrow> None
      | Some (local_addr, local_len) \<Rightarrow>
          if sc_peer_addr_len ac = 0 then None
          else if ss_family (sc_peer_addr ac) \<noteq> AF_INET \<or> ss_family local_addr \<noteq> AF_INET then None
          else case proxy_v2_build (Some SIZEOF_HDR) (Some (sc_peer_addr ac)) (sc_peer_addr_len ac)
                      (Some local_addr) local_len SOCK_STREAM True of
            Inl _ \<Rightarrow> None
          | Inr hdr \<Rightarrow> Some hdr)"

definition enable_upstream :: "'b conn \<Rightarrow> 'b conn" where
  "enable_upstream c = c\<lparr>upstream_bev := map_option (\<lambda>u. u\<lparr>ev_read := True, ev_write := True\<rparr>) (upstream_bev c)\<rparr>"

definition adopt_proxy_v2 ::
  "'b evbuffer_api \<Rightarrow> 'f adopt_calls \<Rightarrow> worker_stream_client_msg \<Rightarrow> 'b conn \<Rightarrow> 'b outcome" where
  "adopt_proxy_v2 E k ac c =
     (if \<not> proxy_v2 (opts (sc_route ac)) then (Some (enable_upstream c), [])
      else case adopt_header k ac of
        None \<Rightarrow> free_conn c
      | Some hdr \<Rightarrow>
          (case upstream_bev c of
             None \<Rightarrow> free_conn c
           | Some u \<Rightarrow>
               let (ok, u) = bufferevent_write E hdr u; c = c\<lparr>upstream_bev := Some u\<rparr> in
               if ok then (Some (enable_upstream c), []) else free_conn c))"

definition adopt_connect ::
  "'b evbuffer_api \<Rightarrow> 'f adopt_calls \<Rightarrow> worker_stream_client_msg \<Rightarrow> 'b conn \<Rightarrow> 'b outcome" where
  "adopt_connect E k ac c =
     (let r = sc_route ac;
          es1 = snd (set_socket_keepalive (ac_setsockopt k) (sc_fd ac) r);
          c = adopt_setup E c;
          (rc, es2) = connect_upstream (ac_pton4 k) (ac_pton6 k) (ac_connect k) (upstream r) in
      case rc of
        Inl _ \<Rightarrow> (None, es1 @ es2 @ snd (free_conn c))
      | Inr _ \<Rightarrow>
          let c = c\<lparr>upstream_bev := map_option (\<lambda>u. u\<lparr>bev_fd := ac_connect_fd k\<rparr>) (upstream_bev c)\<rparr>;
              es3 = (if keep_alive (opts r) \<and> ep_kind (upstream r) = ENDPOINT_INET \<and> ac_connect_fd k \<ge> 0
                     then snd (set_socket_keepalive (ac_setsockopt k) (ac_connect_fd k) r) else []);
              (co, es4) = adopt_proxy_v2 E k ac c in
          (co, es1 @ es2 @ es3 @ es4))"

definition worker_adopt_client_fd ::
  "'b evbuffer_api \<Rightarrow> 'f file_api \<Rightarrow> 'f adopt_calls \<Rightarrow> 32 word \<Rightarrow> worker_stream_client_msg \<Rightarrow>
   (('b, 'f) adopted \<times> conn_event list) option" where
  "worker_adopt_client_fd E F k w ac =
     (if \<not> ac_calloc k then Some (Adopt_none, [Close_socket (sc_fd ac)])
      else if \<not> ac_client_bev k then Some (Adopt_none, [Conn_free, Close_socket (sc_fd ac)])
      else
        let c = conn_new w (sc_route ac) (sc_peer_addr ac) (sc_peer_addr_len ac)
                  (bufferevent_socket_new E (sc_fd ac)) in
        if ep_kind (upstream (sc_route ac)) = ENDPOINT_BUILTIN then
          (let (_, co, es) = start_stream_builtin E (ac_getpeername k) (ac_ntop4 k) (ac_ntop6 k) c in
           Some (adopted_conn co, es))
        else if ep_kind (upstream (sc_route ac)) = ENDPOINT_FILE then
          map_option (\<lambda>(_, fco, es). (adopted_file fco, es))
            (start_stream_file E F (ac_fopen k) (ac_file_calloc k) c)
        else if \<not> ac_upstream_bev k then Some (Adopt_none, snd (free_conn c))
        else (let (co, es) = adopt_connect E k ac c in Some (adopted_conn co, es)))"

section \<open>The socket of the client\<close>

definition closed_by :: "conn_event \<Rightarrow> int list" where
  "closed_by e = (case e of Bufferevent_free fd \<Rightarrow> [fd] | Close_socket fd \<Rightarrow> [fd] | _ \<Rightarrow> [])"

definition times_closed :: "int \<Rightarrow> conn_event list \<Rightarrow> nat" where
  "times_closed fd es = length (filter (\<lambda>x. x = fd) (concat (map closed_by es)))"

lemma times_closed_simps [simp]:
  "times_closed fd [] = 0"
  "times_closed fd (e # es) = length (filter (\<lambda>x. x = fd) (closed_by e)) + times_closed fd es"
  "times_closed fd (es @ fs) = times_closed fd es + times_closed fd fs"
  by (simp_all add: times_closed_def)

fun owned_fd :: "('b, 'f) adopted \<Rightarrow> int option" where
  "owned_fd Adopt_none = None"
| "owned_fd (Adopt_conn c) = Some (bev_fd (client c))"
| "owned_fd (Adopt_file fc) = Some (bev_fd (client (fc_conn fc)))"

text \<open>What an operation that consumes a connection does to the client's socket \<open>fd\<close>.\<close>

definition conn_fds :: "int \<Rightarrow> 'b conn \<Rightarrow> bool" where
  "conn_fds fd c \<longleftrightarrow> bev_fd (client c) = fd \<and>
     (case upstream_bev c of None \<Rightarrow> True | Some u \<Rightarrow> bev_fd u \<noteq> fd)"

definition fd_outcome :: "int \<Rightarrow> 'b outcome \<Rightarrow> bool" where
  "fd_outcome fd r = (case fst r of
     None \<Rightarrow> times_closed fd (snd r) = 1 | Some c \<Rightarrow> times_closed fd (snd r) = 0 \<and> bev_fd (client c) = fd)"

lemma free_conn_fd: "conn_fds fd c \<Longrightarrow> times_closed fd (snd (free_conn c)) = 1"
  by (auto simp: conn_fds_def free_conn_def closed_by_def split: option.split)

lemma free_conn_outcome: "conn_fds fd c \<Longrightarrow> fd_outcome fd (free_conn c)"
  using free_conn_fd [of fd c] by (simp add: fd_outcome_def free_conn_def)

lemmas conn_update_defs = set_timeouts_def set_client_idle_timeout_def set_connect_timeout_def
  finish_client_write_def set_cbs_def tune_stream_bev_def enable_upstream_def bufferevent_write_def

lemma builtin_respond_fd:
  assumes "conn_fds fd c" shows "fd_outcome fd (builtin_respond E res c)"
  using assms free_conn_outcome [OF assms]
  by (auto simp: builtin_respond_def fd_outcome_def conn_update_defs conn_fds_def Let_def closed_by_def
    split: x_builtin_action.split prod.split)

lemma start_stream_builtin_fd:
  assumes "conn_fds fd c" and "upstream_bev c = None"
  shows "fd_outcome fd (snd (start_stream_builtin E gp n4 n6 c))"
proof -
  have fds: "conn_fds fd (set_client_idle_timeout (c\<lparr>upstream_bev := None\<rparr>))"
    using assms(1) by (simp add: conn_fds_def set_client_idle_timeout_def set_timeouts_def Let_def)
  have "snd (start_stream_builtin E gp n4 n6 c) = free_conn c \<or>
      (\<exists>res. snd (start_stream_builtin E gp n4 n6 c) = builtin_respond E res (set_client_idle_timeout (c\<lparr>upstream_bev := None\<rparr>)))"
    using assms(2) by (auto simp: start_stream_builtin_def Let_def case_prod_beta split: sum.split)
  then show ?thesis using builtin_respond_fd [OF fds] free_conn_outcome [OF assms(1)] by auto
qed

text \<open>The write callback of a file returns with any file and buffer errors, and closes once if it closes.\<close>

lemma file_write_cb_fd:
  assumes laws: "evbuffer_laws E" and "conn_fds fd (fc_conn fc)"
  shows "\<exists>r. file_write_cb E F fc = Some r \<and>
    (case fst r of None \<Rightarrow> times_closed fd (snd r) = 1
     | Some fc' \<Rightarrow> times_closed fd (snd r) = 0 \<and> bev_fd (client (fc_conn fc')) = fd)"
  using assms(2)
proof (induction "STREAM_READ_HIGH_WATER - length (fc_out E fc)" arbitrary: fc rule: less_induct)
  case less
  have len: "evbuffer_get_length E b = length (contents E b)" for b
    using laws by (simp add: evbuffer_laws_def)
  have dn: "times_closed fd (snd (file_done fc')) = 1" if "conn_fds fd (fc_conn fc')" for fc' :: "('a, 'b) file_conn"
    using free_conn_fd [OF that] by (simp add: file_done_def closed_by_def)
  obtain bs f' where rd: "fread F (fc_fp fc) FILE_CHUNK_SIZE = (bs, f')" by (cases "fread F (fc_fp fc) FILE_CHUNK_SIZE")
  obtain ok out where add: "evbuffer_add E (bev_output (client (fc_conn fc))) bs = (ok, out)"
    by (cases "evbuffer_add E (bev_output (client (fc_conn fc))) bs")
  let ?fc0 = "fc\<lparr>fc_fp := f'\<rparr>"
  let ?fc1 = "?fc0\<lparr>fc_conn := (fc_conn fc)\<lparr>client := (client (fc_conn fc))\<lparr>bev_output := out\<rparr>\<rparr>\<rparr>"
  have fds: "conn_fds fd (fc_conn ?fc0)" "conn_fds fd (fc_conn ?fc1)" "bev_fd (client (fc_conn fc)) = fd"
    using less.prems by (simp_all add: conn_fds_def)
  show ?case
  proof (cases "length (fc_out E fc) < STREAM_READ_HIGH_WATER \<and> bs \<noteq> [] \<and> ok")
    case True
    have "contents E out = fc_out E fc @ bs"
      using laws add True unfolding evbuffer_laws_def fc_out_def by metis
    then have "STREAM_READ_HIGH_WATER - length (fc_out E ?fc1) < STREAM_READ_HIGH_WATER - length (fc_out E fc)"
      using True by (simp add: fc_out_def diff_less_mono2)
    from less.hyps [OF this fds(2)] True rd add len show ?thesis
      by (subst file_write_cb.simps) (simp add: Let_def bufferevent_write_def fc_out_def)
  next
    case False
    then show ?thesis
      using rd add len fds dn [OF fds(1)] dn [OF fds(2)]
      by (subst file_write_cb.simps) (auto simp: Let_def bufferevent_write_def fc_out_def file_done_def)
  qed
qed

lemma start_stream_file_fd:
  assumes laws: "evbuffer_laws E" and "conn_fds fd c" and "upstream_bev c = None"
  shows "\<exists>rc fco es. start_stream_file E F fopen cal c = Some (rc, fco, es) \<and>
    (case fco of None \<Rightarrow> times_closed fd es = 1
     | Some fc \<Rightarrow> times_closed fd es = 0 \<and> bev_fd (client (fc_conn fc)) = fd)"
proof (cases "fopen (ep_path (upstream (conn_route c)))")
  case (Inl e)
  then show ?thesis using free_conn_fd [OF assms(2)] by (simp add: start_stream_file_def)
next
  case (Inr fp)
  let ?cl = "(set_cbs No_read_cb file_write file_event ((client c)\<lparr>write_high_water := STREAM_READ_HIGH_WATER\<rparr>))\<lparr>ev_write := True\<rparr>"
  let ?fc = "\<lparr>fc_conn = set_client_idle_timeout (c\<lparr>upstream_bev := None, client := ?cl\<rparr>), fc_fp = fp\<rparr>"
  have fds: "conn_fds fd (fc_conn ?fc)" "conn_fds fd (c\<lparr>upstream_bev := None\<rparr>)"
    using assms(2) by (simp_all add: conn_fds_def conn_update_defs Let_def)
  obtain r where r: "file_write_cb E F ?fc = Some r" "case fst r of None \<Rightarrow> times_closed fd (snd r) = 1
     | Some fc' \<Rightarrow> times_closed fd (snd r) = 0 \<and> bev_fd (client (fc_conn fc')) = fd"
    using file_write_cb_fd [OF laws fds(1)] by blast
  then show ?thesis
    using Inr assms(3) free_conn_fd [OF fds(2)]
    by (cases r) (auto simp: start_stream_file_def Let_def closed_by_def split: option.splits)
qed

lemma adopt_proxy_v2_fd:
  assumes "conn_fds fd c" shows "fd_outcome fd (adopt_proxy_v2 E k ac c)"
proof -
  have "conn_fds fd (c\<lparr>upstream_bev := Some (snd (bufferevent_write E hdr u))\<rparr>)" if "upstream_bev c = Some u" for u hdr
    using assms that by (simp add: conn_fds_def bufferevent_write_def split: prod.split)
  note free = free_conn_outcome [OF this] free_conn_outcome [OF assms]
  have "fd_outcome fd (Some (enable_upstream (c\<lparr>upstream_bev := u\<rparr>)), [])" "fd_outcome fd (Some (enable_upstream c), [])" for u
    using assms by (simp_all add: fd_outcome_def enable_upstream_def conn_fds_def)
  with free show ?thesis
    by (auto simp: adopt_proxy_v2_def Let_def case_prod_beta split: option.split)
qed

lemma adopt_connect_fd:
  assumes "bev_fd (client c) = fd" and "upstream_bev c = None" and "fd \<noteq> - 1" and "ac_connect_fd k \<noteq> fd"
  shows "fd_outcome fd (adopt_connect E k ac c)"
proof -
  let ?c = "adopt_setup E c"
  let ?c1 = "?c\<lparr>upstream_bev := map_option (\<lambda>u. u\<lparr>bev_fd := ac_connect_fd k\<rparr>) (upstream_bev ?c)\<rparr>"
  have fds: "conn_fds fd ?c" "conn_fds fd ?c1"
    using assms by (simp_all add: conn_fds_def adopt_setup_def Let_def conn_update_defs bufferevent_socket_new_def)
  have "times_closed fd (snd (connect_upstream p4 p6 cn ep)) = 0" for p4 p6 cn ep
    by (auto simp: connect_upstream_def Let_def closed_by_def split: sum.split)
  then show ?thesis
    using free_conn_fd [OF fds(1)] adopt_proxy_v2_fd [OF fds(2), of E k ac]
    by (auto simp: adopt_connect_def Let_def fd_outcome_def closed_by_def case_prod_beta split: sum.split option.splits)
qed

lemma adopt_client_outcome:
  assumes "evbuffer_laws E" and "socket_is_valid (sc_fd ac)" and "ac_connect_fd k \<noteq> sc_fd ac"
  shows "\<exists>r es. worker_adopt_client_fd E F k w ac = Some (r, es) \<and>
    (case r of
       Adopt_none \<Rightarrow> times_closed (sc_fd ac) es = 1
     | _ \<Rightarrow> times_closed (sc_fd ac) es = 0 \<and> owned_fd r = Some (sc_fd ac))"
proof -
  let ?c = "conn_new w (sc_route ac) (sc_peer_addr ac) (sc_peer_addr_len ac) (bufferevent_socket_new E (sc_fd ac))"
  have c: "conn_fds (sc_fd ac) ?c" "upstream_bev ?c = None" "bev_fd (client ?c) = sc_fd ac"
    by (simp_all add: conn_fds_def conn_new_def bufferevent_socket_new_def)
  have fd: "sc_fd ac \<noteq> - 1" using assms(2) by (simp add: socket_is_valid_def EVUTIL_INVALID_SOCKET_def)
  have builtin: "fd_outcome (sc_fd ac) (snd (start_stream_builtin E (ac_getpeername k) (ac_ntop4 k) (ac_ntop6 k) ?c))"
    by (rule start_stream_builtin_fd [OF c(1,2)])
  have connect: "fd_outcome (sc_fd ac) (adopt_connect E k ac ?c)"
    by (rule adopt_connect_fd [OF c(3,2) fd assms(3)])
  obtain rc fco es where fl: "start_stream_file E F (ac_fopen k) (ac_file_calloc k) ?c = Some (rc, fco, es)"
    "case fco of None \<Rightarrow> times_closed (sc_fd ac) es = 1
     | Some fc \<Rightarrow> times_closed (sc_fd ac) es = 0 \<and> bev_fd (client (fc_conn fc)) = sc_fd ac"
    using start_stream_file_fd [OF assms(1) c(1,2)] by blast
  show ?thesis
    using builtin connect fl free_conn_fd [OF c(1)]
    by (auto simp: worker_adopt_client_fd_def Let_def fd_outcome_def closed_by_def case_prod_beta
      split: option.splits)
qed

text \<open>
  C17. \<^verbatim>\<open>worker_adopt_client_fd\<close> always returns, and it never leaks the client's socket or closes it
  twice: whatever fails (memory, bufferevents, connecting, the PROXY header, the file), the socket
  has been closed exactly once when no connection is left, and otherwise it has not been closed and
  belongs to the connection that is left. (The socket that libevent connects is another one.)
\<close>

theorem worker_adopt_client_fd_owner:
  assumes "evbuffer_laws E" and "socket_is_valid (sc_fd ac)" and "ac_connect_fd k \<noteq> sc_fd ac"
  shows "\<exists>r es. worker_adopt_client_fd E F k w ac = Some (r, es) \<and>
    (case r of
       Adopt_none \<Rightarrow> times_closed (sc_fd ac) es = 1
     | _ \<Rightarrow> times_closed (sc_fd ac) es = 0 \<and> owned_fd r = Some (sc_fd ac))"
  using assms by (rule adopt_client_outcome)

text \<open>A client of an IPv4 route with the PROXY header, and calls that all succeed.\<close>

definition example_ep :: endpoint where
  "example_ep = endpoint_zero\<lparr>ep_kind := ENDPOINT_INET, ep_host := ''h'', ep_port := 80\<rparr>"

definition example_client :: worker_stream_client_msg where
  "example_client = \<lparr>sc_route = route_zero\<lparr>upstream := example_ep, opts := route_options_zero\<lparr>proxy_v2 := True\<rparr>\<rparr>,
     sc_fd = 9, sc_peer_addr = mk_sin 5000 [10, 0, 0, 1], sc_peer_addr_len = SIZEOF_SIN\<rparr>"

definition example_adopt_calls :: "byte list adopt_calls" where
  "example_adopt_calls = \<lparr>ac_calloc = True, ac_client_bev = True, ac_upstream_bev = True,
     ac_pton4 = (\<lambda>_. Some [10, 0, 0, 2]), ac_pton6 = (\<lambda>_. None), ac_connect = (\<lambda>_. None), ac_connect_fd = 10, ac_setsockopt = (\<lambda>_. None),
     ac_getsockname = (\<lambda>_. Some (mk_sin 443 [10, 0, 0, 3], SIZEOF_SIN)), ac_getpeername = (\<lambda>_. None),
     ac_ntop4 = (\<lambda>_. None), ac_ntop6 = (\<lambda>_. None), ac_fopen = (\<lambda>_. Inl ENOENT), ac_file_calloc = True\<rparr>"

lemma example_fields [simp]:
  "sc_fd example_client = 9" "proxy_v2 (opts (sc_route example_client))" "upstream (sc_route example_client) = example_ep"
  "ep_kind example_ep = ENDPOINT_INET" "\<not> keep_alive (opts (sc_route example_client))"
  "ac_calloc example_adopt_calls" "ac_client_bev example_adopt_calls" "ac_upstream_bev example_adopt_calls"
  "ac_connect_fd example_adopt_calls = 10"
  by (simp_all add: example_client_def example_adopt_calls_def example_ep_def route_zero_def route_options_zero_def)

lemma example_connect:
  "connect_upstream (ac_pton4 example_adopt_calls) (ac_pton6 example_adopt_calls) (ac_connect example_adopt_calls) example_ep =
     (Inr (), [Socket_connect (mk_sin 80 [10, 0, 0, 2]) SIZEOF_SIN])"
  by (simp add: connect_upstream_def endpoint_to_sockaddr_def example_adopt_calls_def example_ep_def Let_def)

lemma example_header:
  "\<exists>hdr. adopt_header example_adopt_calls example_client = Some hdr \<and> length hdr = 28"
  by (simp add: adopt_header_def example_adopt_calls_def example_client_def proxy_v2_build_def Let_def SIZEOF_HDR_def
    PROXY_V2_SIG_def put_u16_def be16_def sizeof_defs)

lemma example_adopted:
  "\<exists>c. worker_adopt_client_fd list_evbuffer list_file example_adopt_calls 1 example_client =
     Some (Adopt_conn c, [Set_keepalive 9 False, Socket_connect (mk_sin 80 [10, 0, 0, 2]) SIZEOF_SIN])"
  using example_header
  by (auto simp: worker_adopt_client_fd_def adopt_connect_def example_connect adopt_proxy_v2_def adopt_setup_def
    bufferevent_write_def list_evbuffer_def set_connect_timeout_def Let_def)

lemma example_refused:
  "\<exists>es. worker_adopt_client_fd list_evbuffer list_file (example_adopt_calls\<lparr>ac_getsockname := (\<lambda>_. None)\<rparr>) 1 example_client =
     Some (Adopt_none, es)"
  by (auto simp: worker_adopt_client_fd_def adopt_connect_def example_connect adopt_proxy_v2_def adopt_header_def
    free_conn_def Let_def)

theorem worker_adopt_client_fd_owner_witness:
  "map_option (\<lambda>(r, es). (owned_fd r, times_closed 9 es))
     (worker_adopt_client_fd list_evbuffer list_file example_adopt_calls 1 example_client) = Some (Some 9, 0) \<and>
   map_option (\<lambda>(r, es). (owned_fd r, times_closed 9 es))
     (worker_adopt_client_fd list_evbuffer list_file (example_adopt_calls\<lparr>ac_getsockname := (\<lambda>_. None)\<rparr>) 1 example_client) =
     Some (None, 1)"
proof -
  have fd: "socket_is_valid (sc_fd example_client)" "ac_connect_fd example_adopt_calls \<noteq> sc_fd example_client"
    "ac_connect_fd (example_adopt_calls\<lparr>ac_getsockname := (\<lambda>_. None)\<rparr>) \<noteq> sc_fd example_client"
    by (simp_all add: socket_is_valid_def EVUTIL_INVALID_SOCKET_def)
  show ?thesis
    using worker_adopt_client_fd_owner [OF list_evbuffer_laws fd(1,2), of list_file 1]
      worker_adopt_client_fd_owner [OF list_evbuffer_laws fd(1,3), of list_file 1] example_adopted example_refused
    by auto
qed

end
