(* ===== verification/Stream_System.thy ===== *)
theory Stream_System
  imports Stream_Adopt
begin

text \<open>
  A proxied connection and its environment: the client and the upstream send bytes, libevent sends
  what is queued and calls the callbacks of \<^verbatim>\<open>src/stream_pipe.c\<close> and \<^verbatim>\<open>src/stream_conn.c\<close>, in
  any order the requests of the program permit. The invariant shows that the proxy neither loses,
  reorders nor invents bytes in either direction, that the PROXY v2 header is the first thing the
  upstream receives, that the client is not read before the upstream is connected, and
  that the buffers stay bounded.
\<close>

section \<open>The transition system\<close>

text \<open>
  The four histories: the bytes sent to the upstream and to the client, and the bytes received from
  the client and from the upstream.
\<close>

record 'b pipe_sys =
  ps_conn :: "'b conn option"
  to_upstream :: "byte list"
  to_client :: "byte list"
  from_client :: "byte list"
  from_upstream :: "byte list"

definition out_of :: "'b evbuffer_api \<Rightarrow> 'b bufferevent \<Rightarrow> byte list" where
  "out_of E b = contents E (bev_output b)"

definition in_of :: "'b evbuffer_api \<Rightarrow> 'b bufferevent \<Rightarrow> byte list" where
  "in_of E b = contents E (bev_input b)"

text \<open>
  Libevent has read \<open>bs\<close> into a bufferevent: only while reading is enabled, and not beyond the read
  high-water mark.
\<close>

definition receives :: "'b evbuffer_api \<Rightarrow> 'b bufferevent \<Rightarrow> byte list \<Rightarrow> 'b bufferevent \<Rightarrow> bool" where
  "receives E b bs b' \<longleftrightarrow> ev_read b \<and> (\<exists>i. b' = b\<lparr>bev_input := i\<rparr> \<and> contents E i = in_of E b @ bs) \<and>
     (0 < read_high_water b \<longrightarrow> length (in_of E b') \<le> read_high_water b)"

text \<open>Libevent has sent the first \<open>n\<close> bytes of the output.\<close>

definition sends :: "'b evbuffer_api \<Rightarrow> 'b bufferevent \<Rightarrow> nat \<Rightarrow> 'b bufferevent" where
  "sends E b n = b\<lparr>bev_output := evbuffer_drain E (bev_output b) n\<rparr>"

text \<open>
  The steps. Nothing is sent to, received from or ended by an upstream that is not connected, and it is
  connected once. A write callback is called when the output has become empty.
\<close>

inductive pipe_step :: "'b evbuffer_api \<Rightarrow> 'b pipe_sys \<Rightarrow> 'b pipe_sys \<Rightarrow> bool" for E where
  client_data: "ps_conn s = Some c \<Longrightarrow> receives E (client c) bs cl \<Longrightarrow>
    pipe_client_read_cb E (c\<lparr>client := cl\<rparr>) = Some c' \<Longrightarrow>
    pipe_step E s (s\<lparr>ps_conn := Some c', from_client := from_client s @ bs\<rparr>)"
| upstream_data: "ps_conn s = Some c \<Longrightarrow> upstream_connected c \<Longrightarrow> upstream_bev c = Some u \<Longrightarrow> receives E u bs u' \<Longrightarrow>
    pipe_step E s (s\<lparr>ps_conn := Some (pipe_upstream_read_cb E (c\<lparr>upstream_bev := Some u'\<rparr>)),
      from_upstream := from_upstream s @ bs\<rparr>)"
| client_sent: "ps_conn s = Some c \<Longrightarrow> n \<le> length (out_of E (client c)) \<Longrightarrow>
    pipe_step E s (s\<lparr>ps_conn := Some (c\<lparr>client := sends E (client c) n\<rparr>),
      to_client := to_client s @ take n (out_of E (client c))\<rparr>)"
| client_drained: "ps_conn s = Some c \<Longrightarrow> out_of E (client c) = [] \<Longrightarrow> pipe_client_write_cb E c = (c', es) \<Longrightarrow>
    pipe_step E s (s\<lparr>ps_conn := Some c'\<rparr>)"
| upstream_sent: "ps_conn s = Some c \<Longrightarrow> upstream_connected c \<Longrightarrow> upstream_bev c = Some u \<Longrightarrow> n \<le> length (out_of E u) \<Longrightarrow>
    pipe_step E s (s\<lparr>ps_conn := Some (c\<lparr>upstream_bev := Some (sends E u n)\<rparr>),
      to_upstream := to_upstream s @ take n (out_of E u)\<rparr>)"
| upstream_drained: "ps_conn s = Some c \<Longrightarrow> upstream_connected c \<Longrightarrow> upstream_bev c = Some u \<Longrightarrow> out_of E u = [] \<Longrightarrow>
    pipe_step E s (s\<lparr>ps_conn := Some (pipe_upstream_write_cb E c)\<rparr>)"
| client_event: "ps_conn s = Some c \<Longrightarrow> pipe_step E s (s\<lparr>ps_conn := fst (stream_client_event_cb ev c)\<rparr>)"
| upstream_event: "ps_conn s = Some c \<Longrightarrow> (BEV_EVENT_CONNECTED ev \<longrightarrow> \<not> upstream_connected c) \<Longrightarrow>
    (BEV_EVENT_EOF ev \<longrightarrow> upstream_connected c) \<Longrightarrow>
    pipe_step E s (s\<lparr>ps_conn := fst (stream_upstream_event_cb E timer ev c)\<rparr>)"
| idle_timer: "ps_conn s = Some c \<Longrightarrow> idle_ev c = Some (Some t) \<Longrightarrow>
    pipe_step E s (s\<lparr>ps_conn := fst (conn_idle_timeout_cb (c\<lparr>idle_ev := Some None\<rparr>))\<rparr>)"

text \<open>The header that the upstream is owed, and a connection just made by the worker.\<close>

definition owed_header :: "'f adopt_calls \<Rightarrow> worker_stream_client_msg \<Rightarrow> byte list" where
  "owed_header k ac = (if proxy_v2 (opts (sc_route ac)) then the (adopt_header k ac) else [])"

definition pipe_started ::
  "'b evbuffer_api \<Rightarrow> 'f file_api \<Rightarrow> 'f adopt_calls \<Rightarrow> 32 word \<Rightarrow> worker_stream_client_msg \<Rightarrow> 'b pipe_sys \<Rightarrow> bool" where
  "pipe_started E F k w ac s \<longleftrightarrow>
     ep_kind (upstream (sc_route ac)) \<notin> {ENDPOINT_BUILTIN, ENDPOINT_FILE} \<and>
     (\<exists>c es. worker_adopt_client_fd E F k w ac = Some (Adopt_conn c, es) \<and> ps_conn s = Some c) \<and>
     to_upstream s = [] \<and> to_client s = [] \<and> from_client s = [] \<and> from_upstream s = []"

section \<open>The invariant\<close>

definition closing :: "'b conn \<Rightarrow> bool" where
  "closing c \<longleftrightarrow> close_client_after_drain c \<or> close_after_client_eof c"

text \<open>Of the bytes: what was received is what was sent, then what is queued, in order.\<close>

definition bytes_inv :: "'b evbuffer_api \<Rightarrow> byte list \<Rightarrow> 'b pipe_sys \<Rightarrow> 'b conn \<Rightarrow> 'b bufferevent \<Rightarrow> bool" where
  "bytes_inv E hdr s c u \<longleftrightarrow>
     hdr @ from_client s = to_upstream s @ out_of E u @ in_of E (client c) \<and>
     from_upstream s = to_client s @ out_of E (client c) @ in_of E u"

text \<open>Of the flow control.\<close>

definition flow_inv :: "'b evbuffer_api \<Rightarrow> 'b conn \<Rightarrow> 'b bufferevent \<Rightarrow> bool" where
  "flow_inv E c u \<longleftrightarrow>
     read_high_water (client c) = STREAM_READ_HIGH_WATER \<and> read_high_water u = STREAM_READ_HIGH_WATER \<and>
     (ev_read u \<longrightarrow> length (out_of E (client c)) < STREAM_READ_HIGH_WATER) \<and>
     length (out_of E (client c)) < 2 * STREAM_READ_HIGH_WATER \<and>
     (\<not> closing c \<longrightarrow> ev_read (client c) \<longrightarrow> length (out_of E u) < STREAM_READ_HIGH_WATER) \<and>
     (\<not> closing c \<longrightarrow> length (out_of E u) < 2 * STREAM_READ_HIGH_WATER)"

text \<open>Before the upstream is connected nothing was exchanged, and the client is not read.\<close>

definition phase_inv :: "'b pipe_sys \<Rightarrow> 'b conn \<Rightarrow> bool" where
  "phase_inv s c \<longleftrightarrow> sniff_inv (sniff c) \<and>
     (\<not> upstream_connected c \<longrightarrow> \<not> closing c \<and> \<not> ev_read (client c) \<and> from_client s = [] \<and>
        from_upstream s = [] \<and> to_upstream s = [])"

definition prefix_inv :: "byte list \<Rightarrow> 'b pipe_sys \<Rightarrow> bool" where
  "prefix_inv hdr s \<longleftrightarrow> (\<exists>r. hdr @ from_client s = to_upstream s @ r) \<and> (\<exists>r. from_upstream s = to_client s @ r)"

definition pipe_inv :: "'b evbuffer_api \<Rightarrow> byte list \<Rightarrow> 'b pipe_sys \<Rightarrow> bool" where
  "pipe_inv E hdr s \<longleftrightarrow> length hdr < STREAM_READ_HIGH_WATER \<and> prefix_inv hdr s \<and>
     (case ps_conn s of
        None \<Rightarrow> True
      | Some c \<Rightarrow> (\<exists>u. upstream_bev c = Some u \<and> bytes_inv E hdr s c u \<and> flow_inv E c u \<and> phase_inv s c))"

lemma bytes_inv_prefix: "bytes_inv E hdr s c u \<Longrightarrow> prefix_inv hdr s"
  unfolding bytes_inv_def prefix_inv_def by blast

lemma pipe_invI:
  assumes "ps_conn s = Some c" "upstream_bev c = Some u" "bytes_inv E hdr s c u" "flow_inv E c u" "phase_inv s c"
    and "length hdr < STREAM_READ_HIGH_WATER"
  shows "pipe_inv E hdr s"
  using assms bytes_inv_prefix [OF assms(3)] by (simp add: pipe_inv_def)

lemma pipe_inv_freed: "pipe_inv E hdr s \<Longrightarrow> pipe_inv E hdr (s\<lparr>ps_conn := None\<rparr>)"
  by (simp add: pipe_inv_def prefix_inv_def)

text \<open>An operation that touches only the requests of a connection keeps the bytes.\<close>

definition same_buffers :: "'b conn \<Rightarrow> 'b conn \<Rightarrow> bool" where
  "same_buffers c c' \<longleftrightarrow> bev_input (client c') = bev_input (client c) \<and> bev_output (client c') = bev_output (client c) \<and>
     map_option bev_input (upstream_bev c') = map_option bev_input (upstream_bev c) \<and>
     map_option bev_output (upstream_bev c') = map_option bev_output (upstream_bev c)"

lemma same_buffers_bytes:
  assumes "same_buffers c c'" "upstream_bev c = Some u" "upstream_bev c' = Some u'" "bytes_inv E hdr s c u"
  shows "bytes_inv E hdr (s\<lparr>ps_conn := x\<rparr>) c' u'"
  using assms by (simp add: same_buffers_def bytes_inv_def in_of_def out_of_def)

section \<open>What each callback does\<close>

text \<open>The parts of a connection that the callbacks of the pipe leave alone.\<close>

definition same_control :: "'b conn \<Rightarrow> 'b conn \<Rightarrow> bool" where
  "same_control c c' \<longleftrightarrow> upstream_connected c' = upstream_connected c \<and>
     close_client_after_drain c' = close_client_after_drain c \<and> close_after_client_eof c' = close_after_client_eof c \<and>
     read_high_water (client c') = read_high_water (client c)"

lemma same_control_closing: "same_control c c' \<Longrightarrow> closing c' = closing c"
  by (simp add: same_control_def closing_def)

lemma add_buffer_cases:
  assumes "evbuffer_laws E"
  obtains d' s' where "evbuffer_add_buffer E d s = (d', s')"
    and "contents E d' @ contents E s' = contents E d @ contents E s"
    and "length (contents E d') \<le> length (contents E d) + length (contents E s)"
proof -
  obtain d' s' where ds: "evbuffer_add_buffer E d s = (d', s')" by (cases "evbuffer_add_buffer E d s")
  then have "contents E d' = contents E d @ contents E s \<and> contents E s' = [] \<or>
      contents E d' = contents E d \<and> contents E s' = contents E s"
    using assms unfolding evbuffer_laws_def by blast
  with ds show thesis by (intro that [of d' s']) auto
qed

lemma evbuffer_length: "evbuffer_laws E \<Longrightarrow> evbuffer_get_length E b = length (contents E b)"
  by (simp add: evbuffer_laws_def)

lemma pipe_client_read_cb_spec:
  assumes laws: "evbuffer_laws E" and u: "upstream_bev c = Some u" and sn: "sniff_inv (sniff c)"
  obtains c' u' where "pipe_client_read_cb E c = Some c'" and "upstream_bev c' = Some u'" and "same_control c c'"
    and "out_of E u' @ in_of E (client c') = out_of E u @ in_of E (client c)"
    and "length (out_of E u') \<le> length (out_of E u) + length (in_of E (client c))"
    and "out_of E (client c') = out_of E (client c)" and "in_of E u' = in_of E u"
    and "ev_read (client c') = (ev_read (client c) \<and> length (out_of E u') < STREAM_READ_HIGH_WATER)"
    and "ev_read u' = ev_read u" and "read_high_water u' = read_high_water u" and "sniff_inv (sniff c')"
proof -
  obtain sn where snp: "(if sni_sniff (opts (conn_route c))
      then stream_sniff_peek_client_input (evbuffer_copyout E (bev_input (client c))) (sniff c) (contents E (bev_input (client c)))
      else Some (sniff c)) = Some sn" and snv: "sniff_inv sn"
    using peek_inv [OF sn, of "evbuffer_copyout E (bev_input (client c))"] sn laws
    unfolding evbuffer_laws_def by (metis (full_types))
  obtain d' s' where mv: "evbuffer_add_buffer E (bev_output u) (bev_input (client c)) = (d', s')"
    "contents E d' @ contents E s' = out_of E u @ in_of E (client c)"
    "length (contents E d') \<le> length (out_of E u) + length (in_of E (client c))"
    using add_buffer_cases [OF laws] unfolding in_of_def out_of_def by metis
  show thesis
    using snp snv mv u
    by (intro that [of "the (pipe_client_read_cb E c)" "u\<lparr>bev_output := d'\<rparr>"])
      (simp_all add: pipe_client_read_cb_def conn_touch_def same_control_def in_of_def out_of_def
        evbuffer_length [OF laws] not_le Let_def)
qed

lemma pipe_upstream_read_cb_spec:
  assumes laws: "evbuffer_laws E" and u: "upstream_bev c = Some u"
  obtains c' u' where "pipe_upstream_read_cb E c = c'" and "upstream_bev c' = Some u'" and "same_control c c'"
    and "out_of E (client c') @ in_of E u' = out_of E (client c) @ in_of E u"
    and "length (out_of E (client c')) \<le> length (out_of E (client c)) + length (in_of E u)"
    and "in_of E (client c') = in_of E (client c)" and "out_of E u' = out_of E u"
    and "ev_read u' = (ev_read u \<and> length (out_of E (client c')) < STREAM_READ_HIGH_WATER)"
    and "ev_read (client c') = ev_read (client c)" and "read_high_water u' = read_high_water u" and "sniff c' = sniff c"
proof -
  obtain d' s' where mv: "evbuffer_add_buffer E (bev_output (client c)) (bev_input u) = (d', s')"
    "contents E d' @ contents E s' = out_of E (client c) @ in_of E u"
    "length (contents E d') \<le> length (out_of E (client c)) + length (in_of E u)"
    using add_buffer_cases [OF laws] unfolding in_of_def out_of_def by metis
  show thesis
    using mv u
    by (intro that [of "pipe_upstream_read_cb E c" "the (upstream_bev (pipe_upstream_read_cb E c))"])
      (simp_all add: pipe_upstream_read_cb_def conn_touch_def same_control_def in_of_def out_of_def
        evbuffer_length [OF laws] not_le Let_def)
qed

section \<open>Each step keeps the invariant\<close>

lemma high_water_pos [simp]: "0 < STREAM_READ_HIGH_WATER" "STREAM_WRITE_RESUME_WATER < STREAM_READ_HIGH_WATER"
  "STREAM_READ_HIGH_WATER \<noteq> 0"
  by (simp_all add: water_defs)

lemma receives_unfold:
  assumes "receives E b bs b'"
  obtains i where "b' = b\<lparr>bev_input := i\<rparr>" and "ev_read b" and "in_of E b' = in_of E b @ bs"
    and "out_of E b' = out_of E b" and "0 < read_high_water b \<Longrightarrow> length (in_of E b') \<le> read_high_water b"
  using assms by (auto simp: receives_def in_of_def out_of_def)

lemma client_data_inv:
  assumes laws: "evbuffer_laws E" and inv: "pipe_inv E hdr s" and s: "ps_conn s = Some c"
    and rc: "receives E (client c) bs cl" and cb: "pipe_client_read_cb E (c\<lparr>client := cl\<rparr>) = Some c'"
  shows "pipe_inv E hdr (s\<lparr>ps_conn := Some c', from_client := from_client s @ bs\<rparr>)"
proof -
  obtain u where u: "upstream_bev c = Some u" "bytes_inv E hdr s c u" "flow_inv E c u" "phase_inv s c"
    and hdr: "length hdr < STREAM_READ_HIGH_WATER"
    using inv s by (auto simp: pipe_inv_def)
  obtain i where i: "cl = (client c)\<lparr>bev_input := i\<rparr>" "ev_read (client c)" "in_of E cl = in_of E (client c) @ bs"
    "out_of E cl = out_of E (client c)" "length (in_of E cl) \<le> STREAM_READ_HIGH_WATER"
    using receives_unfold [OF rc] u(3) by (metis flow_inv_def high_water_pos(1))
  let ?c = "c\<lparr>client := cl\<rparr>"
  have "upstream_bev ?c = Some u" "sniff_inv (sniff ?c)" using u(1,4) by (simp_all add: phase_inv_def)
  then obtain c1 u' where cb1: "pipe_client_read_cb E ?c = Some c1" and sp1: "upstream_bev c1 = Some u'" "same_control ?c c1"
    "out_of E u' @ in_of E (client c1) = out_of E u @ in_of E (client ?c)"
    "length (out_of E u') \<le> length (out_of E u) + length (in_of E (client ?c))"
    "out_of E (client c1) = out_of E (client ?c)" "in_of E u' = in_of E u"
    "ev_read (client c1) = (ev_read (client ?c) \<and> length (out_of E u') < STREAM_READ_HIGH_WATER)"
    "ev_read u' = ev_read u" "read_high_water u' = read_high_water u" "sniff_inv (sniff c1)"
    by (rule pipe_client_read_cb_spec [OF laws])
  have "c1 = c'" using cb cb1 by simp
  note sp = sp1 [unfolded this]
  have conn: "upstream_connected c" using u(4) i(2) by (auto simp: phase_inv_def)
  have cl: "closing c' = closing c" using same_control_closing [OF sp(2)] by (simp add: closing_def)
  have "bytes_inv E hdr (s\<lparr>ps_conn := Some c', from_client := from_client s @ bs\<rparr>) c' u'"
  proof -
    have "out_of E u' @ in_of E (client c') = out_of E u @ in_of E (client c) @ bs" using sp(3) i(3) by simp
    moreover have "(hdr @ from_client s) @ bs = (to_upstream s @ out_of E u @ in_of E (client c)) @ bs"
      using u(2) by (simp add: bytes_inv_def)
    ultimately show ?thesis using u(2) sp(5,6) i(4) by (simp add: bytes_inv_def)
  qed
  moreover have "flow_inv E c' u'"
    using u(3) sp i cl by (auto simp: flow_inv_def same_control_def)
  moreover have "phase_inv (s\<lparr>ps_conn := Some c', from_client := from_client s @ bs\<rparr>) c'"
    using conn sp(2,10) by (simp add: phase_inv_def same_control_def)
  ultimately show ?thesis using sp(1) hdr by (intro pipe_invI) simp_all
qed

lemma upstream_data_inv:
  assumes laws: "evbuffer_laws E" and inv: "pipe_inv E hdr s" and s: "ps_conn s = Some c"
    and conn: "upstream_connected c" and u0: "upstream_bev c = Some u" and rc: "receives E u bs u1"
  shows "pipe_inv E hdr (s\<lparr>ps_conn := Some (pipe_upstream_read_cb E (c\<lparr>upstream_bev := Some u1\<rparr>)),
      from_upstream := from_upstream s @ bs\<rparr>)"
proof -
  have u: "bytes_inv E hdr s c u" "flow_inv E c u" "phase_inv s c" "length hdr < STREAM_READ_HIGH_WATER"
    using inv s u0 by (auto simp: pipe_inv_def)
  obtain i where i: "u1 = u\<lparr>bev_input := i\<rparr>" "ev_read u" "in_of E u1 = in_of E u @ bs"
    "out_of E u1 = out_of E u" "length (in_of E u1) \<le> STREAM_READ_HIGH_WATER"
    using receives_unfold [OF rc] u(2) by (metis flow_inv_def high_water_pos(1))
  let ?c = "c\<lparr>upstream_bev := Some u1\<rparr>"
  have "upstream_bev ?c = Some u1" by simp
  then obtain c' u' where
    sp: "pipe_upstream_read_cb E ?c = c'" "upstream_bev c' = Some u'" "same_control ?c c'"
    "out_of E (client c') @ in_of E u' = out_of E (client ?c) @ in_of E u1"
    "length (out_of E (client c')) \<le> length (out_of E (client ?c)) + length (in_of E u1)"
    "in_of E (client c') = in_of E (client ?c)" "out_of E u' = out_of E u1"
    "ev_read u' = (ev_read u1 \<and> length (out_of E (client c')) < STREAM_READ_HIGH_WATER)"
    "ev_read (client c') = ev_read (client ?c)" "read_high_water u' = read_high_water u1" "sniff c' = sniff ?c"
    by (rule pipe_upstream_read_cb_spec [OF laws])
  have cl: "closing c' = closing c" using same_control_closing [OF sp(3)] by (simp add: closing_def)
  have "bytes_inv E hdr (s\<lparr>ps_conn := Some c', from_upstream := from_upstream s @ bs\<rparr>) c' u'"
    using u(1) sp(4,6,7) i(3,4) by (simp add: bytes_inv_def)
  moreover have "flow_inv E c' u'"
    using u(2) sp i cl by (auto simp: flow_inv_def same_control_def)
  moreover have "phase_inv (s\<lparr>ps_conn := Some c', from_upstream := from_upstream s @ bs\<rparr>) c'"
    using conn u(3) sp(3,11) by (simp add: phase_inv_def same_control_def)
  ultimately show ?thesis using sp(1,2) u(4) by (intro pipe_invI) simp_all
qed

lemma drain_contents: "evbuffer_laws E \<Longrightarrow> contents E (evbuffer_drain E b n) = drop n (contents E b)"
  by (simp add: evbuffer_laws_def)

lemma sends_simps [simp]:
  "evbuffer_laws E \<Longrightarrow> out_of E (sends E b n) = drop n (out_of E b)"
  "in_of E (sends E b n) = in_of E b" "ev_read (sends E b n) = ev_read b"
  "read_high_water (sends E b n) = read_high_water b"
  by (simp_all add: sends_def out_of_def in_of_def drain_contents)

lemma client_sent_inv:
  assumes laws: "evbuffer_laws E" and inv: "pipe_inv E hdr s" and s: "ps_conn s = Some c"
  shows "pipe_inv E hdr (s\<lparr>ps_conn := Some (c\<lparr>client := sends E (client c) n\<rparr>),
      to_client := to_client s @ take n (out_of E (client c))\<rparr>)"
proof -
  obtain u where u: "upstream_bev c = Some u" "bytes_inv E hdr s c u" "flow_inv E c u" "phase_inv s c"
    "length hdr < STREAM_READ_HIGH_WATER"
    using inv s by (auto simp: pipe_inv_def)
  then show ?thesis
    by (intro pipe_invI [where u = u and c = "c\<lparr>client := sends E (client c) n\<rparr>"])
      (auto simp: bytes_inv_def flow_inv_def phase_inv_def closing_def laws)
qed

lemma upstream_sent_inv:
  assumes laws: "evbuffer_laws E" and inv: "pipe_inv E hdr s" and s: "ps_conn s = Some c"
    and "upstream_connected c" and "upstream_bev c = Some u"
  shows "pipe_inv E hdr (s\<lparr>ps_conn := Some (c\<lparr>upstream_bev := Some (sends E u n)\<rparr>),
      to_upstream := to_upstream s @ take n (out_of E u)\<rparr>)"
proof -
  have "bytes_inv E hdr s c u" "flow_inv E c u" "phase_inv s c" "length hdr < STREAM_READ_HIGH_WATER"
    using inv s assms(5) by (auto simp: pipe_inv_def)
  then show ?thesis
    using assms(4) by (intro pipe_invI [where u = "sends E u n" and c = "c\<lparr>upstream_bev := Some (sends E u n)\<rparr>"])
      (auto simp: bytes_inv_def flow_inv_def phase_inv_def closing_def laws)
qed

text \<open>A callback that leaves the buffers alone.\<close>

lemma control_inv:
  assumes inv: "pipe_inv E hdr s" and s: "ps_conn s = Some c" and u: "upstream_bev c = Some u"
    and same: "same_buffers c c'" and u': "upstream_bev c' = Some u'"
    and rest: "flow_inv E c u \<Longrightarrow> bytes_inv E hdr s c u \<Longrightarrow> phase_inv s c \<Longrightarrow>
      length hdr < STREAM_READ_HIGH_WATER \<Longrightarrow> flow_inv E c' u' \<and> phase_inv s c'"
  shows "pipe_inv E hdr (s\<lparr>ps_conn := Some c'\<rparr>)"
proof -
  have old: "bytes_inv E hdr s c u" "flow_inv E c u" "phase_inv s c" "length hdr < STREAM_READ_HIGH_WATER"
    using inv s u by (auto simp: pipe_inv_def)
  have "bytes_inv E hdr (s\<lparr>ps_conn := Some c'\<rparr>) c' u'" by (rule same_buffers_bytes [OF same u u' old(1)])
  then show ?thesis
    using rest [OF old(2,1,3,4)] u' old(4) by (intro pipe_invI) (auto simp: phase_inv_def)
qed

lemma same_buffers_out: "same_buffers c c' \<Longrightarrow> upstream_bev c = Some u \<Longrightarrow> upstream_bev c' = Some u' \<Longrightarrow>
    out_of E (client c') = out_of E (client c) \<and> out_of E u' = out_of E u"
  by (simp add: same_buffers_def out_of_def)

lemma client_drained_inv:
  assumes laws: "evbuffer_laws E" and inv: "pipe_inv E hdr s" and s: "ps_conn s = Some c"
    and out: "out_of E (client c) = []" and cb: "pipe_client_write_cb E c = (c', es)"
  shows "pipe_inv E hdr (s\<lparr>ps_conn := Some c'\<rparr>)"
proof -
  obtain u where u: "upstream_bev c = Some u" using inv s by (auto simp: pipe_inv_def)
  have len: "evbuffer_get_length E (bev_output (client c)) = 0"
    using out by (simp add: evbuffer_length [OF laws] out_of_def)
  show ?thesis
  proof (cases "close_client_after_drain c")
    case True
    then have c': "c' = (fst (finish_client_write c))\<lparr>close_client_after_drain := False, close_after_client_eof := True\<rparr>"
      using cb len by (simp add: pipe_client_write_cb_def Let_def case_prod_beta)
    show ?thesis
      using c' u True
      by (intro control_inv [OF inv s u, of _ u])
        (auto simp: finish_client_write_def set_timeouts_def same_buffers_def flow_inv_def phase_inv_def closing_def out_of_def)
  next
    case False
    then have c': "c' = c\<lparr>upstream_bev := map_option (\<lambda>u. u\<lparr>ev_read := True\<rparr>) (upstream_bev c)\<rparr>"
      using cb len by (simp add: pipe_client_write_cb_def Let_def water_defs split: if_splits)
    show ?thesis
      using c' u out
      by (intro control_inv [OF inv s u, of _ "u\<lparr>ev_read := True\<rparr>"])
        (auto simp: same_buffers_def flow_inv_def phase_inv_def closing_def out_of_def)
  qed
qed

lemma upstream_drained_inv:
  assumes laws: "evbuffer_laws E" and inv: "pipe_inv E hdr s" and s: "ps_conn s = Some c"
    and "upstream_connected c" and u: "upstream_bev c = Some u" and out: "out_of E u = []"
  shows "pipe_inv E hdr (s\<lparr>ps_conn := Some (pipe_upstream_write_cb E c)\<rparr>)"
proof -
  have "pipe_upstream_write_cb E c = c\<lparr>client := (client c)\<lparr>ev_read := True\<rparr>\<rparr>"
    using u out by (simp add: pipe_upstream_write_cb_def evbuffer_length [OF laws] out_of_def water_defs)
  then show ?thesis
    using assms(4) u out
    by (intro control_inv [OF inv s u, of _ u])
      (auto simp: same_buffers_def flow_inv_def phase_inv_def closing_def out_of_def)
qed

lemma drain_client_then_close_fields:
  assumes "drain_client_then_close E c = (c', es)" and "upstream_bev c = Some u"
  shows "same_buffers c c' \<and> closing c' \<and> upstream_connected c' = upstream_connected c \<and> sniff c' = sniff c \<and>
    read_high_water (client c') = read_high_water (client c) \<and>
    (\<exists>u'. upstream_bev c' = Some u' \<and> \<not> ev_read u' \<and> read_high_water u' = read_high_water u)"
  using assms
  by (auto simp: drain_client_then_close_def Let_def finish_client_write_def set_timeouts_def same_buffers_def
    closing_def split: if_splits)

lemma drain_inv:
  assumes inv: "pipe_inv E hdr s" and s: "ps_conn s = Some c" and conn: "upstream_connected c"
    and d: "drain_client_then_close E c = (c', es)"
  shows "pipe_inv E hdr (s\<lparr>ps_conn := Some c'\<rparr>)"
proof -
  obtain u where u: "upstream_bev c = Some u" using inv s by (auto simp: pipe_inv_def)
  obtain u' where f: "same_buffers c c'" "closing c'" "upstream_connected c' = upstream_connected c" "sniff c' = sniff c"
    "read_high_water (client c') = read_high_water (client c)" "upstream_bev c' = Some u'" "\<not> ev_read u'"
    "read_high_water u' = read_high_water u"
    using drain_client_then_close_fields [OF d u] by blast
  show ?thesis
    using f conn same_buffers_out [OF f(1) u f(6), of E]
    by (intro control_inv [OF inv s u f(1,6)]) (auto simp: flow_inv_def phase_inv_def)
qed

lemma connected_inv:
  assumes inv: "pipe_inv E hdr s" and s: "ps_conn s = Some c" and nc: "\<not> upstream_connected c"
    and c1: "c1 = start_conn_idle_timer timer (clear_idle_timeout (c\<lparr>upstream_connected := True\<rparr>))"
  shows "pipe_inv E hdr (s\<lparr>ps_conn := Some (c1\<lparr>client := (client c1)\<lparr>ev_read := True, ev_write := True\<rparr>\<rparr>)\<rparr>)"
proof -
  obtain u where u: "upstream_bev c = Some u" using inv s by (auto simp: pipe_inv_def)
  have f: "client c1 = set_timeouts None None (client c)" "upstream_bev c1 = Some (set_timeouts None None u)"
    "upstream_connected c1" "sniff c1 = sniff c" "closing c1 = closing c"
    using u by (simp_all add: c1 start_conn_idle_timer_def clear_idle_timeout_def schedule_conn_idle_timer_def
      Let_def closing_def)
  show ?thesis
  proof (rule control_inv [OF inv s u, of _ "set_timeouts None None u"])
    assume old: "flow_inv E c u" "bytes_inv E hdr s c u" "phase_inv s c" "length hdr < STREAM_READ_HIGH_WATER"
    have "length (out_of E u) \<le> length (hdr @ from_client s)" using old(2) by (simp add: bytes_inv_def)
    also have "\<dots> = length hdr" using old(3) nc by (simp add: phase_inv_def)
    finally have "length (out_of E u) < STREAM_READ_HIGH_WATER" using old(4) by simp
    then show "flow_inv E (c1\<lparr>client := (client c1)\<lparr>ev_read := True, ev_write := True\<rparr>\<rparr>) (set_timeouts None None u) \<and>
        phase_inv s (c1\<lparr>client := (client c1)\<lparr>ev_read := True, ev_write := True\<rparr>\<rparr>)"
      using old(1,3) f by (auto simp: flow_inv_def phase_inv_def closing_def out_of_def set_timeouts_def)
  qed (use f u in \<open>simp_all add: same_buffers_def set_timeouts_def\<close>)
qed

lemma upstream_event_inv:
  assumes laws: "evbuffer_laws E" and inv: "pipe_inv E hdr s" and s: "ps_conn s = Some c"
    and ev: "BEV_EVENT_CONNECTED ev \<longrightarrow> \<not> upstream_connected c" "BEV_EVENT_EOF ev \<longrightarrow> upstream_connected c"
  shows "pipe_inv E hdr (s\<lparr>ps_conn := fst (stream_upstream_event_cb E timer ev c)\<rparr>)"
proof -
  obtain u where u: "upstream_bev c = Some u" "bytes_inv E hdr s c u" "phase_inv s c"
    using inv s by (auto simp: pipe_inv_def)
  have pend: "upstream_connected c" if "client_has_pending_output E c"
    using that u(2,3) by (auto simp: client_has_pending_output_def bev_output_len_def evbuffer_length [OF laws]
      bytes_inv_def phase_inv_def out_of_def)
  have free: "pipe_inv E hdr (s\<lparr>ps_conn := fst (free_conn c)\<rparr>)"
    using pipe_inv_freed [OF inv] by (simp add: free_conn_def)
  have drain: "pipe_inv E hdr (s\<lparr>ps_conn := Some (fst (drain_client_then_close E c))\<rparr>)" if "upstream_connected c"
    by (rule drain_inv [OF inv s that, of _ "snd (drain_client_then_close E c)"]) simp
  show ?thesis
    using free drain pend ev connected_inv [OF inv s _ refl]
    by (auto simp: stream_upstream_event_cb_def Let_def case_prod_beta)
qed

lemma idle_timer_inv:
  assumes inv: "pipe_inv E hdr s" and s: "ps_conn s = Some c"
  shows "pipe_inv E hdr (s\<lparr>ps_conn := fst (conn_idle_timeout_cb (c\<lparr>idle_ev := Some None\<rparr>))\<rparr>)"
proof -
  obtain u where u: "upstream_bev c = Some u" using inv s by (auto simp: pipe_inv_def)
  have "pipe_inv E hdr (s\<lparr>ps_conn := Some (schedule_conn_idle_timer (c\<lparr>idle_ev := Some None, idle_check_seq := q\<rparr>))\<rparr>)" for q
    using u by (intro control_inv [OF inv s u, of _ u])
      (auto simp: schedule_conn_idle_timer_def same_buffers_def flow_inv_def phase_inv_def closing_def)
  with pipe_inv_freed [OF inv] show ?thesis by (simp add: conn_idle_timeout_cb_def free_conn_def)
qed

lemma pipe_inv_step:
  assumes laws: "evbuffer_laws E" and inv: "pipe_inv E hdr s" and step: "pipe_step E s t"
  shows "pipe_inv E hdr t"
  using step
proof cases
  case client_data
  then show ?thesis using client_data_inv [OF laws inv] by simp
next
  case upstream_data
  then show ?thesis using upstream_data_inv [OF laws inv] by simp
next
  case client_sent
  then show ?thesis using client_sent_inv [OF laws inv] by simp
next
  case client_drained
  then show ?thesis using client_drained_inv [OF laws inv] by simp
next
  case upstream_sent
  then show ?thesis using upstream_sent_inv [OF laws inv] by simp
next
  case upstream_drained
  then show ?thesis using upstream_drained_inv [OF laws inv] by simp
next
  case (client_event c ev)
  then have "s\<lparr>ps_conn := Some c\<rparr> = s" by simp
  then have "pipe_inv E hdr (s\<lparr>ps_conn := Some c\<rparr>)" using inv by simp
  then show ?thesis
    using client_event pipe_inv_freed [OF inv] by (auto simp: stream_client_event_cb_def free_conn_def)
next
  case upstream_event
  then show ?thesis using upstream_event_inv [OF laws inv] by simp
next
  case idle_timer
  then show ?thesis using idle_timer_inv [OF inv] by simp
qed

section \<open>The start\<close>

definition adopted_fresh :: "'b evbuffer_api \<Rightarrow> byte list \<Rightarrow> 'b conn \<Rightarrow> 'b bufferevent \<Rightarrow> bool" where
  "adopted_fresh E hdr c u \<longleftrightarrow> upstream_bev c = Some u \<and>
     in_of E (client c) = [] \<and> out_of E (client c) = [] \<and> in_of E u = [] \<and> out_of E u = hdr \<and>
     \<not> ev_read (client c) \<and> read_high_water (client c) = STREAM_READ_HIGH_WATER \<and>
     read_high_water u = STREAM_READ_HIGH_WATER \<and> \<not> upstream_connected c \<and> \<not> closing c \<and> sniff_inv (sniff c)"

lemma adopt_header_bounded: "adopt_header k ac = Some hdr \<Longrightarrow> length hdr \<le> 28"
  by (auto simp: adopt_header_def proxy_v2_build_def Let_def PROXY_V2_SIG_def put_u16_def sin_addr_def sin_port_def
    split: option.splits if_splits sum.splits)

lemma adopt_setup_fresh:
  assumes "evbuffer_laws E" and "c0 = conn_new w r peer len (bufferevent_socket_new E fd)"
  shows "\<exists>u. adopted_fresh E [] (adopt_setup E c0) u"
  using assms sniff_inv_zero
  by (simp add: evbuffer_laws_def adopt_setup_def adopted_fresh_def conn_new_def bufferevent_socket_new_def
    conn_update_defs in_of_def out_of_def closing_def Let_def)

lemma adopt_connect_fresh:
  assumes laws: "evbuffer_laws E" and c0: "c0 = conn_new w r peer len (bufferevent_socket_new E fd)"
    and run: "adopt_connect E k ac c0 = (Some c, es)"
  shows "\<exists>u. adopted_fresh E (owed_header k ac) c u \<and> length (owed_header k ac) \<le> 28"
proof -
  obtain u0 where f: "adopted_fresh E [] (adopt_setup E c0) u0" using adopt_setup_fresh [OF laws c0] by blast
  let ?u = "u0\<lparr>bev_fd := ac_connect_fd k\<rparr>"
  let ?c1 = "(adopt_setup E c0)\<lparr>upstream_bev := Some ?u\<rparr>"
  have run1: "fst (adopt_proxy_v2 E k ac ?c1) = Some c"
    using run f by (auto simp: adopt_connect_def Let_def case_prod_beta adopted_fresh_def split: sum.splits)
  show ?thesis
  proof (cases "proxy_v2 (opts (sc_route ac))")
    case False
    then show ?thesis
      using run1 f by (auto simp: adopt_proxy_v2_def owed_header_def enable_upstream_def adopted_fresh_def in_of_def
        out_of_def closing_def)
  next
    case True
    then obtain hdr where hdr: "adopt_header k ac = Some hdr"
      using run1 by (auto simp: adopt_proxy_v2_def free_conn_def split: option.splits)
    obtain ok out where add: "evbuffer_add E (bev_output u0) hdr = (ok, out)" by (cases "evbuffer_add E (bev_output u0) hdr")
    have ok: "ok" "c = enable_upstream (?c1\<lparr>upstream_bev := Some (?u\<lparr>bev_output := out\<rparr>)\<rparr>)"
      using run1 True hdr add
      by (auto simp: adopt_proxy_v2_def bufferevent_write_def Let_def free_conn_def split: if_splits)
    have "contents E out = hdr"
      using laws add ok(1) f unfolding evbuffer_laws_def adopted_fresh_def out_of_def by (metis append_Nil)
    with ok(2) f True hdr adopt_header_bounded [OF hdr] show ?thesis
      by (auto simp: owed_header_def enable_upstream_def adopted_fresh_def in_of_def out_of_def closing_def)
  qed
qed

lemma pipe_started_fresh:
  assumes laws: "evbuffer_laws E" and "pipe_started E F k w ac s"
  obtains c u where "ps_conn s = Some c" and "adopted_fresh E (owed_header k ac) c u"
    and "length (owed_header k ac) \<le> 28"
proof -
  let ?c0 = "conn_new w (sc_route ac) (sc_peer_addr ac) (sc_peer_addr_len ac) (bufferevent_socket_new E (sc_fd ac))"
  obtain c es where c: "ps_conn s = Some c" "worker_adopt_client_fd E F k w ac = Some (Adopt_conn c, es)"
    using assms(2) by (auto simp: pipe_started_def)
  have "ep_kind (upstream (sc_route ac)) \<noteq> ENDPOINT_BUILTIN" "ep_kind (upstream (sc_route ac)) \<noteq> ENDPOINT_FILE"
    using assms(2) by (auto simp: pipe_started_def)
  with c(2) have "adopted_conn (fst (adopt_connect E k ac ?c0)) = (Adopt_conn c :: ('a, 'b) adopted)"
    by (auto simp: worker_adopt_client_fd_def Let_def case_prod_beta split: if_splits)
  then have "fst (adopt_connect E k ac ?c0) = Some c" by (cases "fst (adopt_connect E k ac ?c0)") auto
  then have "adopt_connect E k ac ?c0 = (Some c, snd (adopt_connect E k ac ?c0))" by (metis prod.collapse)
  from adopt_connect_fresh [OF laws refl this] c(1) show thesis using that by blast
qed

lemma pipe_inv_started:
  assumes laws: "evbuffer_laws E" and st: "pipe_started E F k w ac s"
  shows "pipe_inv E (owed_header k ac) s"
proof -
  obtain c u where f: "ps_conn s = Some c" "adopted_fresh E (owed_header k ac) c u" "length (owed_header k ac) \<le> 28"
    by (rule pipe_started_fresh [OF assms])
  have empty: "to_upstream s = []" "to_client s = []" "from_client s = []" "from_upstream s = []"
    using st by (auto simp: pipe_started_def)
  have small: "length (owed_header k ac) < STREAM_READ_HIGH_WATER" using f(3) by (simp add: water_defs)
  show ?thesis
    using f(2) empty small
    by (intro pipe_invI [OF f(1), of u])
      (auto simp: adopted_fresh_def bytes_inv_def flow_inv_def phase_inv_def)
qed

interpretation pipe_delivery: inductive_invariant
  "\<lambda>s. evbuffer_laws E \<and> pipe_started E F k w ac s" "pipe_step E"
  "\<lambda>s. evbuffer_laws E \<and> pipe_inv E (owed_header k ac) s"
  by unfold_locales (auto intro: pipe_inv_started pipe_inv_step)

lemma pipe_reach_inv:
  assumes laws: "evbuffer_laws E" and "reach (pipe_started E F k w ac) (pipe_step E) s"
  shows "pipe_inv E (owed_header k ac) s"
proof -
  have "reach (\<lambda>s. evbuffer_laws E \<and> pipe_started E F k w ac s) (pipe_step E) s"
    using reach_mono [OF assms(2)] laws by simp
  then show ?thesis using pipe_delivery.inv_reach by blast
qed

section \<open>A run\<close>

text \<open>The example client sends two bytes once its upstream is connected.\<close>

definition connected_event :: bev_events where
  "connected_event = \<lparr>BEV_EVENT_CONNECTED = True, BEV_EVENT_TIMEOUT = False, BEV_EVENT_ERROR = False, BEV_EVENT_EOF = False\<rparr>"

abbreviation example_pipe :: "byte list pipe_sys \<Rightarrow> bool" where
  "example_pipe \<equiv> reach (pipe_started list_evbuffer list_file example_adopt_calls 1 example_client) (pipe_step list_evbuffer)"

lemma example_pipe_connected:
  "\<exists>s c. example_pipe s \<and> ps_conn s = Some c \<and> upstream_connected c \<and> ev_read (client c) \<and>
     in_of list_evbuffer (client c) = [] \<and> read_high_water (client c) = STREAM_READ_HIGH_WATER \<and>
     from_client s = [] \<and> (\<exists>u. upstream_bev c = Some u) \<and> sniff_inv (sniff c)"
proof -
  obtain c where "worker_adopt_client_fd list_evbuffer list_file example_adopt_calls 1 example_client =
     Some (Adopt_conn c, [Set_keepalive 9 False, Socket_connect (mk_sin 80 [10, 0, 0, 2]) SIZEOF_SIN])"
    using example_adopted by blast
  then have st: "pipe_started list_evbuffer list_file example_adopt_calls 1 example_client
      \<lparr>ps_conn = Some c, to_upstream = [], to_client = [], from_client = [], from_upstream = []\<rparr>" (is "pipe_started _ _ _ _ _ ?s")
    by (simp add: pipe_started_def)
  obtain u where f: "adopted_fresh list_evbuffer (owed_header example_adopt_calls example_client) c u"
    using pipe_started_fresh [OF list_evbuffer_laws st] by auto
  let ?t = "?s\<lparr>ps_conn := fst (stream_upstream_event_cb list_evbuffer True connected_event c)\<rparr>"
  have "pipe_step list_evbuffer ?s ?t"
    using f by (intro pipe_step.upstream_event) (simp_all add: connected_event_def adopted_fresh_def)
  then have "example_pipe ?t" using st by (blast intro: reach.intros)
  moreover have "\<exists>c'. ps_conn ?t = Some c' \<and> upstream_connected c' \<and> ev_read (client c') \<and>
      in_of list_evbuffer (client c') = [] \<and> read_high_water (client c') = STREAM_READ_HIGH_WATER \<and>
      (\<exists>u. upstream_bev c' = Some u) \<and> sniff_inv (sniff c')"
    using f by (simp add: stream_upstream_event_cb_def connected_event_def start_conn_idle_timer_def Let_def
      clear_idle_timeout_def schedule_conn_idle_timer_def set_timeouts_def adopted_fresh_def in_of_def)
  moreover have "from_client ?t = []" by simp
  ultimately show ?thesis by blast
qed

lemma example_pipe_run:
  "\<exists>s c. example_pipe s \<and> ps_conn s = Some c \<and> from_client s = [71, 69]"
proof -
  obtain s c u where s: "example_pipe s" "ps_conn s = Some c" "ev_read (client c)" "in_of list_evbuffer (client c) = []"
    "read_high_water (client c) = STREAM_READ_HIGH_WATER" "from_client s = []" "upstream_bev c = Some u" "sniff_inv (sniff c)"
    using example_pipe_connected by blast
  let ?cl = "(client c)\<lparr>bev_input := [71, 69]\<rparr>"
  have rc: "receives list_evbuffer (client c) [71, 69] ?cl"
    using s by (simp add: receives_def in_of_def list_evbuffer_def water_defs)
  have "upstream_bev (c\<lparr>client := ?cl\<rparr>) = Some u" "sniff_inv (sniff (c\<lparr>client := ?cl\<rparr>))" using s by simp_all
  then obtain c' where "pipe_client_read_cb list_evbuffer (c\<lparr>client := ?cl\<rparr>) = Some c'"
    by (rule pipe_client_read_cb_spec [OF list_evbuffer_laws])
  from pipe_step.client_data [OF s(2) rc this]
  have "example_pipe (s\<lparr>ps_conn := Some c', from_client := from_client s @ [71, 69]\<rparr>)"
    using s(1) by (rule reach_step [rotated])
  with s(6) show ?thesis by (intro exI [of _ "s\<lparr>ps_conn := Some c', from_client := [71, 69]\<rparr>"]) simp
qed

section \<open>The properties\<close>

text \<open>
  C2. The proxy is a faithful pipe. At every moment, whatever the order of events, the bytes sent to
  the upstream are an initial part of the PROXY v2 header (if the route asks for one) followed by what
  the client sent, and the bytes sent to the client are an initial part of what the upstream sent; and
  while the connection lives, what is missing is exactly what is queued, in order. So no byte is lost,
  repeated, reordered or invented, and the header precedes all client data.
\<close>

theorem stream_integrity:
  assumes "evbuffer_laws E" and "reach (pipe_started E F k w ac) (pipe_step E) s"
  shows "(\<exists>more. owed_header k ac @ from_client s = to_upstream s @ more) \<and>
    (\<exists>more. from_upstream s = to_client s @ more) \<and>
    (case ps_conn s of None \<Rightarrow> True | Some c \<Rightarrow>
       (\<exists>u. upstream_bev c = Some u \<and>
          owed_header k ac @ from_client s = to_upstream s @ out_of E u @ in_of E (client c) \<and>
          from_upstream s = to_client s @ out_of E (client c) @ in_of E u))"
  using pipe_reach_inv [OF assms]
  by (auto simp: pipe_inv_def prefix_inv_def bytes_inv_def split: option.splits)

theorem stream_integrity_witness:
  "\<exists>s c u. example_pipe s \<and> ps_conn s = Some c \<and>
     owed_header example_adopt_calls example_client @ [71, 69] =
       to_upstream s @ out_of list_evbuffer u @ in_of list_evbuffer (client c)"
proof -
  obtain s c where s: "example_pipe s" "ps_conn s = Some c" "from_client s = [71, 69]" using example_pipe_run by blast
  from stream_integrity [OF list_evbuffer_laws s(1)] s show ?thesis by auto
qed

text \<open>
  C14. Back-pressure bounds the memory of a connection. Always, fewer than twice the read high-water mark
  (512 KiB) are queued for the client, and the upstream is read only while less than the mark is queued for the
  client. As long as the connection is not closing, that is until the upstream has ended, the same holds the other way
  round: fewer than twice the mark are queued for the upstream, and the client is read only while less than
  the mark is. (Once it is closing the client is read again, whatever is queued for the upstream, to see its end.)
  And the client is not read before the upstream is connected.
\<close>

theorem stream_bounded:
  assumes "evbuffer_laws E" and "reach (pipe_started E F k w ac) (pipe_step E) s" and "ps_conn s = Some c"
  shows "\<exists>u. upstream_bev c = Some u \<and>
    length (out_of E (client c)) < 2 * STREAM_READ_HIGH_WATER \<and>
    (ev_read u \<longrightarrow> length (out_of E (client c)) < STREAM_READ_HIGH_WATER) \<and>
    (\<not> closing c \<longrightarrow> length (out_of E u) < 2 * STREAM_READ_HIGH_WATER \<and>
       (ev_read (client c) \<longrightarrow> length (out_of E u) < STREAM_READ_HIGH_WATER)) \<and>
    (\<not> upstream_connected c \<longrightarrow> \<not> ev_read (client c) \<and> from_client s = [])"
  using pipe_reach_inv [OF assms(1,2)] assms(3)
  by (auto simp: pipe_inv_def flow_inv_def phase_inv_def)

theorem stream_bounded_witness:
  "\<exists>s c u. example_pipe s \<and> from_client s = [71, 69] \<and> ps_conn s = Some c \<and> upstream_bev c = Some u \<and>
     length (out_of list_evbuffer (client c)) < 2 * STREAM_READ_HIGH_WATER"
proof -
  obtain s c where s: "example_pipe s" "ps_conn s = Some c" "from_client s = [71, 69]" using example_pipe_run by blast
  from stream_bounded [OF list_evbuffer_laws s(1,2)] s show ?thesis by auto
qed

text \<open>
  C40. Whatever bytes arrive from a client of a running connection, the read callback returns (the SNI observer never reads
  outside its copy of the input and stays consistent) and forwards them: they are now queued for the upstream, unaltered and behind
  all that was queued before, and nothing is left unread; unless libevent could not move the buffer, in which case all
  of it is still in the input, in order. Afterwards the client is read on exactly while less than the mark is queued.
\<close>

theorem stream_read_safe:
  assumes "evbuffer_laws E" and "reach (pipe_started E F k w ac) (pipe_step E) s" and "ps_conn s = Some c"
    and "receives E (client c) bs cl"
  shows "\<exists>c' u u'. pipe_client_read_cb E (c\<lparr>client := cl\<rparr>) = Some c' \<and> sniff_inv (sniff c') \<and>
    upstream_bev c = Some u \<and> upstream_bev c' = Some u' \<and>
    (if contents E (snd (evbuffer_add_buffer E (bev_output u) (bev_input cl))) = []
     then out_of E u' = out_of E u @ in_of E (client c) @ bs \<and> in_of E (client c') = []
     else out_of E u' = out_of E u \<and> in_of E (client c') = in_of E (client c) @ bs) \<and>
    (ev_read (client c') \<longleftrightarrow> length (out_of E u') < STREAM_READ_HIGH_WATER)"
proof -
  obtain u where u: "upstream_bev c = Some u" "phase_inv s c"
    using pipe_reach_inv [OF assms(1,2)] assms(3) by (auto simp: pipe_inv_def)
  have rd: "in_of E cl = in_of E (client c) @ bs" "ev_read cl" using assms(4) by (auto simp: receives_def in_of_def)
  let ?c = "c\<lparr>client := cl\<rparr>"
  have "upstream_bev ?c = Some u" "sniff_inv (sniff ?c)" using u by (simp_all add: phase_inv_def)
  then obtain c' u' where c': "pipe_client_read_cb E ?c = Some c'" "upstream_bev c' = Some u'" "sniff_inv (sniff c')"
    "ev_read (client c') = (ev_read (client ?c) \<and> length (out_of E u') < STREAM_READ_HIGH_WATER)"
    by (rule pipe_client_read_cb_spec [OF assms(1)])
  obtain d i where mv: "evbuffer_add_buffer E (bev_output u) (bev_input cl) = (d, i)" by fastforce
  then have "contents E d = out_of E u @ in_of E cl \<and> contents E i = [] \<or> contents E d = out_of E u \<and> contents E i = in_of E cl"
    using assms(1) unfolding evbuffer_laws_def in_of_def out_of_def by blast
  moreover have "out_of E u' = contents E d \<and> in_of E (client c') = contents E i"
    using c'(1,2) mv u(1) by (auto simp: pipe_client_read_cb_def conn_touch_def out_of_def in_of_def Option.bind_eq_Some_conv Let_def
      split: if_splits)
  ultimately show ?thesis using c' u(1) rd mv by (intro exI [of _ c'] exI [of _ u] exI [of _ u']) auto
qed

theorem stream_read_safe_witness:
  "\<exists>s c cl c'. example_pipe s \<and> ps_conn s = Some c \<and> receives list_evbuffer (client c) [22, 3, 1] cl \<and>
     pipe_client_read_cb list_evbuffer (c\<lparr>client := cl\<rparr>) = Some c' \<and> in_of list_evbuffer (client c') = []"
proof -
  obtain s c where s: "example_pipe s" "ps_conn s = Some c" "ev_read (client c)" "in_of list_evbuffer (client c) = []"
    "read_high_water (client c) = STREAM_READ_HIGH_WATER"
    using example_pipe_connected by blast
  have rc: "receives list_evbuffer (client c) [22, 3, 1] ((client c)\<lparr>bev_input := [22, 3, 1]\<rparr>)"
    using s by (simp add: receives_def in_of_def list_evbuffer_def water_defs)
  from stream_read_safe [OF list_evbuffer_laws s(1,2) rc]
  obtain c' where "pipe_client_read_cb list_evbuffer (c\<lparr>client := (client c)\<lparr>bev_input := [22, 3, 1]\<rparr>\<rparr>) = Some c'"
    "in_of list_evbuffer (client c') = []"
    by (auto simp: list_evbuffer_def)
  with s(1,2) rc show ?thesis by blast
qed

end
