(* ===== verification/Proxy_Sockets.thy ===== *)
theory Proxy_Sockets
  imports Proxy_System Stream_System
begin

text \<open>
  The sockets of the whole proxy: \<open>Proxy_System\<close> with the stream code (\<^verbatim>\<open>src/stream_conn.c\<close>, \<^verbatim>\<open>src/stream_pipe.c\<close>,
  \<^verbatim>\<open>src/stream_file.c\<close>, \<^verbatim>\<open>src/stream_builtin.c\<close>) as the handler of clients and as the callbacks of the workers' event
  loops. What is shown is a conservation law: the sockets that were accepted and connected are those that were
  closed and those that are held, by the queue of a worker or by a connection.
\<close>

section \<open>The sockets of a connection\<close>

definition valid_fds :: "int list \<Rightarrow> int list" where
  "valid_fds fds = filter socket_is_valid fds"

definition conn_sockets :: "'b conn \<Rightarrow> int list" where
  "conn_sockets c = valid_fds (bev_fd (client c) # (case upstream_bev c of None \<Rightarrow> [] | Some u \<Rightarrow> [bev_fd u]))"

fun held_fds :: "('b, 'f) adopted \<Rightarrow> int list" where
  "held_fds Adopt_none = []"
| "held_fds (Adopt_conn c) = conn_sockets c"
| "held_fds (Adopt_file fc) = conn_sockets (fc_conn fc)"

definition closed_fds :: "conn_event list \<Rightarrow> int list" where
  "closed_fds es = valid_fds (concat (map closed_by es))"

lemma valid_fds_simps [simp]:
  "valid_fds [] = []" "valid_fds (xs @ ys) = valid_fds xs @ valid_fds ys"
  "valid_fds (x # xs) = (if socket_is_valid x then x # valid_fds xs else valid_fds xs)"
  by (simp_all add: valid_fds_def)

lemma closed_fds_simps [simp]:
  "closed_fds [] = []" "closed_fds (e # es) = valid_fds (closed_by e) @ closed_fds es"
  "closed_fds (es @ fs) = closed_fds es @ closed_fds fs"
  by (simp_all add: closed_fds_def)

text \<open>
  An operation on a connection conserves sockets when those it held before are those it holds afterwards and those
  it closed.
\<close>

definition conserves :: "int list \<Rightarrow> int list \<Rightarrow> conn_event list \<Rightarrow> bool" where
  "conserves before after es \<longleftrightarrow> mset before = mset after + mset (closed_fds es)"

definition outcome_fds :: "'b conn option \<Rightarrow> int list" where
  "outcome_fds co = (case co of None \<Rightarrow> [] | Some c \<Rightarrow> conn_sockets c)"

lemma free_conn_conserves: "conserves (conn_sockets c) [] (snd (free_conn c))"
  by (auto simp: conserves_def conn_sockets_def free_conn_def closed_by_def split: option.split)

lemma same_sockets:
  "bev_fd (client c') = bev_fd (client c) \<Longrightarrow> map_option bev_fd (upstream_bev c') = map_option bev_fd (upstream_bev c) \<Longrightarrow>
   conn_sockets c' = conn_sockets c"
  by (cases "upstream_bev c"; cases "upstream_bev c'") (auto simp: conn_sockets_def)

section \<open>Callbacks\<close>

text \<open>
  What libevent does on the thread of a worker with a connection: it replaces the buffers by what was read and
  sent, and calls the callback that is installed; or the idle timer of the connection fires.
\<close>

datatype 'b delivery =
    Client_readable 'b | Client_writable 'b | Client_event bev_events
  | Upstream_readable 'b | Upstream_writable 'b | Upstream_event bool bev_events
  | Idle_fires

definition deliver_read :: "'b evbuffer_api \<Rightarrow> read_cb \<Rightarrow> 'b conn \<Rightarrow> ('b conn option \<times> conn_event list) option" where
  "deliver_read E cb c = (case cb of
     No_read_cb \<Rightarrow> Some (Some c, [])
   | pipe_client_read \<Rightarrow> map_option (\<lambda>c. (Some c, [])) (pipe_client_read_cb E c)
   | pipe_upstream_read \<Rightarrow> Some (Some (pipe_upstream_read_cb E c), [])
   | builtin_client_read \<Rightarrow> Some (Some (builtin_client_read_cb E c), []))"

definition deliver_write :: "'b evbuffer_api \<Rightarrow> write_cb \<Rightarrow> 'b conn \<Rightarrow> 'b outcome" where
  "deliver_write E cb c = (case cb of
     pipe_client_write \<Rightarrow> (let (c, es) = pipe_client_write_cb E c in (Some c, es))
   | pipe_upstream_write \<Rightarrow> (Some (pipe_upstream_write_cb E c), [])
   | builtin_close_after_write \<Rightarrow> builtin_close_after_write_cb E c
   | builtin_http_close_after_write \<Rightarrow> (let (c, es) = builtin_http_close_after_write_cb E c in (Some c, es))
   | _ \<Rightarrow> (Some c, []))"

definition deliver_event :: "'b evbuffer_api \<Rightarrow> event_cb \<Rightarrow> bool \<Rightarrow> bev_events \<Rightarrow> 'b conn \<Rightarrow> 'b outcome" where
  "deliver_event E cb timer ev c = (case cb of
     stream_client_event \<Rightarrow> stream_client_event_cb ev c
   | stream_upstream_event \<Rightarrow> stream_upstream_event_cb E timer ev c
   | _ \<Rightarrow> (Some c, []))"

definition deliver_conn :: "'b evbuffer_api \<Rightarrow> 'b delivery \<Rightarrow> 'b conn \<Rightarrow> ('b conn option \<times> conn_event list) option" where
  "deliver_conn E d c = (case d of
     Client_readable b \<Rightarrow> deliver_read E (read_callback (client c)) (c\<lparr>client := (client c)\<lparr>bev_input := b\<rparr>\<rparr>)
   | Client_writable b \<Rightarrow> Some (deliver_write E (write_callback (client c)) (c\<lparr>client := (client c)\<lparr>bev_output := b\<rparr>\<rparr>))
   | Client_event ev \<Rightarrow> Some (deliver_event E (event_callback (client c)) False ev c)
   | Upstream_readable b \<Rightarrow>
       (case upstream_bev c of None \<Rightarrow> Some (Some c, [])
        | Some u \<Rightarrow> deliver_read E (read_callback u) (c\<lparr>upstream_bev := Some (u\<lparr>bev_input := b\<rparr>)\<rparr>))
   | Upstream_writable b \<Rightarrow>
       (case upstream_bev c of None \<Rightarrow> Some (Some c, [])
        | Some u \<Rightarrow> Some (deliver_write E (write_callback u) (c\<lparr>upstream_bev := Some (u\<lparr>bev_output := b\<rparr>)\<rparr>)))
   | Upstream_event timer ev \<Rightarrow>
       (case upstream_bev c of None \<Rightarrow> Some (Some c, [])
        | Some u \<Rightarrow> Some (deliver_event E (event_callback u) timer ev c))
   | Idle_fires \<Rightarrow>
       (case idle_ev c of
          Some (Some t) \<Rightarrow> Some (conn_idle_timeout_cb (c\<lparr>idle_ev := Some None\<rparr>))
        | _ \<Rightarrow> Some (Some c, [])))"

definition deliver_file ::
  "'b evbuffer_api \<Rightarrow> 'f file_api \<Rightarrow> 'b delivery \<Rightarrow> ('b, 'f) file_conn \<Rightarrow> ('b, 'f) file_outcome option" where
  "deliver_file E F d fc = (case d of
     Client_writable b \<Rightarrow> file_write_cb E F (fc\<lparr>fc_conn := (fc_conn fc)\<lparr>client := (client (fc_conn fc))\<lparr>bev_output := b\<rparr>\<rparr>\<rparr>)
   | Client_event ev \<Rightarrow> Some (file_event_cb ev fc)
   | _ \<Rightarrow> Some (Some fc, []))"

definition deliver ::
  "'b evbuffer_api \<Rightarrow> 'f file_api \<Rightarrow> 'b delivery \<Rightarrow> ('b, 'f) adopted \<Rightarrow> (('b, 'f) adopted \<times> conn_event list) option" where
  "deliver E F d a = (case a of
     Adopt_none \<Rightarrow> Some (Adopt_none, [])
   | Adopt_conn c \<Rightarrow> map_option (\<lambda>(co, es). (adopted_conn co, es)) (deliver_conn E d c)
   | Adopt_file fc \<Rightarrow> map_option (\<lambda>(fco, es). (adopted_file fco, es)) (deliver_file E F d fc))"

section \<open>Every callback conserves sockets\<close>

lemma conserves_same: "conn_sockets c' = conn_sockets c \<Longrightarrow> closed_fds es = [] \<Longrightarrow> conserves (conn_sockets c) (conn_sockets c') es"
  by (simp add: conserves_def)

lemmas fd_free_defs = finish_client_write_def drain_client_then_close_def set_timeouts_def clear_idle_timeout_def
  schedule_conn_idle_timer_def start_conn_idle_timer_def conn_touch_def closed_by_def

lemma map_bev_fd_id: "(\<And>u. bev_fd (f u) = bev_fd u) \<Longrightarrow> map_option bev_fd (map_option f x) = map_option bev_fd x"
  by (cases x) simp_all

lemma finish_client_conserves [simp]:
  "conn_sockets (fst (finish_client_write c)) = conn_sockets c" "closed_fds (snd (finish_client_write c)) = []"
  by (auto simp: fd_free_defs intro!: same_sockets)

lemma conn_sockets_flags [simp]:
  "conn_sockets (c\<lparr>close_client_after_drain := x\<rparr>) = conn_sockets c" "conn_sockets (c\<lparr>close_after_client_eof := y\<rparr>) = conn_sockets c"
  "conn_sockets (c\<lparr>idle_ev := t\<rparr>) = conn_sockets c"
  by (rule same_sockets; simp)+

lemma conn_sockets_bevs [simp]:
  "conn_sockets (c\<lparr>client := (client c)\<lparr>bev_input := b\<rparr>\<rparr>) = conn_sockets c"
  "conn_sockets (c\<lparr>client := (client c)\<lparr>bev_output := b\<rparr>\<rparr>) = conn_sockets c"
  "conn_sockets (c\<lparr>upstream_bev := map_option (\<lambda>u. u\<lparr>ev_read := e\<rparr>) (upstream_bev c)\<rparr>) = conn_sockets c"
  "conn_sockets (c\<lparr>upstream_bev := map_option (\<lambda>u. u\<lparr>ev_read := e, ev_write := e'\<rparr>) (upstream_bev c)\<rparr>) = conn_sockets c"
  by (rule same_sockets; simp add: map_bev_fd_id)+

lemma drain_client_conserves [simp]:
  "conn_sockets (fst (drain_client_then_close E c)) = conn_sockets c" "closed_fds (snd (drain_client_then_close E c)) = []"
proof -
  let ?u = "map_option (\<lambda>u. u\<lparr>ev_read := False, ev_write := False\<rparr>) (upstream_bev c)"
  have "conn_sockets (c\<lparr>close_client_after_drain := True, upstream_bev := ?u\<rparr>) = conn_sockets c"
    by (rule same_sockets) (simp_all add: map_bev_fd_id)
  then show "conn_sockets (fst (drain_client_then_close E c)) = conn_sockets c" "closed_fds (snd (drain_client_then_close E c)) = []"
    by (simp_all add: drain_client_then_close_def Let_def case_prod_beta)
qed

lemma free_conn_outcome_conserves: "free_conn c = (co, es) \<Longrightarrow> conserves (conn_sockets c) (outcome_fds co) es"
  using free_conn_conserves [of c] by (auto simp: free_conn_def outcome_fds_def)

lemma deliver_event_conserves:
  assumes "deliver_event E cb timer ev c = (co, es)"
  shows "conserves (conn_sockets c) (outcome_fds co) es"
proof -
  have keep: "conserves (conn_sockets c) (outcome_fds (Some c')) es'" if "conn_sockets c' = conn_sockets c" "closed_fds es' = []" for c' es'
    using that by (simp add: outcome_fds_def conserves_def)
  have free: "conserves (conn_sockets c) (outcome_fds (fst (free_conn c))) (snd (free_conn c))"
    using free_conn_outcome_conserves [of c "fst (free_conn c)" "snd (free_conn c)"] by simp
  have drain: "conserves (conn_sockets c) (outcome_fds (Some (fst (drain_client_then_close E c)))) (snd (drain_client_then_close E c))"
    by (intro keep) simp_all
  let ?t = "start_conn_idle_timer timer (clear_idle_timeout (c\<lparr>upstream_connected := True\<rparr>))"
  have timer: "conn_sockets (?t\<lparr>client := (client ?t)\<lparr>ev_read := True, ev_write := True\<rparr>\<rparr>) = conn_sockets c"
    by (rule same_sockets) (auto simp: fd_free_defs Let_def map_bev_fd_id)
  show ?thesis
    using assms free drain keep [OF timer, of "[]"] keep [of c "[]"]
    by (cases cb) (auto simp: deliver_event_def stream_client_event_cb_def stream_upstream_event_cb_def Let_def case_prod_beta
      split: if_splits)
qed

lemma deliver_read_conserves:
  assumes "deliver_read E cb c = Some (co, es)"
  shows "conserves (conn_sockets c) (outcome_fds co) es"
proof -
  have "conn_sockets c' = conn_sockets c" if "pipe_client_read_cb E c = Some c'" for c'
    using that by (cases "upstream_bev c"; intro same_sockets)
      (auto simp: pipe_client_read_cb_def conn_touch_def Let_def Option.bind_eq_Some_conv case_prod_beta)
  moreover have "conn_sockets (pipe_upstream_read_cb E c) = conn_sockets c" "conn_sockets (builtin_client_read_cb E c) = conn_sockets c"
    by (rule same_sockets; auto simp: pipe_upstream_read_cb_def builtin_client_read_cb_def conn_touch_def Let_def split: option.splits prod.splits)+
  ultimately show ?thesis
    using assms by (cases cb) (auto simp: deliver_read_def outcome_fds_def conserves_def)
qed

lemma deliver_write_conserves:
  assumes "deliver_write E cb c = (co, es)"
  shows "conserves (conn_sockets c) (outcome_fds co) es"
proof -
  have free: "conserves (conn_sockets c) (outcome_fds (fst (free_conn c))) (snd (free_conn c))"
    using free_conn_outcome_conserves [of c "fst (free_conn c)" "snd (free_conn c)"] by simp
  have "conn_sockets (pipe_upstream_write_cb E c) = conn_sockets c"
    by (rule same_sockets) (auto simp: pipe_upstream_write_cb_def split: option.split)
  with assms free show ?thesis
    by (cases cb) (auto simp: deliver_write_def outcome_fds_def conserves_def pipe_client_write_cb_def builtin_close_after_write_cb_def
      builtin_http_close_after_write_cb_def Let_def case_prod_beta split: if_splits)
qed

lemma deliver_conn_conserves:
  assumes "deliver_conn E d c = Some (co, es)"
  shows "conserves (conn_sockets c) (outcome_fds co) es"
proof -
  have up: "conn_sockets (c\<lparr>upstream_bev := Some (u\<lparr>bev_input := b\<rparr>)\<rparr>) = conn_sockets c"
    "conn_sockets (c\<lparr>upstream_bev := Some (u\<lparr>bev_output := b\<rparr>)\<rparr>) = conn_sockets c" if "upstream_bev c = Some u" for u b
    using that by (intro same_sockets; simp)+
  let ?i = "c\<lparr>idle_ev := Some None\<rparr>"
  have "conn_sockets (schedule_conn_idle_timer (?i\<lparr>idle_check_seq := s\<rparr>)) = conn_sockets c" for s
    by (rule same_sockets) (auto simp: schedule_conn_idle_timer_def)
  then have idle: "conserves (conn_sockets c) (outcome_fds co) es" if "conn_idle_timeout_cb ?i = (co, es)"
    using that free_conn_outcome_conserves [of ?i co es]
    by (auto simp: conn_idle_timeout_cb_def outcome_fds_def conserves_def split: if_splits)
  have none: "conserves (conn_sockets c) (outcome_fds (Some c)) []" by (simp add: outcome_fds_def conserves_def)
  note rd = deliver_read_conserves [of E _ _ co es] and wr = deliver_write_conserves [of E _ _ co es]
  show ?thesis
  proof (cases d)
    case (Client_readable b)
    with assms rd [of "read_callback (client c)" "c\<lparr>client := (client c)\<lparr>bev_input := b\<rparr>\<rparr>"] show ?thesis by (simp add: deliver_conn_def)
  next
    case (Client_writable b)
    with assms wr [of "write_callback (client c)" "c\<lparr>client := (client c)\<lparr>bev_output := b\<rparr>\<rparr>"] show ?thesis by (simp add: deliver_conn_def)
  next
    case (Client_event ev)
    with assms deliver_event_conserves [of E _ _ _ c co es] show ?thesis by (simp add: deliver_conn_def)
  next
    case (Upstream_readable b)
    show ?thesis
    proof (cases "upstream_bev c")
      case (Some u)
      with assms Upstream_readable rd [of "read_callback u" "c\<lparr>upstream_bev := Some (u\<lparr>bev_input := b\<rparr>)\<rparr>"] up(1) [OF Some] show ?thesis
        by (simp add: deliver_conn_def)
    qed (use assms none Upstream_readable in \<open>simp add: deliver_conn_def\<close>)
  next
    case (Upstream_writable b)
    show ?thesis
    proof (cases "upstream_bev c")
      case (Some u)
      with assms Upstream_writable wr [of "write_callback u" "c\<lparr>upstream_bev := Some (u\<lparr>bev_output := b\<rparr>)\<rparr>"] up(2) [OF Some] show ?thesis
        by (simp add: deliver_conn_def)
    qed (use assms none Upstream_writable in \<open>simp add: deliver_conn_def\<close>)
  next
    case (Upstream_event timer ev)
    with assms none deliver_event_conserves [of E _ timer ev c co es] show ?thesis
      by (cases "upstream_bev c") (auto simp: deliver_conn_def)
  next
    case Idle_fires
    with assms none idle show ?thesis by (auto simp: deliver_conn_def split: option.splits)
  qed
qed

lemma adopted_conn_fds: "held_fds (adopted_conn co) = outcome_fds co"
  by (cases co) (simp_all add: outcome_fds_def)

definition file_fds :: "('b, 'f) file_conn option \<Rightarrow> int list" where
  "file_fds fco = (case fco of None \<Rightarrow> [] | Some fc \<Rightarrow> conn_sockets (fc_conn fc))"

lemma adopted_file_fds: "held_fds (adopted_file fco) = file_fds fco"
  by (cases fco) (simp_all add: file_fds_def)

lemma file_done_conserves: "conserves (conn_sockets (fc_conn fc)) (file_fds (fst (file_done fc))) (snd (file_done fc))"
  using free_conn_conserves [of "fc_conn fc"] by (simp add: file_done_def file_fds_def conserves_def closed_by_def)

text \<open>The write callback of a file returns, whatever fails, and conserves sockets.\<close>

lemma file_write_conserves:
  assumes laws: "evbuffer_laws E"
  shows "\<exists>r. file_write_cb E F fc = Some r \<and> conserves (conn_sockets (fc_conn fc)) (file_fds (fst r)) (snd r)"
proof (induction "STREAM_READ_HIGH_WATER - length (fc_out E fc)" arbitrary: fc rule: less_induct)
  case less
  have len: "evbuffer_get_length E b = length (contents E b)" for b
    using laws by (simp add: evbuffer_laws_def)
  obtain bs f' where rd: "fread F (fc_fp fc) FILE_CHUNK_SIZE = (bs, f')" by (cases "fread F (fc_fp fc) FILE_CHUNK_SIZE")
  obtain ok out where add: "evbuffer_add E (bev_output (client (fc_conn fc))) bs = (ok, out)"
    by (cases "evbuffer_add E (bev_output (client (fc_conn fc))) bs")
  let ?fc0 = "fc\<lparr>fc_fp := f'\<rparr>"
  let ?fc1 = "?fc0\<lparr>fc_conn := (fc_conn fc)\<lparr>client := (client (fc_conn fc))\<lparr>bev_output := out\<rparr>\<rparr>\<rparr>"
  have fds: "conn_sockets (fc_conn ?fc0) = conn_sockets (fc_conn fc)" "conn_sockets (fc_conn ?fc1) = conn_sockets (fc_conn fc)" by simp_all
  have keep: "conserves (conn_sockets (fc_conn fc)) (file_fds (Some fc')) []" if "conn_sockets (fc_conn fc') = conn_sockets (fc_conn fc)" for fc' :: "('a, 'b) file_conn"
    using that by (simp add: file_fds_def conserves_def)
  show ?case
  proof (cases "length (fc_out E fc) < STREAM_READ_HIGH_WATER \<and> bs \<noteq> [] \<and> ok")
    case True
    have "contents E out = fc_out E fc @ bs"
      using laws add True unfolding evbuffer_laws_def fc_out_def by metis
    then have "STREAM_READ_HIGH_WATER - length (fc_out E ?fc1) < STREAM_READ_HIGH_WATER - length (fc_out E fc)"
      using True by (simp add: fc_out_def diff_less_mono2)
    from less.hyps [OF this] True rd add len fds(2) show ?thesis
      by (subst file_write_cb.simps) (simp add: Let_def bufferevent_write_def fc_out_def)
  next
    case False
    have dn: "\<exists>a b. file_done fc' = (a, b) \<and> conserves (conn_sockets (fc_conn fc)) (file_fds a) b"
      if "conn_sockets (fc_conn fc') = conn_sockets (fc_conn fc)" for fc' :: "('a, 'b) file_conn"
      using file_done_conserves [of fc'] that by (cases "file_done fc'") simp
    show ?thesis
      using False rd add len dn [OF fds(1)] dn [OF fds(2)] keep [OF fds(1)] keep [of fc]
      by (subst file_write_cb.simps) (auto simp: Let_def bufferevent_write_def fc_out_def)
  qed
qed

section \<open>No callback faults\<close>

text \<open>What the callbacks need of a connection: an observer in a consistent state.\<close>

fun live_ok :: "('b, 'f) adopted \<Rightarrow> bool" where
  "live_ok (Adopt_conn c) = sniff_inv (sniff c)"
| "live_ok _ = True"

definition outcome_ok :: "'b conn option \<Rightarrow> bool" where
  "outcome_ok co = (case co of None \<Rightarrow> True | Some c \<Rightarrow> sniff_inv (sniff c))"

lemma outcome_ok_simps [simp]: "outcome_ok None" "outcome_ok (Some c) = sniff_inv (sniff c)" "outcome_ok (fst (free_conn c))"
  by (simp_all add: outcome_ok_def free_conn_def)

lemma live_ok_adopted [simp]: "live_ok (adopted_conn co) = outcome_ok co" "live_ok (adopted_file fco)"
  by (cases co; simp) (cases fco; simp)

lemma sniff_keeps [simp]:
  "sniff (fst (finish_client_write c)) = sniff c" "sniff (fst (drain_client_then_close E c)) = sniff c"
  "sniff (start_conn_idle_timer timer c) = sniff c" "sniff (clear_idle_timeout c) = sniff c"
  "sniff (schedule_conn_idle_timer c) = sniff c"
  by (simp_all add: finish_client_write_def drain_client_then_close_def start_conn_idle_timer_def clear_idle_timeout_def
    schedule_conn_idle_timer_def Let_def case_prod_beta)

lemma deliver_read_ok:
  assumes "evbuffer_laws E" and "sniff_inv (sniff c)"
  shows "\<exists>co es. deliver_read E cb c = Some (co, es) \<and> outcome_ok co"
proof (cases cb)
  case pipe_client_read
  show ?thesis
  proof (cases "upstream_bev c")
    case (Some u)
    obtain c' where "pipe_client_read_cb E c = Some c'" "sniff_inv (sniff c')"
      by (rule pipe_client_read_cb_spec [OF assms(1) Some assms(2)])
    with pipe_client_read show ?thesis by (simp add: deliver_read_def)
  qed (use pipe_client_read assms(2) in \<open>simp add: deliver_read_def pipe_client_read_cb_def\<close>)
qed (use assms(2) in \<open>auto simp: deliver_read_def pipe_upstream_read_cb_def builtin_client_read_cb_def conn_touch_def Let_def
    case_prod_beta split: option.split\<close>)

lemma deliver_write_ok: "sniff_inv (sniff c) \<Longrightarrow> outcome_ok (fst (deliver_write E cb c))"
  by (cases cb) (auto simp: deliver_write_def pipe_client_write_cb_def pipe_upstream_write_cb_def builtin_close_after_write_cb_def
    builtin_http_close_after_write_cb_def Let_def case_prod_beta split: option.split)

lemma deliver_event_ok: "sniff_inv (sniff c) \<Longrightarrow> outcome_ok (fst (deliver_event E cb timer ev c))"
  by (cases cb) (auto simp: deliver_event_def stream_client_event_cb_def stream_upstream_event_cb_def Let_def case_prod_beta)

lemma deliver_conn_ok:
  assumes "evbuffer_laws E" and "sniff_inv (sniff c)"
  shows "\<exists>co es. deliver_conn E d c = Some (co, es) \<and> outcome_ok co"
proof -
  have ex: "\<exists>co es. Some r = Some (co, es) \<and> outcome_ok co" if "outcome_ok (fst r)" for r :: "'a outcome"
    using that by (cases r) simp
  show ?thesis
    using assms deliver_read_ok [OF assms(1)] ex [OF deliver_write_ok] ex [OF deliver_event_ok]
    by (cases d) (auto simp: deliver_conn_def conn_idle_timeout_cb_def free_conn_def split: option.split)
qed

lemma deliver_safe:
  assumes "evbuffer_laws E" and "live_ok a"
  shows "\<exists>a' es. deliver E F d a = Some (a', es) \<and> live_ok a' \<and> conserves (held_fds a) (held_fds a') es"
proof (cases a)
  case Adopt_none
  then show ?thesis by (simp add: deliver_def conserves_def)
next
  case (Adopt_conn c)
  with assms(2) obtain co es where "deliver_conn E d c = Some (co, es)" "outcome_ok co" using deliver_conn_ok [OF assms(1)] by fastforce
  with Adopt_conn deliver_conn_conserves show ?thesis by (fastforce simp: deliver_def adopted_conn_fds)
next
  case (Adopt_file fc)
  let ?fc = "\<lambda>b. fc\<lparr>fc_conn := (fc_conn fc)\<lparr>client := (client (fc_conn fc))\<lparr>bev_output := b\<rparr>\<rparr>\<rparr>"
  have "\<exists>r. deliver_file E F d fc = Some r \<and> conserves (conn_sockets (fc_conn fc)) (file_fds (fst r)) (snd r)"
    using file_write_conserves [OF assms(1), of F "?fc b" for b] file_done_conserves [of fc]
    by (cases d) (auto simp: deliver_file_def file_event_cb_def file_fds_def conserves_def)
  with Adopt_file show ?thesis by (auto simp: deliver_def adopted_file_fds)
qed

section \<open>Taking over a client\<close>

text \<open>The socket that libevent makes for the connection to the upstream, when it gets that far.\<close>

definition adopt_opens :: "'f adopt_calls \<Rightarrow> worker_stream_client_msg \<Rightarrow> int list" where
  "adopt_opens k ac =
     (if ac_calloc k \<and> ac_client_bev k \<and> ac_upstream_bev k \<and>
         ep_kind (upstream (sc_route ac)) \<noteq> ENDPOINT_BUILTIN \<and> ep_kind (upstream (sc_route ac)) \<noteq> ENDPOINT_FILE \<and>
         fst (connect_upstream (ac_pton4 k) (ac_pton6 k) (ac_connect k) (upstream (sc_route ac))) = Inr ()
      then valid_fds [ac_connect_fd k] else [])"

lemma outcome_fds_simps [simp]: "outcome_fds None = []" "outcome_fds (Some c) = conn_sockets c"
  by (simp_all add: outcome_fds_def)

lemma builtin_respond_conserves:
  "conserves (conn_sockets c) (outcome_fds (fst (builtin_respond E res c))) (snd (builtin_respond E res c))"
  using free_conn_conserves [of c]
  by (auto simp: builtin_respond_def Let_def case_prod_beta set_cbs_def bufferevent_write_def finish_client_write_def set_timeouts_def
    closed_by_def free_conn_def intro!: conserves_same same_sockets split: x_builtin_action.split)

lemma builtin_respond_ok: "sniff_inv (sniff c) \<Longrightarrow> outcome_ok (fst (builtin_respond E res c))"
  by (auto simp: builtin_respond_def Let_def case_prod_beta finish_client_write_def split: x_builtin_action.split)

lemma conn_sockets_idle [simp]: "conn_sockets (set_client_idle_timeout c) = conn_sockets c" "sniff (set_client_idle_timeout c) = sniff c"
  by (auto simp: set_client_idle_timeout_def set_timeouts_def Let_def intro: same_sockets)

lemma start_stream_builtin_safe:
  assumes "upstream_bev c = None" and "sniff_inv (sniff c)"
  shows "conserves (conn_sockets c) (outcome_fds (fst (snd (start_stream_builtin E gp n4 n6 c)))) (snd (snd (start_stream_builtin E gp n4 n6 c))) \<and>
    outcome_ok (fst (snd (start_stream_builtin E gp n4 n6 c)))"
proof -
  have id: "c\<lparr>upstream_bev := None\<rparr> = c" using assms(1) by simp
  show ?thesis
    using assms free_conn_conserves [of c] builtin_respond_conserves [of "set_client_idle_timeout c" E]
      builtin_respond_ok [of "set_client_idle_timeout c" E]
    by (auto simp: id start_stream_builtin_def Let_def case_prod_beta free_conn_def split: sum.split)
qed

lemma start_stream_file_safe:
  assumes laws: "evbuffer_laws E" and "upstream_bev c = None"
  shows "\<exists>rc fco es. start_stream_file E F fopen cal c = Some (rc, fco, es) \<and> conserves (conn_sockets c) (file_fds fco) es"
proof (cases "fopen (ep_path (upstream (conn_route c)))")
  case (Inl e)
  then show ?thesis using free_conn_conserves [of c] by (simp add: start_stream_file_def file_fds_def)
next
  case (Inr fp)
  let ?cl = "(set_cbs No_read_cb file_write file_event ((client c)\<lparr>write_high_water := STREAM_READ_HIGH_WATER\<rparr>))\<lparr>ev_write := True\<rparr>"
  let ?fc = "\<lparr>fc_conn = set_client_idle_timeout (c\<lparr>client := ?cl\<rparr>), fc_fp = fp\<rparr>"
  have "conn_sockets (fc_conn ?fc) = conn_sockets c" by (auto simp: set_cbs_def intro: same_sockets)
  with file_write_conserves [OF laws, of F ?fc] obtain fco es where
    "file_write_cb E F ?fc = Some (fco, es)" "conserves (conn_sockets c) (file_fds fco) es" by auto
  moreover have id: "c\<lparr>upstream_bev := None\<rparr> = c" using assms(2) by simp
  ultimately show ?thesis
    using Inr assms(2) free_conn_conserves [of c]
    by (auto simp: id start_stream_file_def Let_def file_fds_def conserves_def closed_by_def)
qed

lemma adopt_proxy_v2_safe:
  assumes "sniff_inv (sniff c)"
  shows "conserves (conn_sockets c) (outcome_fds (fst (adopt_proxy_v2 E k ac c))) (snd (adopt_proxy_v2 E k ac c)) \<and>
    outcome_ok (fst (adopt_proxy_v2 E k ac c))"
proof -
  let ?q = "\<lambda>hdr u. c\<lparr>upstream_bev := Some (snd (bufferevent_write E hdr u))\<rparr>"
  have q: "conn_sockets (?q hdr u) = conn_sockets c" if "upstream_bev c = Some u" for u hdr
    using that by (intro same_sockets) (simp_all add: bufferevent_write_def case_prod_beta Let_def)
  have en: "conn_sockets (enable_upstream c') = conn_sockets c'" "sniff (enable_upstream c') = sniff c'" for c' :: "'a conn"
    by (auto simp: enable_upstream_def map_bev_fd_id intro: same_sockets)
  have fr: "conserves (conn_sockets c) [] (snd (free_conn (?q hdr u)))" if "upstream_bev c = Some u" for u hdr
    using free_conn_conserves [of "?q hdr u"] q [OF that] by simp
  have none: "fst (free_conn c') = None" for c' :: "'a conn" by (simp add: free_conn_def)
  show ?thesis
    using assms free_conn_conserves [of c] fr q
    by (auto simp: adopt_proxy_v2_def Let_def case_prod_beta none en split: option.split intro!: conserves_same)
qed

lemma adopt_connect_safe:
  assumes "upstream_bev c = None" and "sniff_inv (sniff c)"
  shows "conserves (conn_sockets c @ (if fst (connect_upstream (ac_pton4 k) (ac_pton6 k) (ac_connect k) (upstream (sc_route ac))) = Inr ()
      then valid_fds [ac_connect_fd k] else []))
      (outcome_fds (fst (adopt_connect E k ac c))) (snd (adopt_connect E k ac c)) \<and>
    outcome_ok (fst (adopt_connect E k ac c))"
proof -
  let ?c = "adopt_setup E c"
  let ?c1 = "?c\<lparr>upstream_bev := map_option (\<lambda>u. u\<lparr>bev_fd := ac_connect_fd k\<rparr>) (upstream_bev ?c)\<rparr>"
  have fds: "conn_sockets ?c = conn_sockets c" "conn_sockets ?c1 = conn_sockets c @ valid_fds [ac_connect_fd k]" "sniff ?c = sniff c"
    using assms(1) by (simp_all add: conn_sockets_def adopt_setup_def Let_def conn_update_defs bufferevent_socket_new_def
      socket_is_valid_def EVUTIL_INVALID_SOCKET_def)
  have "closed_fds (snd (connect_upstream p4 p6 cn ep)) = []" for p4 p6 cn ep
    by (auto simp: connect_upstream_def Let_def closed_by_def split: sum.split)
  moreover have "closed_fds [Set_keepalive fd b] = []" for fd b by (simp add: closed_by_def)
  ultimately show ?thesis
    using fds free_conn_conserves [of ?c] adopt_proxy_v2_safe [of ?c1 E k ac] assms(2)
    by (auto simp: adopt_connect_def Let_def conserves_def case_prod_beta split: sum.split)
qed

text \<open>
  Whatever fails, taking over a client returns, and the client's socket and the one that was made for the upstream are then
  closed or held.
\<close>

lemma adopt_safe:
  assumes "evbuffer_laws E"
  shows "\<exists>r es. worker_adopt_client_fd E F k w ac = Some (r, es) \<and> live_ok r \<and>
    conserves (valid_fds [sc_fd ac] @ adopt_opens k ac) (held_fds r) es"
proof -
  let ?c = "conn_new w (sc_route ac) (sc_peer_addr ac) (sc_peer_addr_len ac) (bufferevent_socket_new E (sc_fd ac))"
  have c: "conn_sockets ?c = valid_fds [sc_fd ac]" "upstream_bev ?c = None" "sniff_inv (sniff ?c)"
    by (simp_all add: conn_sockets_def conn_new_def bufferevent_socket_new_def sniff_inv_zero)
  obtain rc fco es where fl: "start_stream_file E F (ac_fopen k) (ac_file_calloc k) ?c = Some (rc, fco, es)"
    "conserves (conn_sockets ?c) (file_fds fco) es" using start_stream_file_safe [OF assms c(2)] by blast
  show ?thesis
    using start_stream_builtin_safe [OF c(2,3), of E "ac_getpeername k" "ac_ntop4 k" "ac_ntop6 k"] adopt_connect_safe [OF c(2,3), of k ac E] fl
      free_conn_conserves [of ?c]
    by (auto simp: worker_adopt_client_fd_def Let_def case_prod_beta adopted_conn_fds adopted_file_fds adopt_opens_def c(1)
      conserves_def closed_by_def free_conn_def)
qed

section \<open>The streams of the proxy\<close>

text \<open>
  The state that the workers' stream code shares: what was adopted, in the order of adoption, the sockets that were made for
  upstreams, those that the workers closed, and whether a callback went wrong (\<open>None\<close> in the model of it). The calls of each
  adoption have results of their own: \<open>calls n\<close> are those of the client number \<open>n\<close>.
\<close>

record ('b, 'f) net =
  n_live :: "('b, 'f) adopted list"
  n_opened :: "int list"
  n_closed :: "int list"
  n_fault :: bool

definition net_empty :: "('b, 'f) net" where
  "net_empty = \<lparr>n_live = [], n_opened = [], n_closed = [], n_fault = False\<rparr>"

definition net_adopt ::
  "'b evbuffer_api \<Rightarrow> 'f file_api \<Rightarrow> (nat \<Rightarrow> 'f adopt_calls) \<Rightarrow> 32 word \<Rightarrow> worker_stream_client_msg \<Rightarrow> ('b, 'f) net \<Rightarrow> ('b, 'f) net" where
  "net_adopt E F calls w ac n =
     (let k = calls (length (n_live n)) in
      case worker_adopt_client_fd E F k w ac of
        None \<Rightarrow> n\<lparr>n_fault := True\<rparr>
      | Some (a, es) \<Rightarrow> n\<lparr>n_live := n_live n @ [a], n_opened := n_opened n @ adopt_opens k ac, n_closed := n_closed n @ closed_fds es\<rparr>)"

definition net_deliver :: "'b evbuffer_api \<Rightarrow> 'f file_api \<Rightarrow> nat \<Rightarrow> 'b delivery \<Rightarrow> ('b, 'f) net \<Rightarrow> ('b, 'f) net" where
  "net_deliver E F i d n =
     (if i < length (n_live n) then
        (case deliver E F d (n_live n ! i) of
           None \<Rightarrow> n\<lparr>n_fault := True\<rparr>
         | Some (a, es) \<Rightarrow> n\<lparr>n_live := (n_live n)[i := a], n_closed := n_closed n @ closed_fds es\<rparr>)
      else n)"

text \<open>The state of the datagram code is of an arbitrary type \<open>'d\<close>, as are its handlers and callbacks.\<close>

definition stream_handlers ::
  "'b evbuffer_api \<Rightarrow> 'f file_api \<Rightarrow> (nat \<Rightarrow> 'f adopt_calls) \<Rightarrow> 'd handlers \<Rightarrow> (('b, 'f) net \<times> 'd) handlers" where
  "stream_handlers E F calls D = \<lparr>
     worker_adopt_client_fd_call = (\<lambda>w ac (n, d). (net_adopt E F calls w ac n, d)),
     cleanup_idle_datagram_clients_call = (\<lambda>x (n, d). (n, cleanup_idle_datagram_clients_call D x d)),
     datagram_route_handle_packet_call = (\<lambda>w m bs (n, d). (n, datagram_route_handle_packet_call D w m bs d))\<rparr>"

definition stream_callbacks ::
  "'b evbuffer_api \<Rightarrow> 'f file_api \<Rightarrow> ('e \<Rightarrow> 'd \<Rightarrow> 'd) \<Rightarrow> (nat \<times> 'b delivery) + 'e \<Rightarrow> ('b, 'f) net \<times> 'd \<Rightarrow> ('b, 'f) net \<times> 'd" where
  "stream_callbacks E F K x = (\<lambda>(n, d). case x of Inl (i, v) \<Rightarrow> (net_deliver E F i v n, d) | Inr e \<Rightarrow> (n, K e d))"

definition held :: "('b, 'f) net \<Rightarrow> int multiset" where
  "held n = (\<Sum>a \<leftarrow> n_live n. mset (held_fds a))"

text \<open>What holds after the clients with the sockets \<open>fds\<close> were adopted.\<close>

definition net_inv :: "int multiset \<Rightarrow> ('b, 'f) net \<Rightarrow> bool" where
  "net_inv fds n \<longleftrightarrow> \<not> n_fault n \<and> (\<forall>a \<in> set (n_live n). live_ok a) \<and>
     fds + mset (n_opened n) = mset (n_closed n) + held n"

lemma net_adopt_inv:
  assumes "evbuffer_laws E" and "net_inv fds n"
  shows "net_inv (fds + mset (valid_fds [sc_fd ac])) (net_adopt E F calls w ac n)"
proof -
  let ?k = "calls (length (n_live n))"
  obtain a es where "worker_adopt_client_fd E F ?k w ac = Some (a, es)" "live_ok a"
    "conserves (valid_fds [sc_fd ac] @ adopt_opens ?k ac) (held_fds a) es" using adopt_safe [OF assms(1)] by blast
  with assms(2) show ?thesis by (auto simp: net_adopt_def net_inv_def held_def conserves_def Let_def ac_simps simp del: valid_fds_simps)
qed

lemma sum_list_update_mset:
  assumes "i < length xs" shows "(\<Sum>x \<leftarrow> xs[i := y]. f x) + f (xs ! i) = (\<Sum>x \<leftarrow> xs. f x) + (f y :: 'a multiset)"
  using assms by (induction xs arbitrary: i) (auto simp: ac_simps split: nat.split)

lemma net_deliver_inv:
  assumes "evbuffer_laws E" and "net_inv fds n"
  shows "net_inv fds (net_deliver E F i d n)"
proof (cases "i < length (n_live n)")
  case True
  then have "live_ok (n_live n ! i)" using assms(2) by (simp add: net_inv_def)
  from deliver_safe [OF assms(1) this, of F d] obtain a es where a: "deliver E F d (n_live n ! i) = Some (a, es)" "live_ok a"
    "conserves (held_fds (n_live n ! i)) (held_fds a) es" by blast
  from sum_list_update_mset [OF True, of "\<lambda>a. mset (held_fds a)" a] a(3)
  have "mset (closed_fds es) + (\<Sum>a \<leftarrow> (n_live n)[i := a]. mset (held_fds a)) = held n"
    by (simp add: held_def conserves_def ac_simps)
  with a True assms(2) show ?thesis
    by (auto simp: net_deliver_def net_inv_def held_def ac_simps dest!: set_update_subset_insert [THEN subsetD])
qed (use assms(2) in \<open>simp add: net_deliver_def\<close>)

text \<open>The jobs that were run, by any worker.\<close>

definition all_run :: "'cb activity list \<Rightarrow> job list" where
  "all_run hist = concat (map (\<lambda>x. case x of Ran _ j \<Rightarrow> [j] | Called _ _ \<Rightarrow> []) hist)"

lemma all_run_simps [simp]:
  "all_run [] = []" "all_run (xs @ ys) = all_run xs @ all_run ys" "all_run [Ran k j] = [j]" "all_run [Called k c] = []"
  by (simp_all add: all_run_def)

lemma perform_stream [simp]:
  "fst (perform (stream_handlers E F calls D) (stream_callbacks E F K) (Ran i (WORKER_MSG_STREAM_CLIENT ac, bs)) s) =
     net_adopt E F calls (word_of_nat (i + 1)) ac (fst s)"
  "fst (perform (stream_handlers E F calls D) (stream_callbacks E F K) (Ran i (WORKER_MSG_DATAGRAM_PACKET m, bs)) s) = fst s"
  "fst (perform (stream_handlers E F calls D) (stream_callbacks E F K) (Called i (Inl (l, v))) s) = net_deliver E F l v (fst s)"
  "fst (perform (stream_handlers E F calls D) (stream_callbacks E F K) (Called i (Inr e)) s) = fst s"
  by (simp_all add: perform_def stream_handlers_def stream_callbacks_def case_prod_beta)

lemma client_fds_job:
  "client_fds [(WORKER_MSG_STREAM_CLIENT ac, bs)] = valid_fds [sc_fd ac]" "client_fds [(WORKER_MSG_DATAGRAM_PACKET m, bs)] = []"
  by (simp_all add: client_fds_def)

lemma net_history:
  assumes "evbuffer_laws E"
  shows "net_inv (mset (client_fds (all_run hist)))
    (fst (fold (perform (stream_handlers E F calls D) (stream_callbacks E F K)) hist (net_empty, d0)))"
proof (induction hist rule: rev_induct)
  case Nil
  then show ?case by (simp add: net_inv_def net_empty_def held_def)
next
  case (snoc x hist)
  show ?case
  proof (cases x)
    case (Ran i j)
    obtain pl bs where j: "j = (pl, bs)" by fastforce
    then show ?thesis
      using Ran net_adopt_inv [OF assms snoc.IH] snoc.IH by (cases pl) (simp_all add: client_fds_job del: valid_fds_simps)
  next
    case (Called i c)
    then show ?thesis using net_deliver_inv [OF assms snoc.IH] snoc.IH by (cases c) auto
  qed
qed

text \<open>The clients that wait on the heap of a worker.\<close>

definition queued_fds :: "store \<Rightarrow> int multiset" where
  "queued_fds st = (\<Sum>a \<in> dom (st_msgs st). mset (client_fds (jobs st [a])))"

lemma queued_fds_jobs: "store_ok st as \<Longrightarrow> mset (client_fds (jobs st as)) = queued_fds st"
proof -
  assume "store_ok st as"
  then have as: "distinct as" "dom (st_msgs st) = set as" by (auto simp: store_ok_def)
  have "queued_fds st = (\<Sum>a \<leftarrow> as. mset (client_fds (jobs st [a])))"
    unfolding queued_fds_def as(2) by (rule sum.distinct_set_conv_list [OF as(1)])
  also have "\<dots> = mset (client_fds (jobs st as))"
    by (induction as) (simp_all add: jobs_def client_fds_def)
  finally show ?thesis by simp
qed

text \<open>What a list of jobs says of every worker adds up to what it says of all.\<close>

lemma sent_split:
  assumes "\<forall>(i, j) \<in> set sent. i < n"
  shows "mset (client_fds (map snd sent)) = (\<Sum>i < n. mset (client_fds (jobs_for i sent)))"
  using assms
proof (induction sent rule: rev_induct)
  case (snoc x sent)
  obtain i j where x: "x = (i, j)" "i < n" using snoc.prems by (cases x) simp
  have "(\<Sum>k < n. mset (client_fds (jobs_for k [x]))) = (\<Sum>k < n. if k = i then mset (client_fds [j]) else {#})"
    by (rule sum.cong) (simp_all add: x)
  also have "\<dots> = mset (client_fds [j])" using x(2) by simp
  finally show ?case using snoc x by (simp add: sum.distrib)
qed simp

lemma run_split:
  assumes "\<forall>i j. Ran i j \<in> set hist \<longrightarrow> i < n"
  shows "mset (client_fds (all_run hist)) = (\<Sum>i < n. mset (client_fds (jobs_run i hist)))"
  using assms
proof (induction hist rule: rev_induct)
  case (snoc x hist)
  show ?case
  proof (cases x)
    case (Ran i j)
    then have i: "i < n" using snoc.prems by (cases j) auto
    have ih: "mset (client_fds (all_run hist)) = (\<Sum>i < n. mset (client_fds (jobs_run i hist)))"
      by (rule snoc.IH) (use snoc.prems in auto)
    have "(\<Sum>k < n. mset (client_fds (jobs_run k [x]))) = (\<Sum>k < n. if k = i then mset (client_fds [j]) else {#})"
      by (rule sum.cong) (simp_all add: Ran)
    also have "\<dots> = mset (client_fds [j])" using i by simp
    finally show ?thesis using ih Ran by (simp add: sum.distrib)
  qed (use snoc in simp)
qed simp

section \<open>A run\<close>

abbreviation example_streams :: "((byte list, byte list) net \<times> unit) handlers" where
  "example_streams \<equiv> stream_handlers list_evbuffer list_file (\<lambda>_. example_adopt_calls) unit_handlers"

abbreviation example_callbacks ::
  "(nat \<times> byte list delivery) + unit \<Rightarrow> (byte list, byte list) net \<times> unit \<Rightarrow> (byte list, byte list) net \<times> unit" where
  "example_callbacks \<equiv> stream_callbacks list_evbuffer list_file (\<lambda>_ d. d)"

text \<open>The client of \<open>px_job\<close> is connected to its upstream, by the socket 10.\<close>

lemma example_net:
  assumes "sc_route ac = example_route" and "sc_fd ac = 9"
  shows "n_opened (net_adopt list_evbuffer list_file (\<lambda>_. example_adopt_calls) 1 ac net_empty) = [10] \<and>
   n_closed (net_adopt list_evbuffer list_file (\<lambda>_. example_adopt_calls) 1 ac net_empty) = []"
proof -
  have "connect_upstream (ac_pton4 example_adopt_calls) (ac_pton6 example_adopt_calls) (ac_connect example_adopt_calls) (upstream example_route) =
     (Inr (), [Socket_connect (mk_sin 0 [10, 0, 0, 2]) SIZEOF_SIN])"
    by (simp add: connect_upstream_def endpoint_to_sockaddr_def example_adopt_calls_def example_route_def route_zero_def endpoint_zero_def Let_def)
  then show ?thesis
    using assms by (simp add: net_adopt_def net_empty_def worker_adopt_client_fd_def adopt_connect_def adopt_proxy_v2_def adopt_opens_def
      Let_def example_route_def route_zero_def endpoint_zero_def route_options_zero_def closed_by_def socket_is_valid_def EVUTIL_INVALID_SOCKET_def)
qed

section \<open>The property\<close>

text \<open>
  C3. The sockets of the whole proxy are accounted for, in every interleaving of the main thread, the workers and libevent's
  callbacks, whatever calls fail: the sockets that were accepted from clients and made for upstreams are those that the main thread
  closed, those that the workers closed, those that a live connection holds, and those of clients that wait on the
  heap of a worker, each exactly as often. So no socket leaks, and none is closed twice or while it is in use. No callback
  goes wrong.
\<close>

theorem proxy_sockets_balance:
  assumes "evbuffer_laws E"
    and "proxy_reach (stream_handlers E F calls D) (stream_callbacks E F K) (net_empty, d0) p"
  shows "\<not> n_fault (fst (px_app p)) \<and>
    mset (px_accepted p) + mset (n_opened (fst (px_app p))) =
      mset (px_closed p) + mset (n_closed (fst (px_app p))) + held (fst (px_app p)) +
      (\<Sum>i < px_count p. queued_fds (sl_store (px_slot p i)))"
proof -
  have inv: "proxy_histories (stream_handlers E F calls D) (stream_callbacks E F K) (net_empty, d0) p"
    using proxy_reach_inv [OF assms(2)] by (simp add: proxy_inv_def)
  then have net: "net_inv (mset (client_fds (all_run (px_hist p)))) (fst (px_app p))"
    using net_history [OF assms(1)] by (simp add: proxy_histories_def)
  have "mset (client_fds (jobs_for i (px_sent p))) =
      mset (client_fds (jobs_run i (px_hist p))) + queued_fds (sl_store (px_slot p i))" if "i < px_count p" for i
    using worker_share [OF assms(2) that] queued_fds_jobs by fastforce
  then have "mset (client_fds (map snd (px_sent p))) =
      mset (client_fds (all_run (px_hist p))) + (\<Sum>i < px_count p. queued_fds (sl_store (px_slot p i)))"
    using inv by (simp add: sent_split [of _ "px_count p"] run_split [of _ "px_count p"] proxy_histories_def sum.distrib)
  with inv net show ?thesis by (simp add: proxy_histories_def net_inv_def ac_simps)
qed

theorem proxy_sockets_balance_witness:
  "\<exists>p. proxy_reach example_streams example_callbacks (net_empty, ()) p \<and>
     px_accepted p = [9] \<and> n_opened (fst (px_app p)) = [10] \<and> held (fst (px_app p)) = {#10, 9#}"
proof -
  let ?p = "px_served (run_job example_streams 1 px_job (net_empty, ())) ::
    ((byte list, byte list) net \<times> unit, (nat \<times> byte list delivery) + unit) proxy"
  have r: "proxy_reach example_streams example_callbacks (net_empty, ()) ?p" by (rule px_reach_served)
  have "n_opened (fst (px_app ?p)) = [10] \<and> n_closed (fst (px_app ?p)) = []"
    using example_net by (simp add: px_served_def px_job_def stream_client_payload_def stream_handlers_def)
  moreover have "px_accepted ?p = [9]" "px_closed ?p = []" "px_count ?p = 1" "queued_fds (sl_store (px_slot ?p 0)) = {#}"
    by (simp_all add: px_served_def example_proxy_def px_count_def px_slot_def pool_slot_def queued_fds_def store_empty_def)
  ultimately show ?thesis
    using proxy_sockets_balance [OF list_evbuffer_laws r] r by (intro exI [of _ ?p]) auto
qed

end
