(* ===== verification/Klog.thy ===== *)
theory Klog
  imports File_Conf
begin

text \<open>
  Log lines (\<^verbatim>\<open>src/klog.c\<close>, \<^verbatim>\<open>src/klog.h\<close>): a prefix, a quoted message, and fields with a key and a
  value each. What goes into the log comes from the configuration and from the network, so the
  theorems are about lines that cannot be forged: a call writes exactly one line, and its message and
  fields can be read back from it.
\<close>

section \<open>Values\<close>

text \<open>Numbers are kept at their width; a null pointer is \<open>None\<close>.\<close>

datatype log_value =
    LOG_VALUE_STR "string option"
  | LOG_VALUE_INT "32 word"
  | LOG_VALUE_UINT "32 word"
  | LOG_VALUE_LONG "64 word"
  | LOG_VALUE_ULONG "64 word"
  | LOG_VALUE_LLONG "64 word"
  | LOG_VALUE_ULLONG "64 word"
  | LOG_VALUE_ENDPOINT "endpoint option"

fun quoted_char :: "char \<Rightarrow> string" where
  "quoted_char c =
     (if c = BSL then [BSL, BSL]
      else if c = QUOT then [BSL, QUOT]
      else if c = LF then [BSL, CHR ''n'']
      else if c = CR then [BSL, CHR ''r'']
      else if c = TAB then [BSL, CHR ''t'']
      else [c])"

declare quoted_char.simps [simp del]

definition print_quoted_value :: "string option \<Rightarrow> string" where
  "print_quoted_value s = (case s of None \<Rightarrow> [QUOT, QUOT] | Some s \<Rightarrow> QUOT # concat (map quoted_char s) @ [QUOT])"

definition log_print_endpoint :: "endpoint option \<Rightarrow> string" where
  "log_print_endpoint ep = (case endpoint_to_string ep (Some 256) of Inl _ \<Rightarrow> [] | Inr s \<Rightarrow> s)"

definition print_log_value :: "log_value \<Rightarrow> string" where
  "print_log_value v = (case v of
      LOG_VALUE_STR s \<Rightarrow> print_quoted_value s
    | LOG_VALUE_INT i \<Rightarrow> show_int (sint i)
    | LOG_VALUE_UINT u \<Rightarrow> show_nat (unat u)
    | LOG_VALUE_LONG l \<Rightarrow> show_int (sint l)
    | LOG_VALUE_ULONG l \<Rightarrow> show_nat (unat l)
    | LOG_VALUE_LLONG l \<Rightarrow> show_int (sint l)
    | LOG_VALUE_ULLONG l \<Rightarrow> show_nat (unat l)
    | LOG_VALUE_ENDPOINT ep \<Rightarrow> log_print_endpoint ep)"

section \<open>The lock and the thread\<close>

record klog =
  log_mu_ready :: bool
  klog_worker_id :: int

definition klog_init :: "bool \<Rightarrow> errno option \<Rightarrow> klog \<Rightarrow> unit result \<times> klog" where
  "klog_init mutex_ok errno' k =
     (if log_mu_ready k then (Inr (), k)
      else if \<not> mutex_ok then (Inl (case errno' of Some e \<Rightarrow> e | None \<Rightarrow> EINVAL), k)
      else (Inr (), k\<lparr>log_mu_ready := True\<rparr>))"

definition klog_free :: "klog \<Rightarrow> klog" where
  "klog_free k = (if \<not> log_mu_ready k then k else k\<lparr>log_mu_ready := False\<rparr>)"

definition klog_set_worker_id :: "int \<Rightarrow> klog \<Rightarrow> klog" where
  "klog_set_worker_id i k = k\<lparr>klog_worker_id := i\<rparr>"

section \<open>A line\<close>

definition pad_left :: "nat \<Rightarrow> char \<Rightarrow> string \<Rightarrow> string" where
  "pad_left n c s = replicate (n - length s) c @ s"

text \<open>
  What a call knows besides its arguments: the text of the time as \<^verbatim>\<open>strftime\<close> gives it, the
  microseconds and the process id.
\<close>

record log_env =
  le_time :: string
  le_usec :: nat
  le_pid :: nat

definition log_prefix :: "log_env \<Rightarrow> klog \<Rightarrow> char \<Rightarrow> string \<Rightarrow> int \<Rightarrow> string" where
  "log_prefix e k sev file line =
     [sev] @ le_time e @ ''.'' @ pad_left 6 (CHR ''0'') (show_nat (le_usec e)) @ '' '' @
     pad_left 7 (CHR '' '') (show_nat (le_pid e)) @ '' '' @ file @ '':'' @ show_int line @ ''] worker='' @
     show_nat (unat (word_of_int (klog_worker_id k) :: 32 word)) @ '' msg=''"

fun log_fields :: "(string \<times> log_value) list \<Rightarrow> string" where
  "log_fields [] = []"
| "log_fields ((key, v) # fs) = '' '' @ key @ ''='' @ print_log_value v @ log_fields fs"

definition log_body :: "string \<Rightarrow> (string \<times> log_value) list \<Rightarrow> string" where
  "log_body msg fs = print_quoted_value (Some msg) @ log_fields fs"

text \<open>
  The text that a call passes to \<^verbatim>\<open>stderr\<close> in several stdio calls, all of them between taking and releasing the lock, is one
  \<open>Write\<close>.
\<close>

datatype klog_event = Mutex_lock | Mutex_unlock | Write string

definition log_at ::
  "log_env \<Rightarrow> klog \<Rightarrow> char \<Rightarrow> string \<Rightarrow> int \<Rightarrow> string \<Rightarrow> (string \<times> log_value) list \<Rightarrow> klog_event list" where
  "log_at e k sev file line msg fs =
     (if log_mu_ready k then [Mutex_lock] else []) @
     [Write (log_prefix e k sev file line @ log_body msg fs @ [LF])] @
     (if log_mu_ready k then [Mutex_unlock] else [])"

section \<open>Socket addresses\<close>

text \<open>
  \<^verbatim>\<open>sockaddr_format\<close> into a buffer of the given size; \<open>ntop4\<close> and \<open>ntop6\<close> are the results of \<^verbatim>\<open>inet_ntop\<close>. A path
  that is not terminated inside the 128 bytes of the address is the value \<open>None\<close>.
\<close>

definition TINYPROXY_SOCKADDR_FORMAT_BUFSIZE :: nat where "TINYPROXY_SOCKADDR_FORMAT_BUFSIZE = 128"

definition sun_text :: "sockaddr \<Rightarrow> string option" where
  "sun_text sa =
     (if 0 \<in> set (drop 2 sa) then Some (map (\<lambda>b. char_of (unat b)) (takeWhile (\<lambda>b. b \<noteq> 0) (drop 2 sa))) else None)"

definition sockaddr_format ::
  "(byte list \<Rightarrow> string option) \<Rightarrow> (byte list \<Rightarrow> string option) \<Rightarrow> sockaddr option \<Rightarrow> nat \<Rightarrow> nat option \<Rightarrow> string option" where
  "sockaddr_format ntop4 ntop6 addr addr_len buf =
     (case buf of
        None \<Rightarrow> Some []
      | Some buf_len \<Rightarrow>
          if buf_len = 0 then Some []
          else map_option (snprintf_buf buf_len)
            (case addr of
               None \<Rightarrow> Some ''<null>''
             | Some sa \<Rightarrow>
                 if addr_len = 0 then Some ''<null>''
                 else if ss_family sa = AF_INET then
                   (if addr_len < SIZEOF_SIN then Some (''inet:<short:'' @ show_nat addr_len @ ''>'')
                    else Some (case ntop4 (sin_addr sa) of
                        None \<Rightarrow> ''inet:<invalid>:'' @ show_nat (unat (of_be16 (sin_port sa)))
                      | Some ip \<Rightarrow> ip @ '':'' @ show_nat (unat (of_be16 (sin_port sa)))))
                 else if ss_family sa = AF_INET6 then
                   (if addr_len < SIZEOF_SIN6 then Some (''inet6:<short:'' @ show_nat addr_len @ ''>'')
                    else Some (case ntop6 (sin6_addr sa) of
                        None \<Rightarrow> ''inet6:<invalid>:'' @ show_nat (unat (of_be16 (sin6_port sa)))
                      | Some ip \<Rightarrow> ''['' @ ip @ '']:'' @ show_nat (unat (of_be16 (sin6_port sa)))))
                 else if ss_family sa = AF_UNIX then
                   (if addr_len < 2 then Some (''unix:<short:'' @ show_nat addr_len @ ''>'')
                    else if sa ! 2 = 0 then Some ''unix:<abstract-or-empty>''
                    else map_option (append ''unix:'') (sun_text sa))
                 else Some (''family:'' @ show_nat (ss_family sa) @ '' len:'' @ show_nat addr_len)))"

section \<open>Reading a line\<close>

definition unescape :: "char \<Rightarrow> char" where
  "unescape d = (if d = CHR ''n'' then LF else if d = CHR ''r'' then CR else if d = CHR ''t'' then TAB else d)"

text \<open>The text of a quoted value after its first quote, and what follows it.\<close>

fun read_quoted :: "string \<Rightarrow> (string \<times> string) option" where
  "read_quoted [] = None"
| "read_quoted (c # r) =
     (if c = QUOT then Some ([], r)
      else if c = BSL then
        (case r of [] \<Rightarrow> None | d # r \<Rightarrow> map_option (map_prod (Cons (unescape d)) id) (read_quoted r))
      else map_option (map_prod (Cons c) id) (read_quoted r))"

datatype field = Quoted string | Plain string

definition plain_char :: "char \<Rightarrow> bool" where
  "plain_char c \<longleftrightarrow> c \<noteq> CHR '' '' \<and> c \<noteq> LF"

definition read_value :: "string \<Rightarrow> (field \<times> string) option" where
  "read_value s =
     (if s \<noteq> [] \<and> hd s = QUOT then map_option (map_prod Quoted id) (read_quoted (tl s))
      else Some (Plain (takeWhile plain_char s), dropWhile plain_char s))"

lemma read_quoted_shrinks: "read_quoted s = Some (t, r) \<Longrightarrow> length r \<le> length s"
  by (induction s arbitrary: t r rule: read_quoted.induct) (fastforce split: if_splits list.splits)+

lemma read_value_shrinks: "read_value s = Some (v, r) \<Longrightarrow> length r \<le> length s"
  using length_dropWhile_le [of plain_char s]
  by (cases s) (auto simp: read_value_def dest!: read_quoted_shrinks split: if_splits)

function read_fields :: "string \<Rightarrow> (string \<times> field) list option" where
  "read_fields s =
     (case s of
        [] \<Rightarrow> None
      | c # r \<Rightarrow>
          if c = LF then (if r = [] then Some [] else None)
          else if c \<noteq> CHR '' '' then None
          else (case dropWhile (\<lambda>c. c \<noteq> CHR ''='') r of
              [] \<Rightarrow> None
            | _ # t \<Rightarrow>
                (case read_value t of
                   None \<Rightarrow> None
                 | Some (v, rest) \<Rightarrow>
                     map_option (Cons (takeWhile (\<lambda>c. c \<noteq> CHR ''='') r, v)) (read_fields rest))))"
  by pat_completeness auto
termination
proof (relation "measure length", goal_cases)
  case (2 s c r d t p v rest)
  have "length (dropWhile (\<lambda>c. c \<noteq> CHR ''='') r) \<le> length r" by (rule length_dropWhile_le)
  with 2 show ?case using read_value_shrinks [of t v rest] by auto
qed simp

declare read_fields.simps [simp del]

text \<open>The part of a line after the prefix: the message and the fields.\<close>

definition read_line :: "string \<Rightarrow> (string \<times> (string \<times> field) list) option" where
  "read_line s = (case read_value s of
     Some (Quoted msg, rest) \<Rightarrow> map_option (Pair msg) (read_fields rest) | _ \<Rightarrow> None)"

text \<open>What a reader is to find for a value: a string as it is, a number in decimal, the first 255 characters of an endpoint's text.\<close>

definition field_of :: "log_value \<Rightarrow> field" where
  "field_of v = (case v of
      LOG_VALUE_STR s \<Rightarrow> Quoted (case s of None \<Rightarrow> [] | Some s \<Rightarrow> s)
    | LOG_VALUE_INT i \<Rightarrow> Plain (show_int (sint i))
    | LOG_VALUE_UINT u \<Rightarrow> Plain (show_int (uint u))
    | LOG_VALUE_LONG l \<Rightarrow> Plain (show_int (sint l))
    | LOG_VALUE_ULONG l \<Rightarrow> Plain (show_int (uint l))
    | LOG_VALUE_LLONG l \<Rightarrow> Plain (show_int (sint l))
    | LOG_VALUE_ULLONG l \<Rightarrow> Plain (show_int (uint l))
    | LOG_VALUE_ENDPOINT None \<Rightarrow> Plain ''<nil>''
    | LOG_VALUE_ENDPOINT (Some ep) \<Rightarrow> Plain (take 255 (endpoint_text ep)))"

section \<open>Lines read back\<close>

lemma read_quoted_char: "read_quoted (quoted_char c @ s) = map_option (map_prod (Cons c) id) (read_quoted s)"
  by (simp add: quoted_char.simps unescape_def)

lemma read_quoted_text: "read_quoted (concat (map quoted_char s) @ QUOT # rest) = Some (s, rest)"
  by (induction s) (simp_all add: read_quoted_char)

lemma read_print_quoted: "read_value (print_quoted_value s @ rest) = Some (Quoted (case s of None \<Rightarrow> [] | Some s \<Rightarrow> s), rest)"
  by (cases s) (simp_all add: read_value_def print_quoted_value_def read_quoted_text)

text \<open>A text that can stand in a line without quotes.\<close>

definition bare :: "string \<Rightarrow> bool" where
  "bare s \<longleftrightarrow> list_all plain_char s \<and> (s = [] \<or> hd s \<noteq> QUOT)"

lemma digit_plain: "isdigit c \<Longrightarrow> plain_char c \<and> c \<noteq> QUOT"
  by (auto simp: isdigit_def code_def plain_char_def)

lemma bare_show_nat: "bare (show_nat n)"
  using show_nat_digits [of n] digit_plain by (auto simp: bare_def list_all_iff)

lemma bare_show_int: "bare (show_int i)"
  using show_nat_digits [of "nat (- i)"] bare_show_nat [of "nat i"] digit_plain
  by (auto simp: show_int_def bare_def list_all_iff plain_char_def)

lemma show_int_uint: "show_int (uint c) = show_nat (unat c)"
  by (simp add: show_int_def unsigned_less)

lemma field_of_plain: "\<nexists>s. v = LOG_VALUE_STR s \<Longrightarrow> field_of v = Plain (print_log_value v)"
  by (auto simp: field_of_def print_log_value_def show_int_uint log_print_endpoint_def endpoint_to_string_def snprintf_buf_def
    split: log_value.split option.split)

definition value_bare :: "log_value \<Rightarrow> bool" where
  "value_bare v = (case v of LOG_VALUE_ENDPOINT (Some ep) \<Rightarrow> bare (endpoint_text ep) | _ \<Rightarrow> True)"

lemma bare_take: "bare s \<Longrightarrow> bare (take n s)"
  by (cases s; cases n) (auto simp: bare_def list_all_iff dest: in_set_takeD)

lemma bare_print_value:
  assumes "value_bare v" and "\<nexists>s. v = LOG_VALUE_STR s"
  shows "bare (print_log_value v)"
proof (cases v)
  case (LOG_VALUE_ENDPOINT ep)
  show ?thesis
  proof (cases ep)
    case None
    with LOG_VALUE_ENDPOINT show ?thesis
      by (simp add: print_log_value_def log_print_endpoint_def endpoint_to_string_def snprintf_buf_def bare_def plain_char_def)
  next
    case (Some e)
    with LOG_VALUE_ENDPOINT assms(1) show ?thesis
      by (simp add: print_log_value_def log_print_endpoint_def endpoint_to_string_def snprintf_buf_def value_bare_def bare_take)
  qed
qed (use assms bare_show_nat bare_show_int in \<open>auto simp: print_log_value_def\<close>)

text \<open>After a value comes a blank or the end of the line.\<close>

lemma read_print_value:
  assumes "value_bare v" and "rest \<noteq> []" and "\<not> plain_char (hd rest)"
  shows "read_value (print_log_value v @ rest) = Some (field_of v, rest)"
proof (cases "\<exists>s. v = LOG_VALUE_STR s")
  case True
  then show ?thesis by (auto simp: print_log_value_def field_of_def read_print_quoted)
next
  case False
  let ?p = "print_log_value v"
  have p: "list_all plain_char ?p" "?p = [] \<or> hd ?p \<noteq> QUOT" using bare_print_value [OF assms(1) False] by (simp_all add: bare_def)
  have "takeWhile plain_char (?p @ rest) = ?p" "dropWhile plain_char (?p @ rest) = rest"
    using p(1) assms(2,3) by (cases rest; simp add: takeWhile_append2 dropWhile_append2 list_all_iff)+
  moreover have "hd (?p @ rest) \<noteq> QUOT" using p(2) assms(2,3) by (cases ?p; cases rest) (auto simp: plain_char_def)
  moreover have "field_of v = Plain ?p" using False by (rule field_of_plain)
  ultimately show ?thesis using assms(2) by (simp add: read_value_def)
qed

definition key_ok :: "string \<Rightarrow> bool" where
  "key_ok key \<longleftrightarrow> CHR ''='' \<notin> set key \<and> LF \<notin> set key"

lemma log_fields_head: "hd (log_fields fs @ [LF]) \<in> {CHR '' '', LF} \<and> log_fields fs @ [LF] \<noteq> []"
  by (cases fs) auto

lemma read_fields_log_fields:
  "list_all (\<lambda>(key, v). key_ok key \<and> value_bare v) fs \<Longrightarrow>
   read_fields (log_fields fs @ [LF]) = Some (map (apsnd field_of) fs)"
proof (induction fs rule: log_fields.induct)
  case (2 key v fs)
  then have k: "CHR ''='' \<notin> set key" and v: "value_bare v" by (simp_all add: key_ok_def)
  let ?r = "print_log_value v @ log_fields fs @ [LF]"
  have "takeWhile (\<lambda>c. c \<noteq> CHR ''='') (key @ ''='' @ ?r) = key" "dropWhile (\<lambda>c. c \<noteq> CHR ''='') (key @ ''='' @ ?r) = CHR ''='' # ?r"
    using k by (subst takeWhile_append2 dropWhile_append2; auto)+
  moreover have "read_value ?r = Some (field_of v, log_fields fs @ [LF])"
    using log_fields_head [of fs] by (intro read_print_value v) (auto simp: plain_char_def)
  ultimately show ?case using 2 by (subst read_fields.simps) (simp del: list.sel)
qed (simp add: read_fields.simps)

section \<open>The endpoints of routes\<close>

lemma plain_show_nat: "list_all plain_char (show_nat n)"
  using bare_show_nat [of n] by (simp add: bare_def)

lemma show_nat_no_LF: "LF \<notin> set (show_nat n)"
  using plain_show_nat [of n] by (auto simp: list_all_iff plain_char_def)

lemma split_host_port_plain:
  assumes "split_host_port s SIZEOF_HOST = Some (host, port, v6)" and "list_all plain_char s"
  shows "list_all plain_char host"
proof (cases s)
  case Nil
  with assms show ?thesis by (simp add: split_host_port_def split: if_splits)
next
  case (Cons c r)
  with assms split_host_port_v6 [of r SIZEOF_HOST host port v6] split_host_port_v4 [of c r SIZEOF_HOST host port v6]
  show ?thesis by (cases "c = CHR ''[''") (auto simp: SIZEOF_HOST_def list_all_iff plain_char_def)
qed

text \<open>The text of an endpoint parsed from a text without blanks has none; only a host before a colon can put a quote at its start.\<close>

lemma parse_endpoint_plain:
  assumes "parse_endpoint proto s = Some ep" and "list_all plain_char s"
  shows "list_all plain_char (endpoint_text ep) \<and>
    (hd (endpoint_text ep) = QUOT \<longrightarrow> ep_kind ep = ENDPOINT_INET \<and> hd (ep_host ep) = QUOT)"
proof (cases "proto = PROTO_TCP \<or> proto = PROTO_UDP")
  case True
  from assms(1) True obtain host port v6
    where sp: "split_host_port s SIZEOF_HOST = Some (host, port, v6)"
      and "ep = endpoint_zero\<lparr>ep_proto := proto, ep_host := host, ep_port := port,
                ep_kind := if v6 then ENDPOINT_INET6 else ENDPOINT_INET\<rparr>"
    by (rule parse_endpoint_inet)
  moreover have "host \<noteq> []" using split_host_port_fields [OF sp] by auto
  ultimately show ?thesis
    using split_host_port_plain [OF sp assms(2)] plain_show_nat by (cases v6) (auto simp: endpoint_text.simps plain_char_def)
next
  case False
  moreover have "list_all plain_char (x_builtin_name b)" for b by (cases b) (simp_all add: plain_char_def)
  ultimately show ?thesis using assms
    by (cases proto) (auto simp: parse_endpoint.simps parse_path_endpoint_def endpoint_text.simps Let_def plain_char_def
      split: if_splits sum.splits)
qed

text \<open>The endpoints that the program has: those of routes that were parsed.\<close>

definition parsed_endpoint :: "endpoint \<Rightarrow> bool" where
  "parsed_endpoint ep \<longleftrightarrow> (\<exists>line r. parse_route_line line = Inr r \<and> (ep = listen r \<or> ep = upstream r))"

lemma parse_route_fields_endpoints:
  assumes "parse_route_fields fs = Inr r"
  shows "\<exists>p q f g. f \<in> set fs \<and> g \<in> set fs \<and> parse_endpoint p f = Some (listen r) \<and> parse_endpoint q g = Some (upstream r)"
  using assms
  by (induction fs rule: parse_route_fields.induct)
    (auto simp: res_simps Let_def route_zero_def split: option.splits, blast)

lemma parsed_endpoint_source:
  assumes "parsed_endpoint ep"
  shows "\<exists>p s. parse_endpoint p s = Some ep \<and> list_all plain_char s"
proof -
  obtain line r where r: "parse_route_line line = Inr r" "ep = listen r \<or> ep = upstream r" using assms by (auto simp: parsed_endpoint_def)
  from r(1) obtain fs where fs: "split_fields 0 line = Inr fs"
    and p: "parse_route_fields (if hd fs = ''listen'' then tl fs else fs) = Inr r"
    by (auto simp: parse_route_line_def res_simps split: if_splits)
  have "list_all plain_char f" if "f \<in> set (if hd fs = ''listen'' then tl fs else fs)" for f
    using that split_fields_chars [OF fs, of f] by (auto simp: list_all_iff plain_char_def split: if_splits dest!: in_set_tlD)
  with parse_route_fields_endpoints [OF p] r(2) show ?thesis by blast
qed

lemma parsed_endpoint_plain:
  "parsed_endpoint ep \<Longrightarrow> list_all plain_char (endpoint_text ep) \<and>
    (hd (endpoint_text ep) = QUOT \<longrightarrow> ep_kind ep = ENDPOINT_INET \<and> hd (ep_host ep) = QUOT)"
  using parsed_endpoint_source parse_endpoint_plain by blast

lemma parsed_endpoint_no_LF: "parsed_endpoint ep \<Longrightarrow> LF \<notin> set (endpoint_text ep)"
  using parsed_endpoint_plain by (auto simp: list_all_iff plain_char_def)

definition value_readable :: "log_value \<Rightarrow> bool" where
  "value_readable v = (case v of
     LOG_VALUE_ENDPOINT (Some ep) \<Rightarrow> parsed_endpoint ep \<and> \<not> (ep_kind ep = ENDPOINT_INET \<and> hd (ep_host ep) = QUOT) | _ \<Rightarrow> True)"

lemma value_readable_bare: "value_readable v \<Longrightarrow> value_bare v"
  by (auto simp: value_readable_def value_bare_def bare_def dest: parsed_endpoint_plain split: log_value.splits option.splits)

text \<open>
  C33. The message and the fields of a log line can be read back: whatever bytes the message and the string values
  contain, a reader that knows the quoting recovers them exactly, together with all keys, the numbers in decimal, and of each
  endpoint the first 255 characters of its text, from what follows the prefix. So no message and no value can look like
  another field. The keys, which are constants of the program, contain no equals sign and no line feed; the endpoints are those of parsed
  routes, except for an endpoint without brackets whose host starts with a quote: endpoints are printed
  unquoted, and such a one is not told from a string.
\<close>

theorem log_body_reads_back:
  assumes "list_all (\<lambda>(key, v). key_ok key \<and> value_readable v) fs"
  shows "read_line (log_body msg fs @ [LF]) = Some (msg, map (apsnd field_of) fs)"
proof -
  have "list_all (\<lambda>(key, v). key_ok key \<and> value_bare v) fs"
    using assms value_readable_bare by (auto simp: list_all_iff)
  then show ?thesis by (simp add: read_line_def log_body_def read_print_quoted read_fields_log_fields)
qed

theorem log_body_reads_back_witness:
  "read_line (log_body (''a'' @ [QUOT, LF]) [(''n'', LOG_VALUE_INT (- 1)), (''s'', LOG_VALUE_STR (Some [BSL, CHR ''n''])),
     (''listen'', LOG_VALUE_ENDPOINT (Some (listen (projr (parse_route_line ''tcp :80 tcp b:81'')))))] @ [LF]) =
   Some (''a'' @ [QUOT, LF], [(''n'', Plain ''-1''), (''s'', Quoted [BSL, CHR ''n'']), (''listen'', Plain ''0.0.0.0:80'')])"
proof -
  let ?l = "''tcp :80 tcp b:81''" and ?r = "projr (parse_route_line ''tcp :80 tcp b:81'')"
  let ?fs = "[(''n'', LOG_VALUE_INT (- 1)), (''s'', LOG_VALUE_STR (Some [BSL, CHR ''n''])), (''listen'', LOG_VALUE_ENDPOINT (Some (listen ?r)))]"
  have "parse_route_line ?l = Inr ?r" "ep_host (listen ?r) = ''0.0.0.0''" by code_simp+
  then have "parsed_endpoint (listen ?r)" "hd (ep_host (listen ?r)) \<noteq> QUOT" by (auto simp: parsed_endpoint_def)
  then have "list_all (\<lambda>(key, v). key_ok key \<and> value_readable v) ?fs" by (simp add: key_ok_def value_readable_def)
  from log_body_reads_back [OF this] have "read_line (log_body (''a'' @ [QUOT, LF]) ?fs @ [LF]) = Some (''a'' @ [QUOT, LF], map (apsnd field_of) ?fs)" .
  moreover have "field_of (LOG_VALUE_INT (- 1)) = Plain ''-1''" "field_of (LOG_VALUE_ENDPOINT (Some (listen ?r))) = Plain ''0.0.0.0:80''"
    by code_simp+
  ultimately show ?thesis by (simp add: field_of_def [of "LOG_VALUE_STR s" for s])
qed

section \<open>One line per call\<close>

definition value_known :: "log_value \<Rightarrow> bool" where
  "value_known v = (case v of LOG_VALUE_ENDPOINT (Some ep) \<Rightarrow> parsed_endpoint ep | _ \<Rightarrow> True)"

lemma quoted_no_LF: "LF \<notin> set (print_quoted_value s)"
proof -
  have "LF \<notin> set (quoted_char c)" for c by (simp add: quoted_char.simps)
  then show ?thesis by (cases s) (auto simp: print_quoted_value_def)
qed

lemma show_int_no_LF: "LF \<notin> set (show_int i)"
  using bare_show_int [of i] by (auto simp: bare_def list_all_iff plain_char_def)

lemma print_value_no_LF:
  assumes "value_known v"
  shows "LF \<notin> set (print_log_value v)"
proof (cases v)
  case (LOG_VALUE_ENDPOINT ep)
  with assms parsed_endpoint_no_LF show ?thesis
    by (cases ep) (auto simp: value_known_def print_log_value_def log_print_endpoint_def endpoint_to_string_def snprintf_buf_def
      dest: in_set_takeD)
qed (simp_all add: print_log_value_def quoted_no_LF show_nat_no_LF show_int_no_LF)

lemma log_fields_no_LF:
  "list_all (\<lambda>(key, v). LF \<notin> set key \<and> value_known v) fs \<Longrightarrow> LF \<notin> set (log_fields fs)"
  by (induction fs rule: log_fields.induct) (auto simp: print_value_no_LF)

text \<open>
  C34. Every call of \<^verbatim>\<open>log_at\<close> writes exactly one line, between taking and releasing the lock when the lock exists:
  whatever bytes the message and the string values hold, and whatever route texts the endpoints were parsed
  from, the only line feed is the last character. (The severity, the file name, the keys and the format of the
  time are constants of the program and contain none.)
\<close>

theorem log_at_one_line:
  assumes "LF \<notin> set (sev # le_time e @ file)" and "list_all (\<lambda>(key, v). LF \<notin> set key \<and> value_known v) fs"
  shows "\<exists>text. LF \<notin> set text \<and> log_at e k sev file line msg fs =
    (if log_mu_ready k then [Mutex_lock, Write (text @ [LF]), Mutex_unlock] else [Write (text @ [LF])])"
proof (rule exI, rule conjI)
  show "LF \<notin> set (log_prefix e k sev file line @ log_body msg fs)"
    using assms(1) quoted_no_LF show_nat_no_LF show_int_no_LF log_fields_no_LF [OF assms(2)]
    by (auto simp: log_prefix_def log_body_def pad_left_def)
  show "log_at e k sev file line msg fs = (if log_mu_ready k
    then [Mutex_lock, Write ((log_prefix e k sev file line @ log_body msg fs) @ [LF]), Mutex_unlock]
    else [Write ((log_prefix e k sev file line @ log_body msg fs) @ [LF])])"
    by (simp add: log_at_def)
qed

theorem log_at_one_line_witness:
  "\<exists>text. LF \<notin> set text \<and>
    log_at \<lparr>le_time = ''0101 00:00:00'', le_usec = 7, le_pid = 42\<rparr> \<lparr>log_mu_ready = True, klog_worker_id = 0\<rparr> (CHR ''I'') ''a.c'' 3
      [CHR ''x'', LF] [(''v'', LOG_VALUE_STR (Some [LF]))] = [Mutex_lock, Write (text @ [LF]), Mutex_unlock]"
  using log_at_one_line [of "CHR ''I''" "\<lparr>le_time = ''0101 00:00:00'', le_usec = 7, le_pid = 42\<rparr>" "''a.c''"
      "[(''v'', LOG_VALUE_STR (Some [LF]))]" "\<lparr>log_mu_ready = True, klog_worker_id = 0\<rparr>" 3 "[CHR ''x'', LF]"]
  by (simp add: value_known_def)

section \<open>The text of an address\<close>

text \<open>The text always fits the buffer, and is there for every address with a terminated path.\<close>

lemma sockaddr_format_fits:
  "0 < n \<Longrightarrow> sockaddr_format ntop4 ntop6 addr len (Some n) = Some s \<Longrightarrow> length s < n"
  by (auto simp: sockaddr_format_def length_snprintf_buf)

lemma sockaddr_format_returns:
  "(\<And>sa. addr = Some sa \<Longrightarrow> ss_family sa = AF_UNIX \<Longrightarrow> 0 \<in> set (drop 2 sa)) \<Longrightarrow>
   sockaddr_format ntop4 ntop6 addr len buf \<noteq> None"
  by (auto simp: sockaddr_format_def sun_text_def af_defs split: option.split)

section \<open>Values of the C types\<close>

text \<open>
  The arguments that \<^verbatim>\<open>_LOGV\<close> takes, by their C type, and the constructor it chooses. Small types are passed to a
  parameter of a wider type, which keeps their value.
\<close>

datatype c_value =
    C_str "string option" | C_schar "8 word" | C_uchar "8 word" | C_short "16 word" | C_ushort "16 word"
  | C_int "32 word" | C_uint "32 word" | C_long "64 word" | C_ulong "64 word" | C_llong "64 word" | C_ullong "64 word"

definition log_value_str :: "string option \<Rightarrow> log_value" where "log_value_str v = LOG_VALUE_STR v"
definition log_value_int :: "32 word \<Rightarrow> log_value" where "log_value_int v = LOG_VALUE_INT v"
definition log_value_uint :: "32 word \<Rightarrow> log_value" where "log_value_uint v = LOG_VALUE_UINT v"
definition log_value_long :: "64 word \<Rightarrow> log_value" where "log_value_long v = LOG_VALUE_LONG v"
definition log_value_ulong :: "64 word \<Rightarrow> log_value" where "log_value_ulong v = LOG_VALUE_ULONG v"
definition log_value_llong :: "64 word \<Rightarrow> log_value" where "log_value_llong v = LOG_VALUE_LLONG v"
definition log_value_ullong :: "64 word \<Rightarrow> log_value" where "log_value_ullong v = LOG_VALUE_ULLONG v"
definition log_value_endpoint :: "endpoint option \<Rightarrow> log_value" where "log_value_endpoint v = LOG_VALUE_ENDPOINT v"

lemmas log_value_defs = log_value_str_def log_value_int_def log_value_uint_def log_value_long_def log_value_ulong_def
  log_value_llong_def log_value_ullong_def log_value_endpoint_def

definition LOGV :: "c_value \<Rightarrow> log_value" where
  "LOGV v = (case v of
      C_str s \<Rightarrow> log_value_str s
    | C_schar c \<Rightarrow> log_value_int (scast c) | C_uchar c \<Rightarrow> log_value_uint (ucast c)
    | C_short i \<Rightarrow> log_value_int (scast i) | C_ushort i \<Rightarrow> log_value_uint (ucast i)
    | C_int i \<Rightarrow> log_value_int i | C_uint i \<Rightarrow> log_value_uint i
    | C_long i \<Rightarrow> log_value_long i | C_ulong i \<Rightarrow> log_value_ulong i
    | C_llong i \<Rightarrow> log_value_llong i | C_ullong i \<Rightarrow> log_value_ullong i)"

text \<open>What a value is, as text: a string quoted, a number in decimal.\<close>

definition c_text :: "c_value \<Rightarrow> string" where
  "c_text v = (case v of
      C_str s \<Rightarrow> print_quoted_value s
    | C_schar c \<Rightarrow> show_int (sint c) | C_uchar c \<Rightarrow> show_int (uint c)
    | C_short i \<Rightarrow> show_int (sint i) | C_ushort i \<Rightarrow> show_int (uint i)
    | C_int i \<Rightarrow> show_int (sint i) | C_uint i \<Rightarrow> show_int (uint i)
    | C_long i \<Rightarrow> show_int (sint i) | C_ulong i \<Rightarrow> show_int (uint i)
    | C_llong i \<Rightarrow> show_int (sint i) | C_ullong i \<Rightarrow> show_int (uint i))"

lemma scast_keeps: "sint (scast (c :: 8 word) :: 32 word) = sint c" "sint (scast (i :: 16 word) :: 32 word) = sint i"
  using sint_greater_eq [of c] sint_less [of c] sint_greater_eq [of i] sint_less [of i]
  by (simp_all add: signed_scast_eq signed_take_bit_int_eq_self_iff)

lemma ucast_keeps: "unat (ucast (c :: 8 word) :: 32 word) = unat c" "unat (ucast (i :: 16 word) :: 32 word) = unat i"
  using unat_byte_less [of c] unat_u16_less [of i] by (simp_all add: unat_ucast_mod)

text \<open>The choice of \<^verbatim>\<open>_LOGV\<close> prints every value of every type as it is, extremes and signs included.\<close>

lemma LOGV_prints: "print_log_value (LOGV v) = c_text v"
  by (cases v) (simp_all add: LOGV_def c_text_def print_log_value_def log_value_defs show_int_uint scast_keeps ucast_keeps)

end
