(* ===== verification/Fuzz.thy ===== *)
theory Fuzz
  imports Stream_Adopt Sniff File_Conf
begin

text \<open>
  The fuzz harnesses of the repository (\<^verbatim>\<open>fuzz/\<close>) as programs: what each does with the bytes the fuzzer gives it, and
  that it never stops at \<^verbatim>\<open>abort\<close> or \<^verbatim>\<open>__builtin_trap\<close>, on any input. For the configuration the array of
  routes is memory: allocated, written to, freed.
\<close>

unbundle bit_operations_syntax

section \<open>The array of routes\<close>

text \<open>
  \<^verbatim>\<open>load_routes_from_text\<close> with its array as memory: \<open>arr\<close> is \<open>None\<close> for the null pointer and otherwise the number of
  routes that fit, and \<open>out\<close> is the caller's pointer \<^verbatim>\<open>*routes_out\<close>. The result is the value returned, the caller's pointer, and the
  array that is still allocated; \<open>None\<close> when a route is written outside the array.
\<close>

definition arr_cap :: "nat option \<Rightarrow> nat" where
  "arr_cap arr = (case arr of None \<Rightarrow> 0 | Some cap \<Rightarrow> cap)"

definition grow_array :: "(nat \<Rightarrow> bool) \<Rightarrow> nat \<Rightarrow> nat option \<Rightarrow> nat option result" where
  "grow_array realloc_ok count arr =
     (if count = arr_cap arr then
        (let new_cap = (if arr_cap arr \<noteq> 0 then arr_cap arr * 2 else 8) in
         if int new_cap > SIZE_MAX div int SIZEOF_ROUTE then Inl EOVERFLOW
         else if \<not> realloc_ok (new_cap * SIZEOF_ROUTE) then Inl ENOMEM
         else Inr (Some new_cap))
      else Inr arr)"

definition can_write :: "nat option \<Rightarrow> nat \<Rightarrow> bool" where
  "can_write arr count \<longleftrightarrow> count < arr_cap arr"

function load_routes_memory ::
  "(nat \<Rightarrow> bool) \<Rightarrow> string \<Rightarrow> 32 word \<Rightarrow> route list \<Rightarrow> nat option \<Rightarrow> nat option \<Rightarrow>
   (route list result \<times> nat option \<times> nat option) option" where
  "load_routes_memory realloc_ok data ln routes arr out =
     (if data = [] then (let out = arr in Some (Inr routes, out, arr))
      else
        let ln = ln + 1;
            raw = strip_cr (takeWhile (\<lambda>c. c \<noteq> LF) data);
            rest = drop 1 (dropWhile (\<lambda>c. c \<noteq> LF) data) in
        if length raw \<ge> MAX_LINE_LEN then Some (Inl E2BIG, out, None)
        else case line_text raw of
          None \<Rightarrow> load_routes_memory realloc_ok rest ln routes arr out
        | Some line \<Rightarrow>
            (case grow_array realloc_ok (length routes) arr of
               Inl e \<Rightarrow> Some (Inl e, out, None)
             | Inr arr \<Rightarrow>
                 if \<not> can_write arr (length routes) then None
                 else case parse_route_line line of
                     Inl _ \<Rightarrow> Some (Inl EINVAL, out, None)
                   | Inr r \<Rightarrow>
                       let r = r\<lparr>line_no := ln\<rparr> in
                       if find_conflicting_route routes r \<ge> 0 then Some (Inl EADDRINUSE, out, None)
                       else load_routes_memory realloc_ok rest ln (routes @ [r]) arr out))"
  by pat_completeness auto
termination
proof (relation "measure (\<lambda>(_, data, _). length data)", goal_cases)
  case 1
  show ?case by simp
next
  case (2 realloc_ok data ln routes arr out)
  then show ?case by (cases data) (auto simp: length_dropWhile_le less_Suc_eq_le le_diff_conv le_SucI)
next
  case (3 realloc_ok data ln routes arr out)
  then show ?case by (cases data) (auto simp: length_dropWhile_le less_Suc_eq_le le_diff_conv le_SucI)
qed

declare load_routes_memory.simps [simp del]

text \<open>The whole function: it clears the caller's pointer before anything else.\<close>

definition load_routes_out :: "(nat \<Rightarrow> bool) \<Rightarrow> string \<Rightarrow> nat option \<Rightarrow> (route list result \<times> nat option \<times> nat option) option" where
  "load_routes_out realloc_ok data out = (let out = None in load_routes_memory realloc_ok data 0 [] None out)"

text \<open>\<^verbatim>\<open>free\<close> of a pointer to the array, \<open>None\<close> when it is not what is allocated.\<close>

definition free_array :: "nat option \<Rightarrow> nat option \<Rightarrow> nat option option" where
  "free_array p heap = (if p = None then Some heap else if heap = p then Some None else None)"

text \<open>
  The array never holds more routes than fit, and is the null pointer exactly when there are none: a route is
  only written where there is room.
\<close>

definition array_ok :: "nat option \<Rightarrow> nat \<Rightarrow> bool" where
  "array_ok arr count \<longleftrightarrow> count \<le> arr_cap arr \<and> (arr = None \<longleftrightarrow> count = 0) \<and> arr \<noteq> Some 0"

lemma grow_array_cases:
  assumes "array_ok arr count"
  shows "grow_routes realloc_ok count (arr_cap arr) = map_sum id arr_cap (grow_array realloc_ok count arr)"
    and "grow_array realloc_ok count arr = Inr arr' \<Longrightarrow> can_write arr' count \<and> array_ok arr' (count + 1)"
  using assms by (auto simp: grow_routes_def grow_array_def array_ok_def arr_cap_def can_write_def Let_def split: option.splits if_splits)

lemma load_routes_memory_ok:
  assumes "array_ok arr (length routes)"
  shows "\<exists>out' heap. load_routes_memory realloc_ok data ln routes arr out = Some (load_routes_loop realloc_ok data ln routes (arr_cap arr), out', heap) \<and>
    (case load_routes_loop realloc_ok data ln routes (arr_cap arr) of
       Inl _ \<Rightarrow> out' = out \<and> heap = None | Inr rs \<Rightarrow> out' = heap \<and> array_ok heap (length rs))"
  using assms
proof (induction realloc_ok data ln routes arr out rule: load_routes_memory.induct)
  case (1 realloc_ok data ln routes arr out)
  let ?raw = "strip_cr (takeWhile (\<lambda>c. c \<noteq> LF) data)" and ?rest = "drop 1 (dropWhile (\<lambda>c. c \<noteq> LF) data)"
  note step = load_routes_memory.simps [of realloc_ok data ln routes arr out] load_routes_loop.simps [of realloc_ok data ln routes "arr_cap arr"]
  note grow = grow_array_cases [OF "1.prems", of realloc_ok]
  show ?case
  proof (cases "data = [] \<or> MAX_LINE_LEN \<le> length ?raw")
    case True
    with "1.prems" show ?thesis by (auto simp: step Let_def)
  next
    case False
    show ?thesis
    proof (cases "line_text ?raw")
      case None
      from "1.IH"(1) [OF _ refl refl refl _ None "1.prems"] False None show ?thesis by (simp add: step Let_def)
    next
      case (Some line)
      show ?thesis
      proof (cases "grow_array realloc_ok (length routes) arr")
        case (Inl e)
        with grow(1) False Some show ?thesis by (simp add: step Let_def)
      next
        case (Inr arr')
        note w = grow(2) [OF Inr]
        show ?thesis
        proof (cases "parse_route_line line")
          case (Inl e)
          with Inr grow(1) w False Some show ?thesis by (simp add: step Let_def)
        next
          case r: (Inr r)
          let ?r = "r\<lparr>line_no := ln + 1\<rparr>"
          show ?thesis
          proof (cases "find_conflicting_route routes ?r \<ge> 0")
            case False': False
            from w have "array_ok arr' (length (routes @ [?r]))" by simp
            from "1.IH"(2) [OF _ refl refl refl _ Some Inr _ r refl _ this] w False False' Inr grow(1) r Some
            show ?thesis by (simp add: step Let_def)
          qed (use Inr grow(1) w False Some r in \<open>simp add: step Let_def\<close>)
        qed
      qed
    qed
  qed
qed


section \<open>The configuration harness\<close>

text \<open>
  \<^verbatim>\<open>fuzz_file_conf.c\<close>. The result is what is still allocated at the end; \<open>None\<close> is \<^verbatim>\<open>abort\<close>, a write outside the array
  or a wrong \<^verbatim>\<open>free\<close>.
\<close>

definition fuzz_file_conf :: "(nat \<Rightarrow> bool) \<Rightarrow> string \<Rightarrow> nat option option" where
  "fuzz_file_conf realloc_ok data = (let routes = None in do {
     (rc, routes, heap) \<leftarrow> load_routes_out realloc_ok data routes;
     (case rc of
        Inr rs \<Rightarrow>
          let count = length rs in
          if count > 0 \<and> routes = None then None
          else free_array routes heap
      | Inl _ \<Rightarrow>
          if routes \<noteq> None then None
          else Some heap) })"

section \<open>The harness of the PROXY header\<close>

text \<open>A copy into a structure, in place.\<close>

definition poke :: "nat \<Rightarrow> byte list \<Rightarrow> byte list \<Rightarrow> byte list" where
  "poke off bs sa = take off sa @ bs @ drop (off + length bs) sa"

text \<open>\<^verbatim>\<open>if (size > from) memcpy(field, data + from, size - from > n ? n : size - from)\<close>\<close>

definition fill_field :: "byte list \<Rightarrow> nat \<Rightarrow> nat \<Rightarrow> nat \<Rightarrow> sockaddr \<Rightarrow> sockaddr" where
  "fill_field data from n off sa =
     (if length data > from then poke off (take (if length data - from > n then n else length data - from) (drop from data)) sa
      else sa)"

definition fuzz_read_u16 :: "byte list \<Rightarrow> 16 word" where
  "fuzz_read_u16 p = push_bit 8 (ucast (p ! 0)) OR ucast (p ! 1)"

definition AF_UNSPEC :: nat where "AF_UNSPEC = 0"

text \<open>
  The checks after a header was built into the front of the buffer. A header that is longer than the buffer would have
  been written outside it. \<open>None\<close> is the trap.
\<close>

definition fuzz_check_header :: "byte list \<Rightarrow> nat \<Rightarrow> nat \<Rightarrow> 16 word \<Rightarrow> byte list result \<Rightarrow> unit option" where
  "fuzz_check_header buf buf_len want body rc =
     (case rc of
        Inl _ \<Rightarrow> Some ()
      | Inr hdr \<Rightarrow>
          if length hdr > length buf then None
          else let out_len = length hdr; buf = poke 0 hdr buf in
            if out_len > buf_len then None
            else if out_len \<noteq> want then None
            else if take 12 buf \<noteq> PROXY_V2_SIG then None
            else if fuzz_read_u16 (drop 14 buf) \<noteq> body then None
            else Some ())"

definition fuzz_proxy_v2_build :: "byte list \<Rightarrow> unit option" where
  "fuzz_proxy_v2_build data =
     (let size = length data in
      if size < 1 then Some ()
      else
        let src = replicate SIZEOF_SS 0; dst = replicate SIZEOF_SS 0; buf = replicate 128 0xa5;
            family = unat (data ! 0) mod 3;
            sock_type = (if size > 1 \<and> data ! 1 AND 1 \<noteq> 0 then SOCK_DGRAM else SOCK_STREAM);
            buf_len = size mod 128 in
        if family = 0 then
          (let s = poke 0 (family_bytes AF_INET) src; d = poke 0 (family_bytes AF_INET) dst;
               s = fill_field data 2 4 4 s; d = fill_field data 6 4 4 d;
               s = fill_field data 10 2 2 s; d = fill_field data 12 2 2 d in
           fuzz_check_header buf buf_len 28 12 (proxy_v2_build (Some buf_len) (Some s) SIZEOF_SIN (Some d) SIZEOF_SIN sock_type True))
        else if family = 1 then
          (let s = poke 0 (family_bytes AF_INET6) src; d = poke 0 (family_bytes AF_INET6) dst;
               s = fill_field data 2 16 8 s; d = fill_field data 18 16 8 d;
               s = fill_field data 34 2 2 s; d = fill_field data 36 2 2 d in
           fuzz_check_header buf buf_len 52 36 (proxy_v2_build (Some buf_len) (Some s) SIZEOF_SIN6 (Some d) SIZEOF_SIN6 sock_type True))
        else
          (let s = poke 0 (family_bytes AF_UNSPEC) src; d = poke 0 (family_bytes AF_UNSPEC) dst in
           case proxy_v2_build (Some buf_len) (Some s) 16 (Some d) 16 sock_type True of
             Inl _ \<Rightarrow> Some ()
           | Inr hdr \<Rightarrow> if length hdr > buf_len then None else Some ()))"

section \<open>The harness of the observer\<close>

text \<open>The array of the name: the name, its NUL and the zeros that \<^verbatim>\<open>memset\<close> left.\<close>

definition sni_array :: "stream_sniff \<Rightarrow> byte list" where
  "sni_array s = sni s @ replicate (STREAM_SNI_MAX + 1 - length (sni s)) 0"

definition byte_strlen :: "byte list \<Rightarrow> nat" where
  "byte_strlen bs = length (takeWhile (\<lambda>b. b \<noteq> 0) bs)"

definition check_invariants :: "stream_sniff \<Rightarrow> unit option" where
  "check_invariants s =
     (if sni_array s ! STREAM_SNI_MAX \<noteq> 0 then None
      else if byte_strlen (sni_array s) > STREAM_SNI_MAX then None
      else if observed s > STREAM_SNIFF_MAX then None
      else if sn_done s then
        (case status s of
           STREAM_SNIFF_PARSED \<Rightarrow> Some () | STREAM_SNIFF_MISSING \<Rightarrow> Some () | STREAM_SNIFF_NOT_TLS \<Rightarrow> Some ()
         | STREAM_SNIFF_TRUNCATED \<Rightarrow> Some () | STREAM_SNIFF_NAME_TOO_LONG \<Rightarrow> Some () | STREAM_SNIFF_PARSE_ERROR \<Rightarrow> Some ()
         | STREAM_SNIFF_NOT_OBSERVED \<Rightarrow> None | STREAM_SNIFF_NEED_MORE \<Rightarrow> None)
      else Some ())"

text \<open>
  \<^verbatim>\<open>fuzz_stream_sniff.c\<close>. The result is the number of buffers that are still allocated at the end; \<open>None\<close> is \<^verbatim>\<open>abort\<close>, a read
  outside the bytes or a buffer freed twice.
\<close>

definition evbuffer_free :: "nat \<Rightarrow> nat option" where
  "evbuffer_free live = (if live = 0 then None else Some (live - 1))"

definition fuzz_stream_sniff :: "bool \<Rightarrow> bool \<Rightarrow> (nat \<Rightarrow> int) \<Rightarrow> byte list \<Rightarrow> nat option" where
  "fuzz_stream_sniff new_ok add_ok copyout data =
     (if \<not> new_ok then Some 0
      else let live = 1 in
        if length data > 0 \<and> \<not> add_ok then evbuffer_free live
        else do {
          s \<leftarrow> stream_sniff_peek_client_input copyout stream_sniff_zero data;
          let _ = stream_sniff_log_sni (Some s);
          _ \<leftarrow> check_invariants s;
          evbuffer_free live })"

section \<open>The harness of stream connections\<close>

text \<open>\<^verbatim>\<open>stream_route_adopt_client_for_fuzz\<close>: \<open>None\<close> in the result is the return value -1.\<close>

definition stream_route_adopt_client_for_fuzz ::
  "'b evbuffer_api \<Rightarrow> 'f file_api \<Rightarrow> 'f adopt_calls \<Rightarrow> bool \<Rightarrow> route option \<Rightarrow> int \<Rightarrow> sockaddr option \<Rightarrow> nat \<Rightarrow>
   (('b, 'f) adopted \<times> conn_event list) option option" where
  "stream_route_adopt_client_for_fuzz E F k base ro client_fd peer peer_len =
     (case ro of
        None \<Rightarrow> Some None
      | Some r \<Rightarrow>
          if \<not> base \<or> client_fd < 0 then Some None
          else
            let ac = \<lparr>sc_route = r, sc_fd = client_fd, sc_peer_addr = replicate SIZEOF_SS 0, sc_peer_addr_len = 0\<rparr>;
                ac = (case peer of
                        Some p \<Rightarrow> if peer_len > 0 \<and> peer_len \<le> SIZEOF_SS
                          then ac\<lparr>sc_peer_addr := poke 0 (take peer_len p) (sc_peer_addr ac), sc_peer_addr_len := peer_len\<rparr>
                          else ac
                      | None \<Rightarrow> ac) in
            map_option Some (worker_adopt_client_fd E F k 0 ac))"

text \<open>
  \<^verbatim>\<open>fuzz_stream_conn.c\<close> with the sockets it closes. \<open>loop\<close> is what the event loop does with the connection in
  the millisecond that it runs; it returns what it closed.
\<close>

definition fuzz_conn_route :: "byte \<Rightarrow> route" where
  "fuzz_conn_route b =
     route_zero\<lparr>line_no := 1,
       listen := endpoint_zero\<lparr>ep_kind := ENDPOINT_INET, ep_host := ''127.0.0.1'', ep_port := 12345, ep_proto := PROTO_TCP\<rparr>,
       upstream := endpoint_zero\<lparr>ep_kind := ENDPOINT_INET, ep_host := ''127.0.0.1'', ep_port := 9, ep_proto := PROTO_TCP\<rparr>,
       opts := route_options_zero\<lparr>proxy_v2 := b AND 1 \<noteq> 0, keep_alive := b AND 2 \<noteq> 0,
         idle_timeout_sec := 1, connect_timeout_sec := 1\<rparr>\<rparr>"

definition fuzz_stream_conn ::
  "'b evbuffer_api \<Rightarrow> 'f file_api \<Rightarrow> 'f adopt_calls \<Rightarrow> bool \<Rightarrow> (int \<times> int) option \<Rightarrow>
   (('b, 'f) adopted \<Rightarrow> byte list \<Rightarrow> conn_event list) \<Rightarrow> byte list \<Rightarrow> conn_event list option" where
  "fuzz_stream_conn E F k event_base_new socketpair loop data =
     (let size = length data in
      if size = 0 \<or> size > 8192 then Some []
      else if \<not> event_base_new then Some []
      else case socketpair of
        None \<Rightarrow> Some []
      | Some (sv0, sv1) \<Rightarrow>
          let r = fuzz_conn_route (data ! 0); peer = poke 0 (family_bytes AF_UNIX) (replicate SIZEOF_SS 0) in do {
            res \<leftarrow> stream_route_adopt_client_for_fuzz E F k True (Some r) sv1 (Some peer) SIZEOF_SUN;
            (case res of
               None \<Rightarrow> Some [Close_socket sv0, Close_socket sv1]
             | Some (a, es) \<Rightarrow> Some (es @ loop a data @ [Close_socket sv0])) })"


section \<open>No harness stops\<close>

lemma fuzz_file_conf_passes: "fuzz_file_conf realloc_ok conf = Some None"
proof -
  have "array_ok None (length ([] :: route list))" by (simp add: array_ok_def arr_cap_def)
  from load_routes_memory_ok [OF this, of realloc_ok conf 0 None] show ?thesis
    by (cases "load_routes_loop realloc_ok conf 0 [] (arr_cap None)")
      (auto simp: fuzz_file_conf_def load_routes_out_def free_array_def Let_def array_ok_def)
qed

lemma length_poke: "off + length bs \<le> length sa \<Longrightarrow> length (poke off bs sa) = length sa"
  by (simp add: poke_def)

lemma length_fill_field: "off + n \<le> length sa \<Longrightarrow> length (fill_field data from n off sa) = length sa"
  by (auto simp: fill_field_def intro!: length_poke)

lemma ss_family_poke: "2 \<le> off \<Longrightarrow> off + length bs \<le> length sa \<Longrightarrow> ss_family (poke off bs sa) = ss_family sa"
  by (simp add: ss_family_def poke_def nth_append)

lemma ss_family_fill: "2 \<le> off \<Longrightarrow> off + n \<le> length sa \<Longrightarrow> ss_family (fill_field data from n off sa) = ss_family sa"
  by (auto simp: fill_field_def intro!: ss_family_poke)

lemma ss_family_zero:
  "f < 256 \<Longrightarrow> ss_family (poke 0 (family_bytes f) (replicate SIZEOF_SS 0)) = f"
  "length (poke 0 (family_bytes f) (replicate SIZEOF_SS 0)) = SIZEOF_SS"
  by (simp_all add: ss_family_def poke_def family_bytes_def sizeof_defs unat_of_nat)

lemma fuzz_read_u16_be16: "fuzz_read_u16 (be16 v @ bs) = v"
proof -
  have "fuzz_read_u16 (be16 v @ bs) = of_be16 (be16 v)"
    unfolding fuzz_read_u16_def of_be16_def
    by (subst disjunctive_add) (auto simp: be16_def bit_push_bit_iff bit_ucast_iff bit_simps)
  then show ?thesis by simp
qed

lemma fuzz_check_inet:
  assumes "ss_family s = AF_INET" "ss_family d = AF_INET" "length s = SIZEOF_SS" "length d = SIZEOF_SS" "n \<le> length buf"
  shows "fuzz_check_header buf n 28 12 (proxy_v2_build (Some n) (Some s) SIZEOF_SIN (Some d) SIZEOF_SIN st True) = Some ()"
proof (cases "proxy_v2_build (Some n) (Some s) SIZEOF_SIN (Some d) SIZEOF_SIN st True")
  case (Inr hdr)
  then obtain x where hdr: "hdr = PROXY_V2_SIG @ [PP2_VERSION_CMD_PROXY, x] @ be16 12 @ sin_addr s @ sin_addr d @ sin_port s @ sin_port d"
    and n: "28 \<le> n"
    using assms(1,2) by (auto simp: proxy_v2_build_def Let_def put_u16_be16 split: if_splits)
  have len: "length hdr = 28" using assms by (simp add: hdr sin_field_lengths sizeof_defs PROXY_V2_SIG_def)
  have "take 12 hdr = PROXY_V2_SIG" "drop 14 hdr = be16 12 @ sin_addr s @ sin_addr d @ sin_port s @ sin_port d"
    by (simp_all add: hdr PROXY_V2_SIG_def)
  with len n assms(5) fuzz_read_u16_be16 show ?thesis by (simp add: fuzz_check_header_def Inr poke_def Let_def)
qed (simp add: fuzz_check_header_def)

lemma fuzz_check_inet6:
  assumes "ss_family s = AF_INET6" "ss_family d = AF_INET6" "length s = SIZEOF_SS" "length d = SIZEOF_SS" "n \<le> length buf"
  shows "fuzz_check_header buf n 52 36 (proxy_v2_build (Some n) (Some s) SIZEOF_SIN6 (Some d) SIZEOF_SIN6 st True) = Some ()"
proof (cases "proxy_v2_build (Some n) (Some s) SIZEOF_SIN6 (Some d) SIZEOF_SIN6 st True")
  case (Inr hdr)
  then obtain x where hdr: "hdr = PROXY_V2_SIG @ [PP2_VERSION_CMD_PROXY, x] @ be16 36 @ sin6_addr s @ sin6_addr d @ sin6_port s @ sin6_port d"
    and n: "52 \<le> n"
    using assms(1,2) by (auto simp: proxy_v2_build_def Let_def put_u16_be16 af_defs split: if_splits)
  have len: "length hdr = 52" using assms by (simp add: hdr sin6_field_lengths sizeof_defs PROXY_V2_SIG_def)
  have "take 12 hdr = PROXY_V2_SIG" "drop 14 hdr = be16 36 @ sin6_addr s @ sin6_addr d @ sin6_port s @ sin6_port d"
    by (simp_all add: hdr PROXY_V2_SIG_def)
  with len n assms(5) fuzz_read_u16_be16 show ?thesis by (simp add: fuzz_check_header_def Inr poke_def Let_def)
qed (simp add: fuzz_check_header_def)

lemma fuzz_unspec: "proxy_v2_build (Some n) (Some s) 16 (Some d) 16 st True = Inr hdr \<Longrightarrow> ss_family s \<noteq> AF_UNSPEC"
  by (auto simp: proxy_v2_build_def Let_def af_defs AF_UNSPEC_def split: if_splits)

lemma case_Inl: "(\<And>x. r \<noteq> Inr x) \<Longrightarrow> (case r of Inl _ \<Rightarrow> a | Inr x \<Rightarrow> f x) = a"
  by (cases r) (simp, blast)

lemma fuzz_proxy_v2_build_passes: "fuzz_proxy_v2_build data = Some ()"
proof -
  let ?st = "if length data > 1 \<and> data ! 1 AND 1 \<noteq> 0 then SOCK_DGRAM else SOCK_STREAM"
  let ?addr = "\<lambda>f. poke 0 (family_bytes f) (replicate SIZEOF_SS 0)"
  have n: "length data mod 128 \<le> length (replicate 128 (0xa5 :: byte))"
    using mod_less_divisor [of 128 "length data"] by simp
  have fam: "AF_INET < 256" "AF_INET6 < 256" "AF_UNSPEC < 256" by (simp_all add: af_defs AF_UNSPEC_def)
  have ss: "8 \<le> SIZEOF_SS" "4 \<le> SIZEOF_SS" "24 \<le> SIZEOF_SS" by (simp_all add: sizeof_defs)
  note fields = ss_family_fill length_fill_field ss_family_zero fam ss
  have inet: "fuzz_check_header (replicate 128 0xa5) (length data mod 128) 28 12 (proxy_v2_build (Some (length data mod 128))
      (Some (fill_field data 10 2 2 (fill_field data 2 4 4 (?addr AF_INET)))) SIZEOF_SIN
      (Some (fill_field data 12 2 2 (fill_field data 6 4 4 (?addr AF_INET)))) SIZEOF_SIN ?st True) = Some ()"
    by (rule fuzz_check_inet [OF _ _ _ _ n]) (simp_all add: fields)
  have inet6: "fuzz_check_header (replicate 128 0xa5) (length data mod 128) 52 36 (proxy_v2_build (Some (length data mod 128))
      (Some (fill_field data 34 2 2 (fill_field data 2 16 8 (?addr AF_INET6)))) SIZEOF_SIN6
      (Some (fill_field data 36 2 2 (fill_field data 18 16 8 (?addr AF_INET6)))) SIZEOF_SIN6 ?st True) = Some ()"
    by (rule fuzz_check_inet6 [OF _ _ _ _ n]) (simp_all add: fields)
  have "proxy_v2_build (Some (length data mod 128)) (Some (?addr AF_UNSPEC)) 16 (Some (?addr AF_UNSPEC)) 16 ?st True \<noteq> Inr hdr" for hdr
    using fuzz_unspec ss_family_zero(1) [OF fam(3)] by metis
  then have unspec: "(case proxy_v2_build (Some (length data mod 128)) (Some (?addr AF_UNSPEC)) 16 (Some (?addr AF_UNSPEC)) 16 ?st True of
      Inl _ \<Rightarrow> Some () | Inr hdr \<Rightarrow> if length hdr > length data mod 128 then None else Some ()) = Some ()"
    by (rule case_Inl)
  show ?thesis
    unfolding fuzz_proxy_v2_build_def Let_def by (simp only: inet inet6 unspec if_cancel)
qed

lemma fuzz_stream_sniff_passes:
  assumes "\<And>k. copyout k \<le> int k"
  shows "fuzz_stream_sniff new_ok add_ok copyout data = Some 0"
proof -
  obtain s where s: "stream_sniff_peek_client_input copyout stream_sniff_zero data = Some s" "sniff_inv s"
    using peek_inv [OF sniff_inv_zero assms] by blast
  then have len: "length (sni s) \<le> STREAM_SNI_MAX" by (simp add: sniff_inv_def)
  then have last: "sni_array s ! STREAM_SNI_MAX = 0" by (simp add: sni_array_def nth_append)
  have "byte_strlen (sni_array s) \<le> STREAM_SNI_MAX"
  proof -
    have "byte_strlen (sni_array s) = byte_strlen (sni s)" if "0 < STREAM_SNI_MAX + 1 - length (sni s)"
      using that by (cases "STREAM_SNI_MAX + 1 - length (sni s)") (auto simp: byte_strlen_def sni_array_def takeWhile_append takeWhile_all)
    moreover have "byte_strlen (sni s) \<le> length (sni s)" by (simp add: byte_strlen_def length_takeWhile_le)
    ultimately show ?thesis using len by simp
  qed
  with last s(2) have "check_invariants s = Some ()"
    by (auto simp: check_invariants_def sniff_inv_def sniff_final_def split: stream_sniff_status.split)
  with s(1) show ?thesis by (simp add: fuzz_stream_sniff_def evbuffer_free_def)
qed

text \<open>
  The harness of stream connections does not close the client's end of the pair twice: it is closed by the harness
  only when it was not taken over. The loop closes it at most once when a connection owns it.
\<close>

lemma fuzz_stream_conn_closes:
  assumes "evbuffer_laws E" and "0 \<le> sv1" and "sv0 \<noteq> sv1" and "ac_connect_fd k \<noteq> sv1"
    and "\<And>a d. times_closed sv1 (loop a d) \<le> (if owned_fd a = Some sv1 then 1 else 0)"
  shows "\<exists>es. fuzz_stream_conn E F k new_ok (Some (sv0, sv1)) loop data = Some es \<and> times_closed sv1 es \<le> 1"
proof (cases "data = [] \<or> 8192 < length data \<or> \<not> new_ok")
  case False
  let ?peer = "poke 0 (family_bytes AF_UNIX) (replicate SIZEOF_SS 0)"
  define ac where "ac = \<lparr>sc_route = fuzz_conn_route (data ! 0), sc_fd = sv1,
    sc_peer_addr = poke 0 (take SIZEOF_SUN ?peer) (replicate SIZEOF_SS 0), sc_peer_addr_len = SIZEOF_SUN\<rparr>"
  have fd: "socket_is_valid (sc_fd ac)" "ac_connect_fd k \<noteq> sc_fd ac"
    using assms(2,4) by (simp_all add: ac_def socket_is_valid_def EVUTIL_INVALID_SOCKET_def)
  have sv1: "sc_fd ac = sv1" by (simp add: ac_def)
  obtain a es where a: "worker_adopt_client_fd E F k 0 ac = Some (a, es)"
    and own: "case a of Adopt_none \<Rightarrow> times_closed sv1 es = 1 | _ \<Rightarrow> times_closed sv1 es = 0 \<and> owned_fd a = Some sv1"
    using adopt_client_outcome [OF assms(1) fd, of F 0] sv1 by metis
  have "stream_route_adopt_client_for_fuzz E F k True (Some (fuzz_conn_route (data ! 0))) sv1 (Some ?peer) SIZEOF_SUN = Some (Some (a, es))"
    using a assms(2) by (simp add: stream_route_adopt_client_for_fuzz_def Let_def ac_def SIZEOF_SUN_def SIZEOF_SS_def)
  then have "fuzz_stream_conn E F k new_ok (Some (sv0, sv1)) loop data = Some (es @ loop a data @ [Close_socket sv0])"
    using False by (simp add: fuzz_stream_conn_def Let_def)
  moreover have "times_closed sv1 (es @ loop a data @ [Close_socket sv0]) \<le> 1"
    using own assms(3) assms(5) [of a data] by (cases a) (auto simp: closed_by_def split: if_splits)
  ultimately show ?thesis by blast
qed (auto simp: fuzz_stream_conn_def Let_def)


text \<open>
  C23. Three of the repository's harnesses pass on every input, not only on those a fuzzer tries. Loading any text as a
  configuration stays inside the array of routes, gives the caller a pointer that is null on every error and not null when there are
  routes, and leaves no memory allocated, whichever allocation fails; every header that is built from the
  fuzzer's addresses fits the space given for it and carries the signature and the right length; and the observer ends in a consistent
  state on any bytes, also when a buffer call fails, with its buffer freed once. It is assumed that \<^verbatim>\<open>evbuffer_copyout\<close> delivers at most what was asked for.
\<close>

theorem fuzz_harnesses_pass:
  assumes "\<And>k. copyout k \<le> int k"
  shows "fuzz_file_conf realloc_ok conf = Some None \<and> fuzz_proxy_v2_build data = Some () \<and>
    fuzz_stream_sniff new_ok add_ok copyout data = Some 0"
  using fuzz_file_conf_passes fuzz_proxy_v2_build_passes fuzz_stream_sniff_passes [OF assms] by blast

theorem fuzz_harnesses_pass_witness:
  "fuzz_proxy_v2_build (0 # replicate 155 7) = Some () \<and> fuzz_stream_sniff True True int [0x16, 3, 1, 0, 5] = Some 0"
  using fuzz_harnesses_pass [of int "\<lambda>_. True" "[]" "0 # replicate 155 7" True True]
    fuzz_harnesses_pass [of int "\<lambda>_. True" "[]" "[0x16, 3, 1, 0, 5]" True True] by simp

end
