(* ===== verification/Compat.thy ===== *)
theory Compat
  imports Tinyproxy
begin

text \<open>
  The platform layer (\<^verbatim>\<open>src/compat_thread.c\<close>, \<^verbatim>\<open>src/compat.h\<close>), with its Windows branches, and the Windows branches of the
  functions whose other branch is modelled elsewhere. The calls of the systems are arguments. On Windows a thread gets its function
  through a block on the heap; each block is freed once and each function is called once.
\<close>

unbundle bit_operations_syntax

section \<open>Threads on POSIX\<close>

definition compat_thread_create_posix :: "bool \<Rightarrow> bool \<Rightarrow> errno option \<Rightarrow> unit result" where
  "compat_thread_create_posix thread fn pthread_create =
     (if \<not> thread \<or> \<not> fn then Inl EINVAL
      else case pthread_create of Some e \<Rightarrow> Inl e | None \<Rightarrow> Inr ())"

definition compat_thread_join_posix :: "errno option \<Rightarrow> unit result" where
  "compat_thread_join_posix pthread_join = (case pthread_join of Some e \<Rightarrow> Inl e | None \<Rightarrow> Inr ())"

definition compat_mutex_init_posix :: "bool \<Rightarrow> errno option \<Rightarrow> unit result" where
  "compat_mutex_init_posix mutex pthread_mutex_init =
     (if \<not> mutex then Inl EINVAL else case pthread_mutex_init of Some e \<Rightarrow> Inl e | None \<Rightarrow> Inr ())"

text \<open>The operations of the system on a mutex, the same three on both systems.\<close>

record 'm mutex_api =
  mx_lock :: "'m \<Rightarrow> 'm"
  mx_unlock :: "'m \<Rightarrow> 'm"
  mx_destroy :: "'m \<Rightarrow> 'm"

definition compat_mutex_lock :: "'m mutex_api \<Rightarrow> 'm \<Rightarrow> 'm" where
  "compat_mutex_lock A mutex = mx_lock A mutex"

definition compat_mutex_unlock :: "'m mutex_api \<Rightarrow> 'm \<Rightarrow> 'm" where
  "compat_mutex_unlock A mutex = mx_unlock A mutex"

definition compat_mutex_destroy :: "'m mutex_api \<Rightarrow> 'm \<Rightarrow> 'm" where
  "compat_mutex_destroy A mutex = mx_destroy A mutex"

section \<open>Threads on Windows\<close>

text \<open>
  A block that hands a function and its argument to the new thread, the blocks on the heap, and the functions
  that were called.
\<close>

record ('fn, 'arg) compat_thread_start =
  ts_fn :: 'fn
  ts_arg :: 'arg

record ('fn, 'arg) win_heap =
  wh_starts :: "addr \<rightharpoonup> ('fn, 'arg) compat_thread_start"
  wh_calls :: "('fn \<times> 'arg) list"

definition free_start :: "addr \<Rightarrow> ('fn, 'arg) win_heap \<Rightarrow> ('fn, 'arg) win_heap option" where
  "free_start a h = (case wh_starts h a of None \<Rightarrow> None | Some _ \<Rightarrow> Some (h\<lparr>wh_starts := (wh_starts h)(a := None)\<rparr>))"

text \<open>The new thread. \<open>None\<close> is a use or a free of memory that is not allocated.\<close>

definition compat_thread_trampoline :: "addr \<Rightarrow> ('fn, 'arg) win_heap \<Rightarrow> ('fn, 'arg) win_heap option" where
  "compat_thread_trampoline raw h = do {
     start \<leftarrow> wh_starts h raw;
     h \<leftarrow> free_start raw h;
     Some (h\<lparr>wh_calls := wh_calls h @ [(ts_fn start, ts_arg start)]\<rparr>) }"

text \<open>
  The calls: \<open>malloc\<close> gives the block, \<open>CreateThread\<close> the handle or the number that \<^verbatim>\<open>GetLastError\<close> then returns. A
  return value of 0 is success, so that a failure with this number would pass for one.
\<close>

definition win_rc :: "nat \<Rightarrow> unit result" where
  "win_rc n = (if n = 0 then Inr () else Inl (EOther n))"

definition compat_thread_create_win ::
  "addr option \<Rightarrow> (nat + nat) \<Rightarrow> bool \<Rightarrow> 'fn option \<Rightarrow> 'arg \<Rightarrow> ('fn, 'arg) win_heap \<Rightarrow>
   (unit result \<times> (nat \<times> addr) option \<times> ('fn, 'arg) win_heap) option" where
  "compat_thread_create_win malloc CreateThread thread fno arg h =
     (case fno of
        None \<Rightarrow> Some (Inl EINVAL, None, h)
      | Some fn \<Rightarrow>
          if \<not> thread then Some (Inl EINVAL, None, h)
          else case malloc of
            None \<Rightarrow> Some (Inl ENOMEM, None, h)
          | Some start \<Rightarrow>
              let h = h\<lparr>wh_starts := (wh_starts h)(start \<mapsto> \<lparr>ts_fn = fn, ts_arg = arg\<rparr>)\<rparr> in
              (case CreateThread of
                 Inl err \<Rightarrow> map_option (\<lambda>h. (win_rc err, None, h)) (free_start start h)
               | Inr handle \<Rightarrow> Some (Inr (), Some (handle, start), h)))"

definition compat_thread_join_win :: "bool \<Rightarrow> (nat + unit) \<Rightarrow> unit result \<times> bool" where
  "compat_thread_join_win thread WaitForSingleObject =
     (if \<not> thread then (Inl EINVAL, False)
      else case WaitForSingleObject of Inl err \<Rightarrow> (win_rc err, False) | Inr _ \<Rightarrow> (Inr (), True))"

definition compat_mutex_init_win :: "bool \<Rightarrow> unit result" where
  "compat_mutex_init_win mutex = (if \<not> mutex then Inl EINVAL else Inr ())"

text \<open>
  Threads that are created while others start: \<open>wt_waiting\<close> are the blocks of the threads that have not started yet, \<open>wt_created\<close>
  the functions that were given to threads.
\<close>

record ('fn, 'arg) win_threads =
  wt_heap :: "('fn, 'arg) win_heap"
  wt_waiting :: "addr list"
  wt_created :: "('fn \<times> 'arg) list"

inductive win_step :: "('fn, 'arg) win_threads \<Rightarrow> ('fn, 'arg) win_threads \<Rightarrow> bool" where
  create: "wh_starts (wt_heap s) start = None \<Longrightarrow>
    compat_thread_create_win (Some start) ct True (Some fn) arg (wt_heap s) = Some (rc, t, h) \<Longrightarrow>
    win_step s (s\<lparr>wt_heap := h, wt_waiting := (case t of None \<Rightarrow> wt_waiting s | Some (_, a) \<Rightarrow> a # wt_waiting s),
      wt_created := (case t of None \<Rightarrow> wt_created s | Some _ \<Rightarrow> wt_created s @ [(fn, arg)])\<rparr>)"
| start: "a \<in> set (wt_waiting s) \<Longrightarrow> compat_thread_trampoline a (wt_heap s) = Some h \<Longrightarrow>
    win_step s (s\<lparr>wt_heap := h, wt_waiting := remove1 a (wt_waiting s)\<rparr>)"

definition win_initial :: "('fn, 'arg) win_threads \<Rightarrow> bool" where
  "win_initial s \<longleftrightarrow> wh_starts (wt_heap s) = Map.empty \<and> wh_calls (wt_heap s) = [] \<and> wt_waiting s = [] \<and> wt_created s = []"

definition start_pairs :: "(addr \<rightharpoonup> ('fn, 'arg) compat_thread_start) \<Rightarrow> addr list \<Rightarrow> ('fn \<times> 'arg) list" where
  "start_pairs starts as = map (\<lambda>a. (ts_fn (the (starts a)), ts_arg (the (starts a)))) as"

lemma start_pairs_upd: "a \<notin> set as \<Longrightarrow> start_pairs (starts(a := x)) as = start_pairs starts as"
  unfolding start_pairs_def by (intro map_cong) auto

lemma start_pairs_remove1:
  "a \<in> set as \<Longrightarrow> mset (start_pairs starts as) =
     add_mset (ts_fn (the (starts a)), ts_arg (the (starts a))) (mset (start_pairs starts (remove1 a as)))"
  by (induction as) (auto simp: start_pairs_def)

lemma start_pairs_simps [simp]:
  "start_pairs starts [] = []"
  "start_pairs starts (a # as) = (ts_fn (the (starts a)), ts_arg (the (starts a))) # start_pairs starts as"
  by (simp_all add: start_pairs_def)

text \<open>The blocks on the heap are those of the threads that have not started; each function was called or waits in its block.\<close>

definition win_inv :: "('fn, 'arg) win_threads \<Rightarrow> bool" where
  "win_inv s \<longleftrightarrow> distinct (wt_waiting s) \<and> dom (wh_starts (wt_heap s)) = set (wt_waiting s) \<and>
     mset (wt_created s) = mset (wh_calls (wt_heap s)) + mset (start_pairs (wh_starts (wt_heap s)) (wt_waiting s))"

lemma win_inv_create:
  assumes "win_inv s" and "wh_starts (wt_heap s) start = None"
    and "compat_thread_create_win (Some start) ct True (Some fn) arg (wt_heap s) = Some (rc, t, h)"
  shows "win_inv (s\<lparr>wt_heap := h, wt_waiting := (case t of None \<Rightarrow> wt_waiting s | Some (_, a) \<Rightarrow> a # wt_waiting s),
      wt_created := (case t of None \<Rightarrow> wt_created s | Some _ \<Rightarrow> wt_created s @ [(fn, arg)])\<rparr>)"
proof (cases ct)
  case (Inl err)
  have "(wh_starts (wt_heap s))(start := None) = wh_starts (wt_heap s)" using assms(2) by auto
  then show ?thesis
    using assms(1,3) Inl by (auto simp: win_inv_def compat_thread_create_win_def free_start_def Let_def)
next
  case (Inr handle)
  have new: "start \<notin> set (wt_waiting s)" using assms(1,2) by (auto simp: win_inv_def)
  have h: "h = (wt_heap s)\<lparr>wh_starts := (wh_starts (wt_heap s))(start \<mapsto> \<lparr>ts_fn = fn, ts_arg = arg\<rparr>)\<rparr>" "t = Some (handle, start)"
    using assms(3) Inr by (simp_all add: compat_thread_create_win_def Let_def)
  show ?thesis using assms(1) new unfolding win_inv_def h by (simp add: start_pairs_upd)
qed

lemma win_inv_start:
  assumes "win_inv s" and "a \<in> set (wt_waiting s)"
  shows "\<exists>h. compat_thread_trampoline a (wt_heap s) = Some h \<and> win_inv (s\<lparr>wt_heap := h, wt_waiting := remove1 a (wt_waiting s)\<rparr>)"
proof -
  let ?m = "wh_starts (wt_heap s)" and ?ws = "wt_waiting s"
  let ?h = "(wt_heap s)\<lparr>wh_starts := ?m(a := None), wh_calls := wh_calls (wt_heap s) @ [(ts_fn (the (?m a)), ts_arg (the (?m a)))]\<rparr>"
  have inv: "distinct ?ws" "dom ?m = set ?ws" "mset (wt_created s) = mset (wh_calls (wt_heap s)) + mset (start_pairs ?m ?ws)"
    using assms(1) by (simp_all add: win_inv_def)
  then obtain x where "?m a = Some x" using assms(2) by blast
  then have "compat_thread_trampoline a (wt_heap s) = Some ?h"
    by (simp add: compat_thread_trampoline_def free_start_def)
  moreover have "win_inv (s\<lparr>wt_heap := ?h, wt_waiting := remove1 a ?ws\<rparr>)"
    using inv start_pairs_remove1 [OF assms(2), of ?m] by (simp add: win_inv_def start_pairs_upd)
  ultimately show ?thesis by blast
qed

interpretation win_sys: inductive_invariant win_initial win_step win_inv
proof unfold_locales
  fix s :: "('a, 'b) win_threads"
  assume "win_initial s"
  then show "win_inv s" by (simp add: win_initial_def win_inv_def)
next
  fix s t :: "('a, 'b) win_threads"
  assume inv: "win_inv s" and "win_step s t"
  from this(2) show "win_inv t"
  proof cases
    case (create start ct fn arg rc r h)
    show ?thesis unfolding create(1) by (rule win_inv_create [OF inv create(2,3)])
  next
    case (start a h)
    from win_inv_start [OF inv start(2)] start(1,3) show ?thesis by auto
  qed
qed

text \<open>
  In every interleaving, a thread that was created and has not started can start without using freed memory,
  and when all have started, the functions that were called are those given to threads, each as often as it was given, and no
  block is left.
\<close>

lemma win_threads_run_once:
  assumes "reach win_initial win_step s"
  shows "(a \<in> set (wt_waiting s) \<longrightarrow> compat_thread_trampoline a (wt_heap s) \<noteq> None) \<and>
    (wt_waiting s = [] \<longrightarrow> mset (wh_calls (wt_heap s)) = mset (wt_created s) \<and> wh_starts (wt_heap s) = Map.empty)"
proof -
  have inv: "win_inv s" using assms by (rule win_sys.inv_reach)
  with win_inv_start [OF inv, of a] show ?thesis by (auto simp: win_inv_def)
qed


section \<open>Sockets\<close>

text \<open>The numbers that \<^verbatim>\<open>WSAGetLastError\<close> returns, as far as the program looks at them.\<close>

datatype wsa_error =
    WSAEWOULDBLOCK | WSAEINTR | WSAEACCES | WSAEINVAL | WSAEADDRNOTAVAIL | WSAEMSGSIZE | WSAENETUNREACH
  | WSAEHOSTUNREACH | WSAENOBUFS | WSA_other nat

text \<open>On Linux \<^verbatim>\<open>EWOULDBLOCK\<close> is \<^verbatim>\<open>EAGAIN\<close>. Errors without a name here have their number there.\<close>

definition socket_err_is_retriable_posix :: "errno \<Rightarrow> bool" where
  "socket_err_is_retriable_posix err \<longleftrightarrow> err = EAGAIN \<or> err = EINTR"

definition socket_err_is_retriable_win :: "wsa_error \<Rightarrow> bool" where
  "socket_err_is_retriable_win err \<longleftrightarrow> err = WSAEWOULDBLOCK \<or> err = WSAEINTR"

definition EACCES :: errno where "EACCES = EOther 13"
definition EADDRNOTAVAIL :: errno where "EADDRNOTAVAIL = EOther 99"
definition ENETUNREACH :: errno where "ENETUNREACH = EOther 101"
definition EHOSTUNREACH :: errno where "EHOSTUNREACH = EOther 113"
definition ENOBUFS :: errno where "ENOBUFS = EOther 105"

definition compat_socket_errno_win :: "wsa_error \<Rightarrow> errno" where
  "compat_socket_errno_win err = (case err of
     WSAEACCES \<Rightarrow> EACCES | WSAEINVAL \<Rightarrow> EINVAL | WSAEADDRNOTAVAIL \<Rightarrow> EADDRNOTAVAIL | WSAEMSGSIZE \<Rightarrow> EMSGSIZE
   | WSAENETUNREACH \<Rightarrow> ENETUNREACH | WSAEHOSTUNREACH \<Rightarrow> EHOSTUNREACH | WSAENOBUFS \<Rightarrow> ENOBUFS | _ \<Rightarrow> EIO)"

text \<open>
  The mapping loses that an error is retriable: the numbers for which a caller would try again become \<^verbatim>\<open>EIO\<close>, so that the
  POSIX test on a mapped error is never true.
\<close>

lemma socket_errno_not_retriable: "\<not> socket_err_is_retriable_posix (compat_socket_errno_win err)"
  by (cases err) (simp_all add: socket_err_is_retriable_posix_def compat_socket_errno_win_def EACCES_def EADDRNOTAVAIL_def
    ENETUNREACH_def EHOSTUNREACH_def ENOBUFS_def)

definition compat_getpid :: "32 word \<Rightarrow> 32 word" where
  "compat_getpid pid = pid"

definition compat_mkdir :: "(string \<Rightarrow> int \<Rightarrow> errno option) \<Rightarrow> string \<Rightarrow> int \<Rightarrow> errno option" where
  "compat_mkdir mkdir path mode = mkdir path mode"

text \<open>\<^verbatim>\<open>htons\<close> on a little-endian machine, and the fields of a raw IP header, which BSD systems want in host order.\<close>

definition htons :: "16 word \<Rightarrow> 16 word" where
  "htons v = push_bit 8 v OR drop_bit 8 v"

definition compat_raw_ip_len :: "bool \<Rightarrow> 16 word \<Rightarrow> 16 word" where
  "compat_raw_ip_len bsd len = (if bsd then len else htons len)"

definition compat_raw_ip_off :: "bool \<Rightarrow> 16 word \<Rightarrow> 16 word" where
  "compat_raw_ip_off bsd off = (if bsd then off else htons off)"

lemma le16_htons: "le16 (htons v) = be16 v"
proof -
  have lo: "ucast (htons v) = (ucast (drop_bit 8 v) :: byte)"
    by (rule bit_word_eqI) (auto simp: htons_def bit_simps)
  have hi: "ucast (drop_bit 8 (htons v)) = (ucast v :: byte)"
    by (rule bit_word_eqI) (auto simp: htons_def bit_simps dest: bit_imp_le_length)
  show ?thesis by (simp add: le16_def be16_def lo hi)
qed

text \<open>The header of the model is what the assignments through these functions store on Linux.\<close>

lemma raw_ipv4_hdr_compat:
  "raw_ipv4_hdr len ck src dst = [push_bit 4 4 OR 5, 0] @ le16 (compat_raw_ip_len False len) @ le16 0 @
     le16 (compat_raw_ip_off False 0) @ [64, IPPROTO_UDP] @ ck @ src @ dst"
  by (simp add: raw_ipv4_hdr_def compat_raw_ip_len_def compat_raw_ip_off_def le16_htons)


section \<open>Other Windows branches\<close>

text \<open>\<^verbatim>\<open>tinyproxy_runtime_dir\<close> on Windows, where the default that \<^verbatim>\<open>env.c\<close> defines is not used.\<close>

definition first_set :: "string option list \<Rightarrow> string" where
  "first_set vs = (case List.find (\<lambda>v. v \<noteq> None \<and> v \<noteq> Some []) vs of Some (Some v) \<Rightarrow> v | _ \<Rightarrow> ''.'')"

definition tinyproxy_runtime_dir_win :: "(string \<Rightarrow> string option) \<Rightarrow> string" where
  "tinyproxy_runtime_dir_win getenv =
     (case getenv ''TINYPROXY_RUNTIME_DIR'' of
        Some (c # v) \<Rightarrow> c # v
      | _ \<Rightarrow>
          (case getenv ''TEMP'' of
             Some (c # v) \<Rightarrow> c # v
           | _ \<Rightarrow> (case getenv ''TMP'' of Some (c # v) \<Rightarrow> c # v | _ \<Rightarrow> ''.'')))"

lemma tinyproxy_runtime_dir_win_first:
  "tinyproxy_runtime_dir_win getenv = first_set (map getenv [''TINYPROXY_RUNTIME_DIR'', ''TEMP'', ''TMP''])"
  by (auto simp: tinyproxy_runtime_dir_win_def first_set_def split: option.split list.split)

lemma tinyproxy_runtime_dir_not_empty: "tinyproxy_runtime_dir getenv \<noteq> [] \<and> tinyproxy_runtime_dir_win getenv \<noteq> []"
  by (auto simp: tinyproxy_runtime_dir_def TINYPROXY_DEFAULT_RUNTIME_DIR_def tinyproxy_runtime_dir_win_def
    split: option.split list.split)

text \<open>Without IPv4 raw sockets, and without Unix datagram listeners, the functions only report that.\<close>

definition datagram_raw_open_ipv4_unsupported :: "int result" where
  "datagram_raw_open_ipv4_unsupported = Inl ENOTSUP"

definition datagram_raw_send_udp_ipv4_unsupported :: "unit result" where
  "datagram_raw_send_udp_ipv4_unsupported = Inl ENOTSUP"

definition bind_unix_datagram_listener_win :: "unit result" where
  "bind_unix_datagram_listener_win = Inl ENOTSUP"

section \<open>Delays for tests\<close>

text \<open>
  \<^verbatim>\<open>tinyproxy_debug_race_sleep\<close> of a debug build: the milliseconds it passes to \<^verbatim>\<open>sleep_ms\<close>, whose argument has 32 bits.
  Other builds do nothing.
\<close>

definition tinyproxy_debug_race_sleep :: "bool \<Rightarrow> (string \<Rightarrow> string option) \<Rightarrow> string \<Rightarrow> 32 word option" where
  "tinyproxy_debug_race_sleep debug getenv name =
     (if \<not> debug then None
      else if getenv ''TINYPROXY_RACE_SLEEP'' \<noteq> Some name then None
      else
        let delay_ms = (case getenv ''TINYPROXY_RACE_SLEEP_MS'' of None \<Rightarrow> 1 | Some delay_s \<Rightarrow> fst (strtol10 delay_s));
            delay_ms = (if delay_ms \<le> 0 then 1 else delay_ms) in
        Some (word_of_int delay_ms))"

lemma debug_race_sleep_default:
  assumes "getenv ''TINYPROXY_RACE_SLEEP'' = Some name" and "getenv ''TINYPROXY_RACE_SLEEP_MS'' = None"
  shows "map_option (\<lambda>ms. sleep_ms ms rems) (tinyproxy_debug_race_sleep True getenv name) = Some 1000000"
  using assms sleep_ms_total by (simp add: tinyproxy_debug_race_sleep_def)

lemma debug_race_sleep_other_place:
  "getenv ''TINYPROXY_RACE_SLEEP'' \<noteq> Some name \<Longrightarrow> tinyproxy_debug_race_sleep debug getenv name = None"
  by (simp add: tinyproxy_debug_race_sleep_def)

end
