(* ===== verification/Spec2Isabelle.thy ===== *)
theory Spec2Isabelle
  imports Client_Hello Proxy_Sockets Klog Fuzz Compat
begin

text \<open>
  A verification development for tinyproxy, a TCP, UDP and Unix-socket forwarder on libevent.

  \<^bold>\<open>The program.\<close> The command line gives inline routes or a configuration file (\<^verbatim>\<open>src/tinyproxy.c\<close>), whose text is
  parsed into routes (\<^verbatim>\<open>src/file_conf.c\<close>); each route joins a listening endpoint to an upstream: another
  endpoint, a file, or a built-in answer. The main thread accepts clients and receives datagrams and
  hands them to a pool of worker threads (\<^verbatim>\<open>src/worker_pool.c\<close>) through the message queue of a worker
  (\<^verbatim>\<open>src/worker.c\<close>). A worker adopts a stream client (\<^verbatim>\<open>src/stream_conn.c\<close>), connects it, optionally sends a
  PROXY v2 header (\<^verbatim>\<open>src/proxy_proto_v2.c\<close>), and pipes bytes both ways (\<^verbatim>\<open>src/stream_pipe.c\<close>), optionally
  observing the TLS server name (\<^verbatim>\<open>src/stream_sniff.c\<close>); or it serves a file or a built-in answer
  (\<^verbatim>\<open>src/stream_file.c\<close>, \<^verbatim>\<open>src/stream_builtin.c\<close>). For a datagram it looks up the client in the table of the route, which all workers
  share under a lock (\<^verbatim>\<open>src/datagram_client.c\<close>, \<^verbatim>\<open>src/datagram_listener.c\<close>), and sends on the client's own upstream
  socket; replies go back from the listening socket or through a raw socket (\<^verbatim>\<open>src/datagram_raw.c\<close>).

  \<^bold>\<open>The theories.\<close> Names follow the C functions.
  \<^item> \<open>Prelude\<close>: error numbers, results, machine integers, linked lists, transition systems and the interface
    \<open>inductive_invariant\<close> that every invariant proof below interprets.
  \<^item> \<open>C_Strings\<close>, \<open>Sockaddr\<close>: the C library functions on text that the parser uses, with the round trip
    between printing and reading numbers; socket addresses as the bytes of 64-bit Linux.
  \<^item> \<open>Builtins\<close> (\<^verbatim>\<open>x_builtins.c\<close>), \<open>Endpoint\<close> (\<^verbatim>\<open>endpoint.c\<close>), \<open>Route\<close> (\<^verbatim>\<open>route.c\<close>, \<^verbatim>\<open>validate_route\<close>),
    \<open>File_Conf\<close> (\<^verbatim>\<open>file_conf.c\<close>): the configuration. Loading succeeds exactly on the texts described
    by a line-wise specification, yields well-formed routes with different listeners and refuses no others for a
    listener; endpoints that fit the buffer survive printing and parsing. The interface \<open>name_codec\<close> is interpreted for the two enumerations
    that have names.
  \<^item> \<open>Klog\<close> (\<^verbatim>\<open>klog.c\<close>): log lines; each call writes one line, from which message and fields can be read back (endpoints cut to
    255 characters, and not those with a host that starts with a quote).
  \<^item> \<open>Proxy_V2\<close> (\<^verbatim>\<open>proxy_proto_v2.c\<close>): the header against a receiver that decodes it.
  \<^item> \<open>Sniff\<close>, \<open>Client_Hello\<close> (\<^verbatim>\<open>stream_sniff.c\<close>): every read of network bytes is checked; the parser is safe
    on all inputs and finds the name in every well-formed ClientHello, however it is cut.
  \<^item> \<open>Worker_Queue\<close>, \<open>Worker\<close>, \<open>Worker_System\<close> (\<^verbatim>\<open>worker.c\<close>): messages on an explicit heap, the linked
    queue, the operations, and the interleaving of the worker with threads that enqueue and stop.
    Jobs are run once, in order, memory and sockets are released once, and a wake-up is lost only when the \<^verbatim>\<open>send\<close> of
    its byte fails on the empty socket; the state records that, and a run in which it happens is exhibited.
  \<^item> \<open>Worker_Pool\<close> (\<^verbatim>\<open>worker_pool.c\<close>): creation with clean-up, and round robin. \<open>Ledger\<close>: which resources are
    held after a log of acquired and released ones.
  \<^item> \<open>Stream_Conn\<close>, \<open>Stream_Pipe\<close>, \<open>Stream_Builtin\<close>, \<open>Stream_File\<close>, \<open>Stream_Adopt\<close>, \<open>Stream_System\<close>: a stream
    connection from adoption to close. The proxy is a faithful and bounded pipe, the header comes
    first, a file is delivered completely when nothing fails, and the client's socket is closed exactly once.
  \<^item> \<open>Bind\<close> (\<^verbatim>\<open>bind.c\<close>, \<^verbatim>\<open>compat_cpu.c\<close>), \<open>Stream_Listener\<close> (\<^verbatim>\<open>stream_listener.c\<close>, \<^verbatim>\<open>stream_route.c\<close>): opening listeners and
    accepting clients.
  \<^item> \<open>Datagram_Raw\<close> (\<^verbatim>\<open>datagram_raw.c\<close>): the checksum, equal to that of RFC 1071, and the packets of raw replies.
  \<^item> \<open>Datagram_Client\<close> (\<^verbatim>\<open>datagram_client.c\<close>, \<^verbatim>\<open>env.c\<close>), \<open>Datagram_Builtin\<close> (\<^verbatim>\<open>datagram_builtin.c\<close>), \<open>Datagram_Listener\<close>
    (\<^verbatim>\<open>datagram_listener.c\<close>), \<open>Datagram_Route\<close> (\<^verbatim>\<open>datagram_route.c\<close>): the clients of a datagram route as a linked list on an explicit heap; the
    interface \<open>client_table\<close> states the list as a table and is interpreted on the pointer operations. What is sent carries the
    right header and payload, replies reach their client up to the first one that cannot be sent, and starting and releasing a route balances.
  \<^item> \<open>Datagram_System\<close>: the packets of a worker's queue refine an abstract run over the tables of their routes, and the workers that share the
    table are interleaved: with one worker no freed client is used, with two workers there is a run that does, through a
    socket number that is used again.
  \<^item> \<open>Route_Runtime\<close> (\<^verbatim>\<open>route_runtime.c\<close>): the interface \<open>route_backend\<close> of a route from start to release, interpreted on stream
    routes, on datagram routes and on the choice between them.
  \<^item> \<open>Options\<close>, \<open>Signals\<close> (\<^verbatim>\<open>signals.c\<close>), \<open>Tinyproxy\<close> (\<^verbatim>\<open>tinyproxy.c\<close>): the meaning of a command line, and the whole program: wherever the start
    fails, all that was started is released in a safe order. The exceptions are part of the statement: signal events that cannot be
    made crash the program, a mutex that cannot be made leaves a raw socket open, and some errors of the options leave their array. The states that the threads leave behind are
    those that \<open>Worker_System\<close> and \<open>Datagram_System\<close> allow.

  \<^item> \<open>Proxy_System\<close>: the main thread and all workers of the pool in one transition system, from the start of the event loop to
    the join at the end. The interface \<open>component_view\<close> carries what \<open>Worker_System\<close> shows of one worker over to the whole.
    Every client and every datagram is run once by the worker it was given to, each accepted socket has one owner, and, but for workers whose
    wake-up could not be sent, none is forgotten and the shutdown completes.
  \<^item> \<open>Proxy_Sockets\<close>: the same system with the stream code as the handler of clients and as the callbacks of the workers. Sockets are
    conserved: what was accepted or connected was closed, or is held by one live connection or by one worker's queue.
  \<^item> \<open>Fuzz\<close> (\<^verbatim>\<open>fuzz/\<close>): the fuzz harnesses of the repository pass on every input; the array of routes, the caller's pointer
    to it and the observer's buffer as memory.
  \<^item> \<open>Compat\<close> (\<^verbatim>\<open>compat_thread.c\<close>, \<^verbatim>\<open>compat.h\<close>): the platform layer with its Windows branches, where a thread gets its function through
    a block on the heap, which is freed once.

  \<^bold>\<open>Conventions.\<close> A function returning 0 or an error number gives \<open>Inr\<close> or \<open>Inl\<close>. Undefined
  behaviour (a read outside a buffer, a use of freed memory, signed overflow) is the value
  \<open>None\<close>, and the properties show where it cannot occur. Code outside the repository is never
  defined: the results of system calls and of the allocator are arguments, libevent's buffers and the
  C library's files are types accessed through records of operations (\<open>evbuffer_api\<close>, \<open>file_api\<close>) whose
  documented behaviour is a named hypothesis (\<open>evbuffer_laws\<close>, \<open>file_laws\<close>), satisfied by byte lists. Calls that only log are
  left out of the components. The platform is little-endian 64-bit Linux.

  \<^bold>\<open>Heaps and logs.\<close> Messages of a worker, clients of a datagram route and the program's own memory never move
  between these owners, so each has its own heap and its own log of resources; sockets that differ in the kernel are different numbers in a log.

  \<^bold>\<open>Loops.\<close> Loops whose end is visible are total functions with a measure. The loops over the message
  list, over the list of clients and the loop that fills an output buffer are partial functions (\<open>None\<close> when they do not end); the
  properties prove that they return. No fuel is used.

  \<^bold>\<open>Not modelled.\<close> The Windows branches outside \<open>Compat\<close> that differ only in the names of the error numbers, and the start of Winsock; the choice
  to ignore \<^verbatim>\<open>SIGPIPE\<close>; the debug output of \<^verbatim>\<open>create_datagram_client\<close>; the texts of the usage and the version; the tests. In \<open>Proxy_System\<close> the
  handlers and the other callbacks of a worker's event loop are arguments. \<open>Proxy_Sockets\<close> gives those of the streams, which run on the thread of any
  worker there, more than libevent allows; those of the datagrams stay arguments and are the subject of \<open>Datagram_System\<close>.
\<close>

end
